(* ===== verification/Prelude.thy ===== *)
theory Prelude
  imports "HOL-Library.Word" "HOL-Library.Monad_Syntax"
begin

unbundle bit_operations_syntax

text \<open>
  The shared layer of the development. It fixes how Rust values are represented:

  \<^item> \<^verbatim>\<open>u8\<close>, \<^verbatim>\<open>u16\<close>, \<^verbatim>\<open>u32\<close> and \<^verbatim>\<open>u64\<close> are words of that width; the arithmetic of
    a release build wraps, which is the arithmetic of words;
  \<^item> \<^verbatim>\<open>usize\<close> lengths and positions are natural numbers;
  \<^item> a computation that may panic (an index or a slice out of range, a remainder by zero)
    has an option type, with \<open>None\<close> for the panic;
  \<^item> a slice or vector is a list, and the \<open>&mut [u8]\<close> buffers are passed and returned.

  The lemmas are the facts on big-endian bytes, checked buffer writes, saturating
  subtraction and lists that the component theories share.
\<close>

section \<open>Machine types\<close>

type_synonym u8 = "8 word"
type_synonym u16 = "16 word"
type_synonym u32 = "32 word"
type_synonym u64 = "64 word"
type_synonym bytes = "u8 list"

named_theorems be_simps \<open>big-endian bytes of words and back\<close>
named_theorems buf_simps \<open>checked reads and writes of buffers\<close>

section \<open>Words as bytes\<close>

definition hi_byte :: "u16 \<Rightarrow> u8" where
  "hi_byte w = ucast (drop_bit 8 w)"

definition lo_byte :: "u16 \<Rightarrow> u8" where
  "lo_byte w = ucast w"

definition to_be16 :: "u16 \<Rightarrow> bytes" where
  "to_be16 w = [hi_byte w, lo_byte w]"

definition from_be16 :: "u8 \<Rightarrow> u8 \<Rightarrow> u16" where
  "from_be16 a b = push_bit 8 (ucast a) OR ucast b"

lemma hi_byte_bit: "bit (hi_byte w) n \<longleftrightarrow> n < 8 \<and> bit w (n + 8)"
  by (auto simp: hi_byte_def bit_simps add.commute)

lemma lo_byte_bit: "bit (lo_byte w) n \<longleftrightarrow> n < 8 \<and> bit w n"
  by (auto simp: lo_byte_def bit_simps)

lemma from_be16_bit:
  "bit (from_be16 a b) n \<longleftrightarrow> (if n < 8 then bit b n else n < 16 \<and> bit a (n - 8))"
  by (auto simp: from_be16_def bit_simps dest: bit_imp_le_length)

lemma from_be16_hi_lo [simp, be_simps]: "from_be16 (hi_byte w) (lo_byte w) = w"
  by (rule bit_word_eqI) (auto simp: from_be16_bit hi_byte_bit lo_byte_bit)

lemma hi_byte_from_be16 [simp, be_simps]: "hi_byte (from_be16 a b) = a"
  by (rule bit_word_eqI) (auto simp: from_be16_bit hi_byte_bit)

lemma lo_byte_from_be16 [simp, be_simps]: "lo_byte (from_be16 a b) = b"
  by (rule bit_word_eqI) (auto simp: from_be16_bit lo_byte_bit)

lemma unat_hi_byte: "unat (hi_byte w) = unat w div 256"
proof -
  have "unat w < 2 ^ 16" using unsigned_less [of w] by simp
  then have "unat w div 256 < 256" by simp
  then show ?thesis
    by (simp add: hi_byte_def unsigned_ucast_eq drop_bit_eq_div take_bit_eq_mod unat_div)
qed

lemma unat_lo_byte: "unat (lo_byte w) = unat w mod 256"
  by (simp add: lo_byte_def unsigned_ucast_eq take_bit_eq_mod)

lemma unat_from_be16: "unat (from_be16 a b) = unat a * 256 + unat b"
proof -
  let ?w = "from_be16 a b"
  have "unat ?w = unat ?w div 256 * 256 + unat ?w mod 256" by simp
  also have "unat ?w div 256 = unat a" by (metis unat_hi_byte hi_byte_from_be16)
  also have "unat ?w mod 256 = unat b" by (metis unat_lo_byte lo_byte_from_be16)
  finally show ?thesis .
qed

lemma length_to_be16 [simp]: "length (to_be16 w) = 2"
  by (simp add: to_be16_def)

lemma and_two_power_eq: "w AND 2 ^ n = (if bit w n then 2 ^ n else 0)"
  for w :: "'a::len word"
  by (rule bit_word_eqI) (auto simp: bit_simps)

section \<open>Saturating subtraction\<close>

definition sat_sub :: "'a::len word \<Rightarrow> 'a word \<Rightarrow> 'a word" where
  "sat_sub a b = (if b \<le> a then a - b else 0)"

lemma unat_sat_sub [simp]: "unat (sat_sub a b) = unat a - unat b"
  by (simp add: sat_sub_def unat_sub word_le_nat_alt)

lemma sat_sub_le: "sat_sub a b \<le> a"
  by (simp add: word_le_nat_alt)

lemma sat_sub_add_cancel: "b \<le> a \<Longrightarrow> sat_sub a b + b = a"
  by (simp add: sat_sub_def)

section \<open>Checked reads and writes\<close>

definition idx :: "'a list \<Rightarrow> nat \<Rightarrow> 'a option" where
  "idx xs i = (if i < length xs then Some (xs ! i) else None)"

definition set_at :: "nat \<Rightarrow> 'a \<Rightarrow> 'a list \<Rightarrow> 'a list option" where
  "set_at i x xs = (if i < length xs then Some (xs[i := x]) else None)"

text \<open>\<open>buf[off..off + src.len()].copy_from_slice(src)\<close>\<close>

definition copy_at :: "nat \<Rightarrow> 'a list \<Rightarrow> 'a list \<Rightarrow> 'a list option" where
  "copy_at off src buf =
     (if off + length src \<le> length buf
      then Some (take off buf @ src @ drop (off + length src) buf) else None)"

lemma idx_Some [simp, buf_simps]: "i < length xs \<Longrightarrow> idx xs i = Some (xs ! i)"
  by (simp add: idx_def)

lemma idx_None [simp]: "length xs \<le> i \<Longrightarrow> idx xs i = None"
  by (simp add: idx_def)

lemma set_at_Some [simp, buf_simps]: "i < length xs \<Longrightarrow> set_at i x xs = Some (xs[i := x])"
  by (simp add: set_at_def)

lemma set_at_eq_None [simp]: "set_at i x xs = None \<longleftrightarrow> length xs \<le> i"
  by (auto simp: set_at_def)

lemma copy_at_Some:
  "off + length src \<le> length buf \<Longrightarrow>
     copy_at off src buf = Some (take off buf @ src @ drop (off + length src) buf)"
  by (simp add: copy_at_def)

lemma copy_at_eq_None [simp]: "copy_at off src buf = None \<longleftrightarrow> length buf < off + length src"
  by (auto simp: copy_at_def)

lemma length_copy_at: "copy_at off src buf = Some buf' \<Longrightarrow> length buf' = length buf"
  by (auto simp: copy_at_def split: if_splits)

lemma nth_copy_at:
  assumes "copy_at off src buf = Some buf'" and "i < length buf"
  shows "buf' ! i = (if off \<le> i \<and> i < off + length src then src ! (i - off) else buf ! i)"
proof -
  from assms(1) have le: "off + length src \<le> length buf"
    and eq: "buf' = take off buf @ src @ drop (off + length src) buf"
    by (auto simp: copy_at_def split: if_splits)
  consider "i < off" | "off \<le> i" "i < off + length src" | "off + length src \<le> i" by linarith
  then show ?thesis
  proof cases
    case 1
    with le show ?thesis by (simp add: eq nth_append)
  next
    case 2
    then have "i - off < length src" by linarith
    with 2 le show ?thesis by (simp add: eq nth_append)
  next
    case 3
    then have "\<not> i - off < length src" by linarith
    with 3 le assms(2) show ?thesis by (simp add: eq nth_append)
  qed
qed

section \<open>Sums over lists\<close>

lemma sum_list_map_add:
  "sum_list (map (\<lambda>x. f x + g x) xs) = sum_list (map f xs) + sum_list (map g xs)"
  for f :: "'a \<Rightarrow> 'b::comm_monoid_add"
  by (induction xs) (simp_all add: algebra_simps)

lemma length_filter_split:
  "length xs = length (filter P xs) + length (filter (\<lambda>x. \<not> P x) xs)"
  by (induction xs) auto

section \<open>Ranges\<close>

lemma unat_u16_less: "unat (x :: u16) < 65536"
  by (rule order_less_le_trans [OF unsigned_less]) simp

lemma unat_u32_less: "unat (x :: u32) < 4294967296"
  by (rule order_less_le_trans [OF unsigned_less]) simp

lemma unat_u64_less: "unat (x :: u64) < 18446744073709551616"
  by (rule order_less_le_trans [OF unsigned_less]) simp

section \<open>Saturating multiplication\<close>

definition sat_mul :: "'a::len word \<Rightarrow> 'a word \<Rightarrow> 'a word" where
  "sat_mul a b = (if unat a * unat b < 2 ^ LENGTH('a) then a * b else - 1)"

lemma unat_sat_mul: "unat a * unat b < 2 ^ LENGTH('a) \<Longrightarrow> unat (sat_mul a b) = unat a * unat b"
  for a b :: "'a::len word"
  by (simp add: sat_mul_def unat_word_ariths)

section \<open>Loops with a break\<close>

text \<open>
  A \<^verbatim>\<open>loop { ... break ... }\<close> whose body maps a state to a flag (break) and the next state.
  The fuel bounds the number of iterations; \<open>None\<close> means that it ran out. The locale states
  when a number of iterations is enough: a measure that every iteration that does not break
  decreases.
\<close>

fun run_loop :: "('s \<Rightarrow> bool \<times> 's) \<Rightarrow> nat \<Rightarrow> 's \<Rightarrow> 's option" where
  "run_loop f 0 s = None"
| "run_loop f (Suc n) s = (case f s of (stop, s') \<Rightarrow> if stop then Some s' else run_loop f n s')"

locale bounded_loop =
  fixes body :: "'s \<Rightarrow> bool \<times> 's"
    and inv :: "'s \<Rightarrow> bool"
    and bound :: "'s \<Rightarrow> nat"
  assumes progress: "inv s \<Longrightarrow> body s = (False, s') \<Longrightarrow> inv s' \<and> bound s' < bound s"
begin

lemma terminates: "inv s \<Longrightarrow> bound s < n \<Longrightarrow> \<exists>s'. run_loop body n s = Some s'"
proof (induction n arbitrary: s)
  case (Suc n)
  obtain stop s' where b: "body s = (stop, s')" by fastforce
  show ?case
  proof (cases stop)
    case False
    then show ?thesis using Suc.IH [of s'] progress [OF Suc.prems(1)] Suc.prems(2) b by fastforce
  qed (simp add: b)
qed simp

lemma last_iteration:
  "inv s \<Longrightarrow> run_loop body n s = Some s' \<Longrightarrow> \<exists>s0. inv s0 \<and> bound s0 \<le> bound s \<and> body s0 = (True, s')"
proof (induction n arbitrary: s)
  case (Suc n)
  obtain stop s1 where b: "body s = (stop, s1)" by fastforce
  show ?case
  proof (cases stop)
    case False
    with Suc.prems b have r: "run_loop body n s1 = Some s'" by simp
    from progress [OF Suc.prems(1)] b False have p: "inv s1 \<and> bound s1 < bound s" by simp
    from Suc.IH [OF _ r] p obtain s0
      where "inv s0" "bound s0 \<le> bound s1" "body s0 = (True, s')" by blast
    with p show ?thesis by (meson le_less_trans less_imp_le)
  next
    case True
    then show ?thesis using Suc.prems b by auto
  qed
qed simp

end

text \<open>Counting the elements of a list that satisfy a predicate, across an update.\<close>

lemma length_filter_update:
  "i < length xs \<Longrightarrow>
     length (filter P (xs[i := v])) + (if P (xs ! i) then 1 else 0) = length (filter P xs) + (if P v then 1 else 0)"
proof (induction xs arbitrary: i)
  case (Cons x xs)
  show ?case
  proof (cases i)
    case (Suc j)
    with Cons.prems have "j < length xs" by simp
    from Cons.IH [OF this] show ?thesis by (cases "P v"; cases "P (xs ! j)") (simp_all add: Suc)
  qed simp
qed simp

lemma unat_lt64: "unat (w :: u64) < 2 ^ 64"
  using unsigned_less [where 'a = nat, of w] by simp

end
