(* ===== verification/Rust_Str.thy ===== *)
theory Rust_Str
  imports Prelude
begin

text \<open>
  The part of Rust's string library that dnsmark calls. A \<^verbatim>\<open>&str\<close> is the list of its
  bytes, so \<^verbatim>\<open>as_bytes\<close> is a change of type and \<^verbatim>\<open>len\<close> is the length of the list.
  White space and letter case are those of ASCII; the other Unicode white space and case
  pairs, which are multi-byte sequences here, are left alone.
\<close>

section \<open>Bytes of a string\<close>

definition as_bytes :: "string \<Rightarrow> bytes" where
  "as_bytes s = map of_char s"

lemma length_as_bytes [simp]: "length (as_bytes s) = length s"
  by (simp add: as_bytes_def)

lemma as_bytes_append [simp]: "as_bytes (s @ t) = as_bytes s @ as_bytes t"
  by (simp add: as_bytes_def)

lemma of_char_u8_inject: "(of_char c :: u8) = of_char d \<longleftrightarrow> c = d"
proof
  assume "(of_char c :: u8) = of_char d"
  then have "unat (of_char c :: u8) = unat (of_char d :: u8)" by simp
  moreover have "unat (of_char a :: u8) = of_char a" for a
  proof -
    have "of_char a < (256 :: nat)" by simp
    then have "unat (word_of_nat (of_char a) :: u8) = of_char a" by (simp add: unat_of_nat)
    then show ?thesis by (simp only: of_nat_of_char)
  qed
  ultimately have "(of_char c :: nat) = of_char d" by simp
  then show "c = d" by simp
qed simp

lemma as_bytes_inject [simp]: "as_bytes s = as_bytes t \<longleftrightarrow> s = t"
proof -
  have "inj (of_char :: char \<Rightarrow> u8)" by (simp add: inj_on_def of_char_u8_inject)
  then show ?thesis by (simp add: as_bytes_def inj_map_eq_map)
qed

section \<open>Splitting\<close>

text \<open>\<^verbatim>\<open>str::split\<close> with a one-character pattern: there is always at least one piece.\<close>

fun split_by :: "(char \<Rightarrow> bool) \<Rightarrow> string \<Rightarrow> string list" where
  "split_by P [] = [[]]"
| "split_by P (c # cs) =
     (if P c then [] # split_by P cs
      else case split_by P cs of [] \<Rightarrow> [[c]] | p # ps \<Rightarrow> (c # p) # ps)"

abbreviation split_on :: "char \<Rightarrow> string \<Rightarrow> string list" where
  "split_on c \<equiv> split_by (\<lambda>x. x = c)"

text \<open>\<^verbatim>\<open>str::split_once\<close>\<close>

fun split_once :: "char \<Rightarrow> string \<Rightarrow> (string \<times> string) option" where
  "split_once d [] = None"
| "split_once d (c # cs) =
     (if c = d then Some ([], cs)
      else map_option (\<lambda>(a, b). (c # a, b)) (split_once d cs))"

definition is_ws :: "char \<Rightarrow> bool" where
  "is_ws c \<longleftrightarrow> c \<in> {CHR '' '', CHR 0x09, CHR 0x0A, CHR 0x0B, CHR 0x0C, CHR 0x0D}"

definition split_whitespace :: "string \<Rightarrow> string list" where
  "split_whitespace s = filter (\<lambda>p. p \<noteq> []) (split_by is_ws s)"

definition trim_start_matches :: "(char \<Rightarrow> bool) \<Rightarrow> string \<Rightarrow> string" where
  "trim_start_matches P s = dropWhile P s"

definition trim_end_matches :: "(char \<Rightarrow> bool) \<Rightarrow> string \<Rightarrow> string" where
  "trim_end_matches P s = rev (dropWhile P (rev s))"

definition trim :: "string \<Rightarrow> string" where
  "trim s = trim_end_matches is_ws (trim_start_matches is_ws s)"

fun strip_prefix :: "string \<Rightarrow> string \<Rightarrow> string option" where
  "strip_prefix [] s = Some s"
| "strip_prefix (p # ps) [] = None"
| "strip_prefix (p # ps) (c # cs) = (if p = c then strip_prefix ps cs else None)"

definition starts_with :: "string \<Rightarrow> string \<Rightarrow> bool" where
  "starts_with p s \<longleftrightarrow> strip_prefix p s \<noteq> None"

definition strip_cr :: "string \<Rightarrow> string" where
  "strip_cr s = (if s \<noteq> [] \<and> last s = CHR 0x0D then butlast s else s)"

text \<open>\<^verbatim>\<open>str::lines\<close>: a line loses its newline and one carriage return before it; an
  unterminated last line is kept as it is, and an empty one is not a line.\<close>

definition lines :: "string \<Rightarrow> string list" where
  "lines s =
     (let ps = split_on (CHR 0x0A) s
      in map strip_cr (butlast ps) @ (if last ps = [] then [] else [last ps]))"

lemma split_by_nonempty [simp]: "split_by P s \<noteq> []"
  by (induction s) (auto split: list.splits)

lemma split_by_no_sep: "p \<in> set (split_by P s) \<Longrightarrow> c \<in> set p \<Longrightarrow> \<not> P c"
proof (induction s arbitrary: p)
  case (Cons d s)
  then show ?case by (fastforce split: if_splits list.splits)
qed simp

lemma split_by_chars: "p \<in> set (split_by P s) \<Longrightarrow> set p \<subseteq> set s"
proof (induction s arbitrary: p)
  case (Cons c s)
  then show ?case by (fastforce split: if_splits list.splits)
qed simp

text \<open>Every byte of the string is in one piece or is one of the separators between them.\<close>

lemma split_by_length:
  "Suc (length s) = length (split_by P s) + sum_list (map length (split_by P s))"
proof (induction s)
  case (Cons c s)
  then show ?case
    by (cases "split_by P s") (auto split: list.splits)
qed simp

lemma split_by_no_match: "\<forall>c\<in>set s. \<not> P c \<Longrightarrow> split_by P s = [s]"
  by (induction s) auto

lemma split_by_append_sep:
  "\<forall>c\<in>set a. \<not> P c \<Longrightarrow> P d \<Longrightarrow> split_by P (a @ d # b) = a # split_by P b"
  by (induction a) auto

lemma split_whitespace_nonempty: "p \<in> set (split_whitespace s) \<Longrightarrow> p \<noteq> []"
  by (simp add: split_whitespace_def)

lemma split_whitespace_single:
  assumes "s \<noteq> []" and "\<forall>c\<in>set s. \<not> is_ws c"
  shows "split_whitespace s = [s]"
  using assms by (simp add: split_whitespace_def split_by_no_match)

lemma split_whitespace_pair:
  assumes "a \<noteq> []" and "\<forall>c\<in>set a. \<not> is_ws c" and "b \<noteq> []" and "\<forall>c\<in>set b. \<not> is_ws c"
  shows "split_whitespace (a @ CHR '' '' # b) = [a, b]"
proof -
  have "is_ws (CHR '' '')" by (simp add: is_ws_def)
  with assms show ?thesis
    by (simp add: split_whitespace_def split_by_append_sep split_by_no_match)
qed

lemma trim_end_matches_idem: "s \<noteq> [] \<Longrightarrow> \<not> P (last s) \<Longrightarrow> trim_end_matches P s = s"
proof -
  assume "s \<noteq> []" "\<not> P (last s)"
  then obtain t c where s: "s = t @ [c]" and "\<not> P c" by (metis append_butlast_last_id)
  then show ?thesis by (simp add: trim_end_matches_def)
qed

lemma length_trim_end_matches: "length (trim_end_matches P s) \<le> length s"
  using length_dropWhile_le [of P "rev s"] by (simp add: trim_end_matches_def)

lemma strip_prefix_Some: "strip_prefix p s = Some r \<longleftrightarrow> s = p @ r"
  by (induction p s rule: strip_prefix.induct) auto

lemma split_once_Some:
  "split_once d s = Some (a, b) \<longleftrightarrow> s = a @ d # b \<and> d \<notin> set a"
proof (induction s arbitrary: a)
  case (Cons c s)
  show ?case by (cases a) (auto simp: Cons.IH)
qed simp

section \<open>Numbers\<close>

definition is_digit :: "char \<Rightarrow> bool" where
  "is_digit c \<longleftrightarrow> 48 \<le> (of_char c :: nat) \<and> (of_char c :: nat) \<le> 57"

definition hex_val :: "char \<Rightarrow> nat option" where
  "hex_val c =
     (let n = of_char c :: nat in
      if 48 \<le> n \<and> n \<le> 57 then Some (n - 48)
      else if 65 \<le> n \<and> n \<le> 70 then Some (n - 55)
      else if 97 \<le> n \<and> n \<le> 102 then Some (n - 87)
      else None)"

definition dec_val :: "char \<Rightarrow> nat option" where
  "dec_val c = (if is_digit c then Some (of_char c - 48) else None)"

fun digits_val :: "(char \<Rightarrow> nat option) \<Rightarrow> nat \<Rightarrow> nat \<Rightarrow> string \<Rightarrow> nat option" where
  "digits_val dv base acc [] = Some acc"
| "digits_val dv base acc (c # cs) =
     (case dv c of None \<Rightarrow> None | Some d \<Rightarrow> digits_val dv base (acc * base + d) cs)"

definition drop_plus :: "string \<Rightarrow> string" where
  "drop_plus s = (case s of c # cs \<Rightarrow> if c = CHR ''+'' then cs else s | [] \<Rightarrow> [])"

definition parse_radix :: "(char \<Rightarrow> nat option) \<Rightarrow> nat \<Rightarrow> nat \<Rightarrow> string \<Rightarrow> nat option" where
  "parse_radix dv base bound s =
     (let ds = drop_plus s in
      if ds = [] then None
      else case digits_val dv base 0 ds of
             None \<Rightarrow> None
           | Some n \<Rightarrow> if n < bound then Some n else None)"

text \<open>\<^verbatim>\<open>str::parse\<close> into an unsigned type of \<open>bound\<close> values, and \<^verbatim>\<open>from_str_radix(_, 16)\<close>.\<close>

definition parse_unsigned :: "nat \<Rightarrow> string \<Rightarrow> nat option" where
  "parse_unsigned = parse_radix dec_val 10"

definition parse_hex :: "nat \<Rightarrow> string \<Rightarrow> nat option" where
  "parse_hex = parse_radix hex_val 16"

text \<open>\<^verbatim>\<open>str::parse\<close> into a signed type with values from \<open>- bound\<close> below \<open>bound\<close>.\<close>

definition parse_signed :: "nat \<Rightarrow> string \<Rightarrow> int option" where
  "parse_signed bound s =
     (case s of
        [] \<Rightarrow> None
      | c # cs \<Rightarrow>
          if c = CHR ''-'' then
            (if cs = [] then None
             else case digits_val dec_val 10 0 cs of
                    None \<Rightarrow> None
                  | Some n \<Rightarrow> if n \<le> bound then Some (- int n) else None)
          else map_option int (parse_unsigned bound s))"

definition dec_digit :: "nat \<Rightarrow> char" where
  "dec_digit d = char_of (48 + d)"

fun nat_to_string :: "nat \<Rightarrow> string" where
  "nat_to_string n =
     (if n < 10 then [dec_digit n] else nat_to_string (n div 10) @ [dec_digit (n mod 10)])"

declare nat_to_string.simps [simp del]

definition hex_digit :: "nat \<Rightarrow> char" where
  "hex_digit d = (if d < 10 then char_of (48 + d) else char_of (87 + d))"

text \<open>\<^verbatim>\<open>{:0Wx}\<close> of a number below \<open>16 ^ W\<close>: exactly \<open>W\<close> lower-case hex digits.\<close>

fun hex_fixed :: "nat \<Rightarrow> nat \<Rightarrow> string" where
  "hex_fixed 0 n = []"
| "hex_fixed (Suc w) n = hex_fixed w (n div 16) @ [hex_digit (n mod 16)]"

lemma of_char_char_of_small: "n < 256 \<Longrightarrow> (of_char (char_of n) :: nat) = n"
  by simp

lemma dec_val_dec_digit [simp]: "d < 10 \<Longrightarrow> dec_val (dec_digit d) = Some d"
  by (simp add: dec_val_def is_digit_def dec_digit_def)

lemma hex_val_hex_digit [simp]: "d < 16 \<Longrightarrow> hex_val (hex_digit d) = Some d"
  by (simp add: hex_val_def hex_digit_def Let_def)

lemma digits_val_append:
  "digits_val dv b acc (s @ t) =
     (case digits_val dv b acc s of None \<Rightarrow> None | Some n \<Rightarrow> digits_val dv b n t)"
  by (induction s arbitrary: acc) (auto split: option.splits)

lemma digits_val_nat_to_string: "digits_val dec_val 10 0 (nat_to_string n) = Some n"
proof (induction n rule: nat_to_string.induct)
  case (1 n)
  show ?case
  proof (cases "n < 10")
    case True
    then show ?thesis by (simp add: nat_to_string.simps [of n])
  next
    case False
    with "1.IH" have "digits_val dec_val 10 0 (nat_to_string (n div 10)) = Some (n div 10)"
      by simp
    with False show ?thesis
      by (simp add: nat_to_string.simps [of n] digits_val_append)
  qed
qed

lemma nat_to_string_nonempty [simp]: "nat_to_string n \<noteq> []"
  by (subst nat_to_string.simps) simp

lemma hd_nat_to_string: "is_digit (hd (nat_to_string n))"
proof (induction n rule: nat_to_string.induct)
  case (1 n)
  then show ?case
    by (cases "n < 10")
      (simp_all add: nat_to_string.simps [of n] is_digit_def dec_digit_def)
qed

lemma drop_plus_nat_to_string [simp]: "drop_plus (nat_to_string n) = nat_to_string n"
proof -
  have "hd (nat_to_string n) \<noteq> CHR ''+''"
    using hd_nat_to_string [of n] by (auto simp: is_digit_def)
  then show ?thesis by (cases "nat_to_string n") (auto simp: drop_plus_def)
qed

text \<open>Printing a number and parsing it back.\<close>

lemma parse_unsigned_nat_to_string:
  "parse_unsigned bound (nat_to_string n) = (if n < bound then Some n else None)"
  by (simp add: parse_unsigned_def parse_radix_def digits_val_nat_to_string Let_def)

lemma parse_unsigned_bound: "parse_unsigned bound s = Some n \<Longrightarrow> n < bound"
  by (auto simp: parse_unsigned_def parse_radix_def Let_def split: if_splits option.splits)

lemma parse_hex_bound: "parse_hex bound s = Some n \<Longrightarrow> n < bound"
  by (auto simp: parse_hex_def parse_radix_def Let_def split: if_splits option.splits)

lemma length_hex_fixed [simp]: "length (hex_fixed w n) = w"
  by (induction w arbitrary: n) auto

lemma digits_val_hex_fixed:
  "digits_val hex_val 16 acc (hex_fixed w n) = Some (acc * 16 ^ w + n mod 16 ^ w)"
proof (induction w arbitrary: n)
  case (Suc w)
  have "n mod 16 ^ Suc w = 16 * (n div 16 mod 16 ^ w) + n mod 16"
    by (simp only: power_Suc mod_mult2_eq)
  moreover have "(acc * 16 ^ w + m) * 16 + d = acc * 16 ^ Suc w + (16 * m + d)" for m d :: nat
    by simp
  moreover have "digits_val hex_val 16 acc (hex_fixed (Suc w) n) =
      Some ((acc * 16 ^ w + n div 16 mod 16 ^ w) * 16 + n mod 16)"
    by (simp add: Suc.IH digits_val_append)
  ultimately show ?case by (simp only:)
qed simp

lemma hex_fixed_inject:
  assumes "m < 16 ^ w" and "n < 16 ^ w" and "hex_fixed w m = hex_fixed w n"
  shows "m = n"
proof -
  have "Some (m mod 16 ^ w) = digits_val hex_val 16 0 (hex_fixed w m)"
    by (simp add: digits_val_hex_fixed)
  also have "\<dots> = Some (n mod 16 ^ w)"
    by (simp only: assms(3) digits_val_hex_fixed) simp
  finally show ?thesis using assms(1,2) by simp
qed

lemma hex_fixed_chars: "c \<in> set (hex_fixed w n) \<Longrightarrow> \<exists>d<16. c = hex_digit d"
proof (induction w arbitrary: n)
  case (Suc w)
  have "n mod 16 < 16" by simp
  then have "\<exists>d<16. hex_digit (n mod 16) = hex_digit d" by blast
  with Suc show ?case by auto
qed simp

section \<open>Letter case\<close>

definition to_upper :: "char \<Rightarrow> char" where
  "to_upper c = (let n = of_char c :: nat in if 97 \<le> n \<and> n \<le> 122 then char_of (n - 32) else c)"

definition to_lower :: "char \<Rightarrow> char" where
  "to_lower c = (let n = of_char c :: nat in if 65 \<le> n \<and> n \<le> 90 then char_of (n + 32) else c)"

definition to_ascii_uppercase :: "string \<Rightarrow> string" where
  "to_ascii_uppercase s = map to_upper s"

definition to_lowercase :: "string \<Rightarrow> string" where
  "to_lowercase s = map to_lower s"

lemma to_upper_to_lower [simp]: "to_upper (to_lower c) = to_upper c"
  by (auto simp: to_upper_def to_lower_def Let_def)

lemma to_ascii_uppercase_lower [simp]:
  "to_ascii_uppercase (to_lowercase s) = to_ascii_uppercase s"
  by (simp add: to_ascii_uppercase_def to_lowercase_def)

lemma to_upper_digit: "is_digit c \<Longrightarrow> to_upper c = c"
  by (auto simp: is_digit_def to_upper_def Let_def)

end
