(* ===== verification/Dns_Message.thy ===== *)
theory Dns_Message
  imports Rust_Str
begin

text \<open>
  DNS messages: \<^verbatim>\<open>src/dns/mod.rs\<close> (\<^verbatim>\<open>build_query\<close>, \<^verbatim>\<open>parse_record_type\<close>),
  \<^verbatim>\<open>src/dns/response.rs\<close> (\<^verbatim>\<open>parse_response\<close>) and the pool of pre-built queries of
  \<^verbatim>\<open>src/query/wire.rs\<close> (\<^verbatim>\<open>build_wire_template\<close>, \<^verbatim>\<open>WireQueryPool\<close>). The reference is a
  decoder of the RFC 1035 question format, written independently of the encoder: the
  lemmas show that decoding a built query gives back the id, the labels and the type, that
  the pool writes exactly the bytes \<^verbatim>\<open>build_query\<close> would build, and what the response
  parser accepts.
\<close>

section \<open>Building a query\<close>

text \<open>One round of the label loop, which skips empty labels.\<close>

definition put_label :: "bytes \<Rightarrow> string \<Rightarrow> bytes" where
  "put_label buf label =
     (if label = [] then buf else (buf @ [of_nat (length label)]) @ as_bytes label)"

definition name_pieces :: "string \<Rightarrow> string list" where
  "name_pieces name = split_on (CHR ''.'') (trim_end_matches (\<lambda>c. c = CHR ''.'') name)"

definition build_query :: "u16 \<Rightarrow> string \<Rightarrow> u16 \<Rightarrow> bytes" where
  "build_query qid name qtype =
     (let buf = [];
          buf = buf @ to_be16 qid;
          buf = buf @ to_be16 0x0100;
          buf = buf @ to_be16 1;
          buf = buf @ to_be16 0;
          buf = buf @ to_be16 0;
          buf = buf @ to_be16 0;
          buf = foldl put_label buf (name_pieces name);
          buf = buf @ [0x00];
          buf = buf @ to_be16 qtype
      in buf @ to_be16 1)"

definition build_wire_template :: "string \<Rightarrow> u16 \<Rightarrow> bytes" where
  "build_wire_template name qtype =
     (let buf = [];
          buf = buf @ [0x00, 0x00];
          buf = buf @ to_be16 0x0100;
          buf = buf @ to_be16 1;
          buf = buf @ [0, 0, 0, 0, 0, 0];
          buf = foldl put_label buf (name_pieces name);
          buf = buf @ [0x00];
          buf = buf @ to_be16 qtype
      in buf @ to_be16 1)"

definition MAX_QUERY :: nat where
  "MAX_QUERY = 512"

record wire_query_pool =
  templates :: "bytes list"

text \<open>\<^verbatim>\<open>WireQueryPool::from_pairs\<close>: the assertion fails on an empty list.\<close>

definition from_pairs :: "(string \<times> u16) list \<Rightarrow> wire_query_pool option" where
  "from_pairs entries =
     (if entries = [] then None
      else Some \<lparr>templates = map (\<lambda>(name, qtype). build_wire_template name qtype) entries\<rparr>)"

text \<open>
  \<^verbatim>\<open>write_with_index\<close>: the number of bytes written and the buffer; a panic when the pool is
  empty (remainder by zero) or the buffer is too short.
\<close>

definition write_with_index ::
  "wire_query_pool \<Rightarrow> nat \<Rightarrow> u16 \<Rightarrow> bytes \<Rightarrow> (nat \<times> bytes) option" where
  "write_with_index pool local_idx qid buf =
     (if templates pool = [] then None
      else do {
        tmpl \<leftarrow> idx (templates pool) (local_idx mod length (templates pool));
        buf \<leftarrow> copy_at 0 tmpl buf;
        buf \<leftarrow> set_at 0 (hi_byte qid) buf;
        buf \<leftarrow> set_at 1 (lo_byte qid) buf;
        Some (length tmpl, buf)
      })"

section \<open>Record types\<close>

definition record_types :: "(string \<times> u16) list" where
  "record_types =
     [(''A'', 1), (''NS'', 2), (''CNAME'', 5), (''SOA'', 6), (''PTR'', 12), (''MX'', 15),
      (''TXT'', 16), (''AAAA'', 28), (''SRV'', 33), (''NAPTR'', 35), (''DS'', 43),
      (''RRSIG'', 46), (''NSEC'', 47), (''DNSKEY'', 48), (''NSEC3'', 50), (''TLSA'', 52),
      (''CAA'', 257), (''ANY'', 255)]"

definition parse_record_type :: "string \<Rightarrow> u16" where
  "parse_record_type s =
     (case map_of record_types (to_ascii_uppercase s) of
        Some t \<Rightarrow> t
      | None \<Rightarrow> (case parse_unsigned 65536 (to_ascii_uppercase s) of
                   Some n \<Rightarrow> of_nat n
                 | None \<Rightarrow> 1))"

section \<open>Reading a response\<close>

record response_info =
  resp_id :: u16
  resp_rcode :: u8

definition parse_response :: "bytes \<Rightarrow> response_info option" where
  "parse_response buf =
     (if length buf < 12 then None
      else let rid = from_be16 (buf ! 0) (buf ! 1);
               flags = from_be16 (buf ! 2) (buf ! 3)
           in if flags AND 0x8000 = 0 then None
              else let rcode = ucast (flags AND 0x000F)
                   in Some \<lparr>resp_id = rid, resp_rcode = rcode\<rparr>)"

section \<open>The reference decoder\<close>

text \<open>
  RFC 1035, section 4.1: a name is a sequence of labels, each a length octet and that many
  octets, ended by a zero octet; a question is a name, a type and a class after the
  twelve-octet header.
\<close>

function decode_name :: "bytes \<Rightarrow> (bytes list \<times> bytes) option" where
  "decode_name [] = None"
| "decode_name (n # bs) =
     (if n = 0 then Some ([], bs)
      else if length bs < unat n then None
      else case decode_name (drop (unat n) bs) of
             None \<Rightarrow> None
           | Some (ls, rest) \<Rightarrow> Some (take (unat n) bs # ls, rest))"
  by pat_completeness auto
termination
  by (relation "measure length") auto

record question =
  q_id :: u16
  q_flags :: u16
  q_counts :: "u16 list"
  q_name :: "bytes list"
  q_type :: u16
  q_class :: u16
  q_rest :: bytes

definition decode_query :: "bytes \<Rightarrow> question option" where
  "decode_query bs =
     (if length bs < 12 then None
      else case decode_name (drop 12 bs) of
        Some (ls, t1 # t2 # c1 # c2 # rest) \<Rightarrow>
          Some \<lparr>q_id = from_be16 (bs ! 0) (bs ! 1), q_flags = from_be16 (bs ! 2) (bs ! 3),
                q_counts = map (\<lambda>i. from_be16 (bs ! i) (bs ! (i + 1))) [4, 6, 8, 10],
                q_name = ls, q_type = from_be16 t1 t2, q_class = from_be16 c1 c2,
                q_rest = rest\<rparr>
      | _ \<Rightarrow> None)"

text \<open>The labels of a name as the label loop sees them.\<close>

definition labels :: "string \<Rightarrow> string list" where
  "labels name = filter (\<lambda>l. l \<noteq> []) (name_pieces name)"

definition qname_bytes :: "string list \<Rightarrow> bytes" where
  "qname_bytes ls = concat (map (\<lambda>l. of_nat (length l) # as_bytes l) ls) @ [0]"

section \<open>Facts about the encoder\<close>

lemma foldl_put_label:
  "foldl put_label buf ps @ [0] = buf @ qname_bytes (filter (\<lambda>l. l \<noteq> []) ps)"
  by (induction ps arbitrary: buf) (auto simp: put_label_def qname_bytes_def)

lemma to_be16_const:
  "to_be16 0x0100 = [1, 0]" "to_be16 1 = [0, 1]" "to_be16 0 = [0, 0]"
  by (simp_all add: to_be16_def hi_byte_def lo_byte_def)

lemma build_query_eq:
  "build_query qid name qtype =
     to_be16 qid @ [1, 0, 0, 1, 0, 0, 0, 0, 0, 0] @ qname_bytes (labels name) @
     to_be16 qtype @ [0, 1]"
proof -
  have "foldl put_label b (name_pieces name) @ 0 # xs =
      b @ qname_bytes (labels name) @ xs" for b xs
    using foldl_put_label [of b "name_pieces name"] by (simp add: labels_def)
  then show ?thesis
    by (simp add: build_query_def Let_def to_be16_const)
qed

lemma build_wire_template_eq:
  "build_wire_template name qtype =
     [0, 0] @ [1, 0, 0, 1, 0, 0, 0, 0, 0, 0] @ qname_bytes (labels name) @
     to_be16 qtype @ [0, 1]"
proof -
  have "foldl put_label b (name_pieces name) @ 0 # xs =
      b @ qname_bytes (labels name) @ xs" for b xs
    using foldl_put_label [of b "name_pieces name"] by (simp add: labels_def)
  then show ?thesis
    by (simp add: build_wire_template_def Let_def to_be16_const)
qed

lemma build_query_patch:
  "build_query qid name qtype =
     hi_byte qid # lo_byte qid # drop 2 (build_wire_template name qtype)"
  by (simp add: build_query_eq build_wire_template_eq to_be16_def)

lemma length_qname_bytes:
  "length (qname_bytes ls) = Suc (sum_list (map (\<lambda>l. Suc (length l)) ls))"
  by (simp add: qname_bytes_def length_concat comp_def)

lemma length_build_query:
  "length (build_query qid name qtype) = 17 + sum_list (map (\<lambda>l. Suc (length l)) (labels name))"
  by (simp add: build_query_eq length_qname_bytes)

lemma length_template_eq:
  "length (build_wire_template name qtype) = length (build_query qid name qtype)"
  by (simp add: build_query_eq build_wire_template_eq)

lemma sum_Suc_filter_le:
  "sum_list (map (\<lambda>l. Suc (length l)) (filter P ps)) \<le> length ps + sum_list (map length ps)"
  by (induction ps) auto

lemma build_query_length_bounds:
  "17 \<le> length (build_query qid name qtype)"
  "length (build_query qid name qtype) \<le> length name + 18"
proof -
  let ?t = "trim_end_matches (\<lambda>c. c = CHR ''.'') name"
  have "sum_list (map (\<lambda>l. Suc (length l)) (labels name)) \<le>
      length (name_pieces name) + sum_list (map length (name_pieces name))"
    unfolding labels_def by (rule sum_Suc_filter_le)
  also have "\<dots> = Suc (length ?t)"
    unfolding name_pieces_def by (rule split_by_length [symmetric])
  also have "\<dots> \<le> Suc (length name)"
    by (simp add: length_trim_end_matches)
  finally show "length (build_query qid name qtype) \<le> length name + 18"
    by (simp add: length_build_query)
qed (simp add: length_build_query)

section \<open>Decoding a built query\<close>

lemma decode_name_qname:
  assumes "\<forall>l\<in>set ls. l \<noteq> [] \<and> length l < 256"
  shows "decode_name (qname_bytes ls @ rest) = Some (map as_bytes ls, rest)"
  using assms
proof (induction ls)
  case Nil
  show ?case by (simp add: qname_bytes_def)
next
  case (Cons l ls)
  let ?n = "of_nat (length l) :: u8"
  have n: "unat ?n = length l"
    using Cons.prems by (simp add: unat_of_nat)
  moreover from n Cons.prems have "?n \<noteq> 0" by auto
  moreover have "qname_bytes (l # ls) @ rest = ?n # as_bytes l @ qname_bytes ls @ rest"
    by (simp add: qname_bytes_def)
  ultimately show ?case using Cons by simp
qed

lemma labels_nonempty: "l \<in> set (labels name) \<Longrightarrow> l \<noteq> []"
  by (simp add: labels_def)

lemma decode_build_query:
  assumes "\<forall>l\<in>set (labels name). length l < 256"
  shows "decode_query (build_query qid name qtype) =
    Some \<lparr>q_id = qid, q_flags = 0x0100, q_counts = [1, 0, 0, 0],
          q_name = map as_bytes (labels name), q_type = qtype, q_class = 1, q_rest = []\<rparr>"
proof -
  have "decode_name (qname_bytes (labels name) @ hi_byte qtype # lo_byte qtype # [0, 1]) =
      Some (map as_bytes (labels name), hi_byte qtype # lo_byte qtype # [0, 1])"
    using assms labels_nonempty by (intro decode_name_qname) blast
  moreover have "from_be16 1 0 = 0x0100" "from_be16 0 1 = 1" "from_be16 0 0 = 0"
    by (simp_all add: from_be16_def)
  ultimately show ?thesis
    by (simp add: decode_query_def build_query_eq to_be16_def)
qed

section \<open>Facts about the pool\<close>

lemma write_with_index_from_pairs:
  assumes pool: "from_pairs entries = Some pool"
    and entry: "entries ! (local_idx mod length entries) = (name, qtype)"
    and fits: "length (build_query qid name qtype) \<le> length buf"
  shows "write_with_index pool local_idx qid buf =
    Some (length (build_query qid name qtype),
          build_query qid name qtype @ drop (length (build_query qid name qtype)) buf)"
proof -
  let ?t = "build_wire_template name qtype"
  from pool have ne: "entries \<noteq> []"
    and ts: "templates pool = map (\<lambda>(name, qtype). build_wire_template name qtype) entries"
    by (auto simp: from_pairs_def split: if_splits)
  then have i: "local_idx mod length entries < length entries" by simp
  have len: "length ?t = length (build_query qid name qtype)" by (rule length_template_eq)
  obtain a b u where t: "?t = a # b # u" by (simp add: build_wire_template_eq)
  have "copy_at 0 ?t buf = Some (?t @ drop (length ?t) buf)"
    using fits len by (simp add: copy_at_Some)
  with ne ts i entry len show ?thesis
    by (simp add: write_with_index_def t build_query_patch)
qed

lemma write_with_index_too_short:
  assumes "from_pairs entries = Some pool"
    and "entries ! (local_idx mod length entries) = (name, qtype)"
    and "length buf < length (build_query qid name qtype)"
  shows "write_with_index pool local_idx qid buf = None"
proof -
  from assms(1) have ne: "entries \<noteq> []"
    and ts: "templates pool = map (\<lambda>(name, qtype). build_wire_template name qtype) entries"
    by (auto simp: from_pairs_def split: if_splits)
  then have "local_idx mod length entries < length entries" by simp
  moreover have "length buf < length (build_wire_template name qtype)"
    using assms(3) by (simp add: length_template_eq [of _ _ qid])
  ultimately show ?thesis
    using assms(2) ne ts by (simp add: write_with_index_def copy_at_def)
qed

lemma write_with_index_fits:
  assumes "from_pairs entries = Some pool" and "\<forall>(name, qtype) \<in> set entries. length name \<le> 494"
    and "MAX_QUERY \<le> length buf"
  shows "\<exists>n buf'. write_with_index pool local_idx qid buf = Some (n, buf') \<and>
    17 \<le> n \<and> n \<le> MAX_QUERY \<and> length buf' = length buf"
proof -
  have "entries \<noteq> []" using assms(1) by (auto simp: from_pairs_def)
  then have m: "entries ! (local_idx mod length entries) \<in> set entries" by simp
  obtain name qtype where e: "entries ! (local_idx mod length entries) = (name, qtype)" by fastforce
  have "length name \<le> 494" using assms(2) m e by auto
  then have "length (build_query qid name qtype) \<le> 512"
    using build_query_length_bounds(2) [of qid name qtype] by simp
  then show ?thesis
    using write_with_index_from_pairs [OF assms(1) e, of qid buf]
      build_query_length_bounds(1) [of qid name qtype] assms(3)
    by (simp add: MAX_QUERY_def)
qed

lemma from_pairs_None [simp]: "from_pairs entries = None \<longleftrightarrow> entries = []"
  by (simp add: from_pairs_def)

section \<open>Facts about the response parser\<close>

lemma qr_flag: "from_be16 a b AND 0x8000 = 0 \<longleftrightarrow> \<not> bit a 7"
  using and_two_power_eq [of "from_be16 a b" 15] by (simp add: from_be16_bit split: if_splits)

lemma rcode_nibble: "(ucast (from_be16 a b AND 0x000F) :: u8) = b AND 0x0F"
proof (rule bit_word_eqI)
  fix n assume "n < LENGTH(8)"
  moreover have "(0x000F :: u16) = mask 4" "(0x0F :: u8) = mask 4" by (simp_all add: mask_eq_exp_minus_1)
  ultimately show "bit (ucast (from_be16 a b AND 0x000F) :: u8) n = bit (b AND 0x0F) n"
    by (auto simp: bit_simps from_be16_bit)
qed

lemma parse_response_eq:
  "parse_response buf =
     (if 12 \<le> length buf \<and> bit (buf ! 2) 7
      then Some \<lparr>resp_id = from_be16 (buf ! 0) (buf ! 1), resp_rcode = buf ! 3 AND 0x0F\<rparr>
      else None)"
  by (simp add: parse_response_def Let_def qr_flag rcode_nibble)

lemma parse_response_query: "parse_response (build_query qid name qtype @ rest) = None"
  by (simp add: parse_response_eq build_query_eq to_be16_def)

text \<open>
  What a server does to the header when it answers: it sets the QR bit, keeps the id and
  writes its response code in the low nibble of the fourth octet.
\<close>

definition answer_header :: "u8 \<Rightarrow> u8 \<Rightarrow> bytes \<Rightarrow> bytes" where
  "answer_header flags3 rcode q = q[2 := q ! 2 OR 0x80, 3 := (flags3 AND 0xF0) OR (rcode AND 0x0F)]"

lemma parse_response_answer:
  assumes "12 \<le> length q"
  shows "parse_response (answer_header f rcode q) =
    Some \<lparr>resp_id = from_be16 (q ! 0) (q ! 1), resp_rcode = rcode AND 0x0F\<rparr>"
proof -
  have "bit (q ! 2 OR 0x80) 7" by (simp add: bit_simps)
  moreover have "((f AND 0xF0) OR (rcode AND 0x0F)) AND 0x0F = rcode AND 0x0F"
    by (simp add: bit.conj_disj_distrib2 and.assoc)
  ultimately show ?thesis
    using assms by (simp add: parse_response_eq answer_header_def)
qed

section \<open>Facts about record types\<close>

lemma parse_record_type_upper:
  "parse_record_type (to_lowercase s) = parse_record_type s"
  by (simp only: parse_record_type_def to_ascii_uppercase_lower)

lemma nat_to_string_digits: "c \<in> set (nat_to_string n) \<Longrightarrow> is_digit c"
proof (induction n rule: nat_to_string.induct)
  case (1 n)
  then show ?case
    by (cases "n < 10")
      (auto simp: nat_to_string.simps [of n] is_digit_def dec_digit_def)
qed

lemma record_types_alpha: "map_of record_types s = Some t \<Longrightarrow> \<not> is_digit (hd s)"
  by (auto simp: record_types_def is_digit_def split: if_splits)

lemma parse_record_type_number:
  assumes "n < 65536"
  shows "parse_record_type (nat_to_string n) = of_nat n"
proof -
  have up: "to_ascii_uppercase (nat_to_string n) = nat_to_string n"
    unfolding to_ascii_uppercase_def
    by (rule map_idI) (simp add: nat_to_string_digits to_upper_digit)
  have "map_of record_types (nat_to_string n) = None"
    using record_types_alpha [of "nat_to_string n"] hd_nat_to_string [of n]
    by (cases "map_of record_types (nat_to_string n)") auto
  with up assms show ?thesis
    by (simp add: parse_record_type_def parse_unsigned_nat_to_string)
qed

section \<open>Properties\<close>

text \<open>C17: The zero-allocation hot path writes exactly what the reference builder builds: for every cursor
  and transaction id, copying the template chosen by the cursor and patching two bytes gives the bytes of
  \<^verbatim>\<open>build_query\<close> for that entry and leaves the rest of the buffer alone.\<close>

theorem pool_write_is_build_query:
  assumes "from_pairs entries = Some pool"
    and "(name, qtype) = entries ! (local_idx mod length entries)"
    and "length (build_query qid name qtype) \<le> length buf"
  shows "write_with_index pool local_idx qid buf =
    Some (length (build_query qid name qtype),
          build_query qid name qtype @ drop (length (build_query qid name qtype)) buf)"
  using write_with_index_from_pairs [OF assms(1) assms(2) [symmetric] assms(3)] .

theorem pool_write_is_build_query_witness:
  "\<exists>pool. from_pairs [(''a.com'', 1), (''b.org'', 28)] = Some pool \<and>
     write_with_index pool 3 0xBEEF (replicate 64 0) =
       Some (23, build_query 0xBEEF ''b.org'' 28 @ replicate 41 0)"
proof -
  obtain pool where p: "from_pairs [(''a.com'', 1), (''b.org'', 28)] = Some pool"
    by (simp add: from_pairs_def)
  have l: "length (build_query 0xBEEF ''b.org'' 28) = 23" by code_simp
  have "(''b.org'', 28 :: u16) = [(''a.com'', 1), (''b.org'', 28)] ! (3 mod length [(''a.com'', 1), (''b.org'', 28 :: u16)])"
    by code_simp
  from pool_write_is_build_query [OF p this, where qid = "0xBEEF" and buf = "replicate 64 0"] l p
  show ?thesis by simp
qed



text \<open>A label of 256 bytes is not rejected: its length byte is truncated to zero, so the message that is
  sent asks for the root name and carries the label as garbage.\<close>

theorem oversized_label_asks_root:
  assumes "labels name = [l]" and "length l = 256"
  shows "\<exists>d. decode_query (build_query qid name qtype) = Some d \<and> q_name d = []"
proof -
  have "(of_nat 256 :: u8) = 0" by simp
  then have "qname_bytes [l] = 0 # as_bytes l @ [0]" using assms(2) by (simp add: qname_bytes_def)
  moreover have "Suc (Suc (Suc (Suc 0))) \<le> length (as_bytes l)"
    using assms(2) by (simp add: as_bytes_def)
  then obtain a b c d t where "as_bytes l = a # b # c # d # t" by (auto simp: Suc_le_length_iff as_bytes_def)
  ultimately show ?thesis
    by (simp add: build_query_eq assms(1) decode_query_def to_be16_def)
qed

theorem oversized_label_asks_root_witness:
  "\<exists>d. decode_query (build_query 1 (replicate 256 CHR ''a'') 1) = Some d \<and> q_name d = []"
proof -
  have "labels (replicate 256 CHR ''a'') = [replicate 256 CHR ''a'']" by code_simp
  from oversized_label_asks_root [OF this] show ?thesis by simp
qed

text \<open>A query for a name of at most 494 bytes fits the 512-byte buffer, so with such names the hot path
  never panics; every query is at least 17 bytes long.\<close>

theorem query_fits_buffer:
  assumes "from_pairs entries = Some pool" and "\<forall>(name, qtype) \<in> set entries. length name \<le> 494"
  shows "\<exists>n buf'. write_with_index pool local_idx qid (replicate MAX_QUERY 0) = Some (n, buf') \<and>
    17 \<le> n \<and> n \<le> MAX_QUERY \<and> length buf' = MAX_QUERY"
  using write_with_index_fits [OF assms, of "replicate MAX_QUERY 0" local_idx qid] by simp

theorem query_fits_buffer_witness:
  "\<exists>pool n buf'. from_pairs [(''a.com'', 1)] = Some pool \<and>
     write_with_index pool 0 1 (replicate MAX_QUERY 0) = Some (n, buf') \<and> n \<le> MAX_QUERY"
proof -
  obtain pool where p: "from_pairs [(''a.com'', 1)] = Some pool" by (simp add: from_pairs_def)
  from query_fits_buffer [OF p, of 0 1] p show ?thesis by auto
qed

text \<open>Telling replies from queries: the parser rejects every query the program builds, and of every answer
  to it (same message, QR bit set, a response code in the low nibble) it reports the query's
  id and that response code, whatever follows in the message.\<close>

theorem parse_response_matches_query:
  "parse_response (build_query qid name qtype @ rest) = None \<and>
   parse_response (answer_header flags3 rcode (build_query qid name qtype @ rest)) =
     Some \<lparr>resp_id = qid, resp_rcode = rcode AND 0x0F\<rparr>"
proof -
  have "12 \<le> length (build_query qid name qtype @ rest)"
    using build_query_length_bounds(1) [of qid name qtype] by simp
  from parse_response_answer [OF this, of flags3 rcode]
  have "parse_response (answer_header flags3 rcode (build_query qid name qtype @ rest)) =
      Some \<lparr>resp_id = qid, resp_rcode = rcode AND 0x0F\<rparr>"
    by (simp add: build_query_eq to_be16_def)
  then show ?thesis by (simp only: parse_response_query)
qed

text \<open>Record types: the name of a type is recognised in any case, and every 16-bit type number written in
  decimal is parsed to that number.\<close>

theorem record_type_parsing:
  assumes "n < 65536"
  shows "parse_record_type (nat_to_string n) = of_nat n \<and>
    parse_record_type (to_lowercase s) = parse_record_type s"
  using parse_record_type_number [OF assms] parse_record_type_upper by simp

theorem record_type_parsing_witness:
  "parse_record_type (nat_to_string 257) = 257 \<and> parse_record_type (to_lowercase ''AAAA'') = 28"
proof -
  have "parse_record_type ''AAAA'' = 28" by code_simp
  with record_type_parsing [of 257 "''AAAA''"] show ?thesis by simp
qed

end
