(* ===== verification/Query_Sources.thy ===== *)
theory Query_Sources
  imports Dns_Message
begin

text \<open>
  The query sources of \<^verbatim>\<open>src/query\<close>: the \<^verbatim>\<open>QuerySource\<close> trait is the locale
  \<open>query_source\<close>, and the three implementations (\<^verbatim>\<open>builtin.rs\<close>, \<^verbatim>\<open>file.rs\<close>, \<^verbatim>\<open>random.rs\<close>)
  are interpretations of it. The text of the built-in corpus, the file system and the random
  number generator are parameters. \<^verbatim>\<open>next\<close> bumps a 64-bit counter that wraps; it panics on
  an empty list of entries (remainder by zero), which the loaders exclude.
\<close>

section \<open>Entries\<close>

record query_entry =
  qe_name :: string
  qe_qtype :: u16

definition parse_line :: "string \<Rightarrow> query_entry" where
  "parse_line line =
     (let parts = split_whitespace line;
          name = (case parts of p # _ \<Rightarrow> p | [] \<Rightarrow> ''example.com'');
          qtype_str = (case parts of _ # q # _ \<Rightarrow> q | _ \<Rightarrow> ''A'')
      in \<lparr>qe_name = name, qe_qtype = parse_record_type qtype_str\<rparr>)"

definition is_query_line :: "string \<Rightarrow> bool" where
  "is_query_line l \<longleftrightarrow> l \<noteq> [] \<and> \<not> starts_with ''#'' l"

definition parse_corpus :: "string \<Rightarrow> query_entry list" where
  "parse_corpus content = map parse_line (filter is_query_line (lines content))"

section \<open>The list sources\<close>

record list_source =
  entries :: "query_entry list"
  index :: u64

definition entry_pair :: "query_entry \<Rightarrow> string \<times> u16" where
  "entry_pair e = (qe_name e, qe_qtype e)"

definition builtin_new :: "string \<Rightarrow> list_source" where
  "builtin_new corpus = \<lparr>entries = parse_corpus corpus, index = 0\<rparr>"

definition builtin_next :: "list_source \<Rightarrow> (query_entry \<times> list_source) option" where
  "builtin_next s =
     (let old = index s;
          s' = s\<lparr>index := old + 1\<rparr>
      in if entries s = [] then None
         else do {
           e \<leftarrow> idx (entries s) (unat old mod length (entries s));
           Some (e, s')
         })"

definition builtin_all_wire_pairs :: "list_source \<Rightarrow> (string \<times> u16) list \<times> list_source" where
  "builtin_all_wire_pairs s = (map entry_pair (entries s), s)"

datatype load_error = ReadFailed string | NoValidEntries string

definition file_load :: "(string \<Rightarrow> string option) \<Rightarrow> string \<Rightarrow> load_error + list_source" where
  "file_load fs path =
     (case fs path of
        None \<Rightarrow> Inl (ReadFailed path)
      | Some content \<Rightarrow>
          let es = parse_corpus content
          in if es = [] then Inl (NoValidEntries path)
             else Inr \<lparr>entries = es, index = 0\<rparr>)"

definition file_next :: "list_source \<Rightarrow> (query_entry \<times> list_source) option" where
  "file_next s =
     (let len = length (entries s);
          old = index s;
          s' = s\<lparr>index := old + 1\<rparr>
      in if len = 0 then None
         else do {
           e \<leftarrow> idx (entries s) (unat old mod len);
           Some (e, s')
         })"

definition file_all_wire_pairs :: "list_source \<Rightarrow> (string \<times> u16) list \<times> list_source" where
  "file_all_wire_pairs s = (map entry_pair (entries s), s)"

section \<open>The random source\<close>

record 'r random_source =
  base_domain :: string
  rs_qtype :: u16
  rng_state :: 'r

definition random_new :: "string \<Rightarrow> u16 \<Rightarrow> 'r \<Rightarrow> 'r random_source" where
  "random_new base qtype r =
     \<lparr>base_domain = trim_end_matches (\<lambda>c. c = CHR ''.'') base, rs_qtype = qtype, rng_state = r\<rparr>"

definition random_name :: "128 word \<Rightarrow> string \<Rightarrow> string" where
  "random_name rid base = hex_fixed 32 (unat rid) @ ''.'' @ base"

definition random_next ::
  "('r \<Rightarrow> 128 word \<times> 'r) \<Rightarrow> 'r random_source \<Rightarrow> (query_entry \<times> 'r random_source) option" where
  "random_next rng s =
     (case rng (rng_state s) of
        (rid, r) \<Rightarrow>
          Some (\<lparr>qe_name = random_name rid (base_domain s), qe_qtype = rs_qtype s\<rparr>,
                s\<lparr>rng_state := r\<rparr>))"

fun random_samples ::
  "('r \<Rightarrow> 128 word \<times> 'r) \<Rightarrow> nat \<Rightarrow> 'r random_source \<Rightarrow> (string \<times> u16) list \<times> 'r random_source" where
  "random_samples rng 0 s = ([], s)"
| "random_samples rng (Suc n) s =
     (case rng (rng_state s) of
        (rid, r) \<Rightarrow>
          (case random_samples rng n (s\<lparr>rng_state := r\<rparr>) of
             (ps, s') \<Rightarrow> ((random_name rid (base_domain s), rs_qtype s) # ps, s')))"

definition random_all_wire_pairs ::
  "('r \<Rightarrow> 128 word \<times> 'r) \<Rightarrow> 'r random_source \<Rightarrow> (string \<times> u16) list \<times> 'r random_source" where
  "random_all_wire_pairs rng s = random_samples rng 4096 s"

section \<open>The trait\<close>

text \<open>
  What the engine relies on: on a source it has built, \<^verbatim>\<open>next\<close> returns and keeps the source
  usable, and there is at least one pair to build the wire pool from.
\<close>

fun take_next :: "('s \<Rightarrow> (query_entry \<times> 's) option) \<Rightarrow> nat \<Rightarrow> 's \<Rightarrow> (query_entry list \<times> 's) option" where
  "take_next nx 0 s = Some ([], s)"
| "take_next nx (Suc n) s =
     do { (e, s') \<leftarrow> nx s; (es, s'') \<leftarrow> take_next nx n s'; Some (e # es, s'') }"

locale query_source =
  fixes nxt :: "'s \<Rightarrow> (query_entry \<times> 's) option"
    and all_wire_pairs :: "'s \<Rightarrow> (string \<times> u16) list \<times> 's"
    and usable :: "'s \<Rightarrow> bool"
  assumes nxt_returns: "usable s \<Longrightarrow> \<exists>e s'. nxt s = Some (e, s') \<and> usable s'"
    and pairs_nonempty: "usable s \<Longrightarrow> fst (all_wire_pairs s) \<noteq> []"
begin

lemma take_next_returns:
  "usable s \<Longrightarrow> \<exists>es s'. take_next nxt n s = Some (es, s') \<and> length es = n \<and> usable s'"
proof (induction n arbitrary: s)
  case (Suc n)
  from nxt_returns [OF Suc.prems] obtain e s1 where "nxt s = Some (e, s1)" "usable s1" by blast
  moreover from Suc.IH [OF this(2)] obtain es s2
    where "take_next nxt n s1 = Some (es, s2)" "length es = n" "usable s2" by blast
  ultimately show ?case by simp
qed simp

lemma pool_builds: "usable s \<Longrightarrow> \<exists>pool. from_pairs (fst (all_wire_pairs s)) = Some pool"
  using pairs_nonempty [of s] from_pairs_None [of "fst (all_wire_pairs s)"] by blast

end

definition list_usable :: "list_source \<Rightarrow> bool" where
  "list_usable s \<longleftrightarrow> entries s \<noteq> []"

interpretation builtin_src: query_source builtin_next builtin_all_wire_pairs list_usable
  by unfold_locales
    (auto simp: builtin_next_def builtin_all_wire_pairs_def list_usable_def Let_def)

interpretation file_src: query_source file_next file_all_wire_pairs list_usable
  by unfold_locales
    (auto simp: file_next_def file_all_wire_pairs_def list_usable_def Let_def)

lemma random_samples_length: "length (fst (random_samples rng n s)) = n"
  by (induction n arbitrary: s) (auto split: prod.splits simp: prod_eq_iff)

lemma random_pairs_nonempty: "fst (random_all_wire_pairs rng s) \<noteq> []"
  using random_samples_length [of rng 4096 s] by (auto simp: random_all_wire_pairs_def)

interpretation random_src: query_source "random_next rng" "random_all_wire_pairs rng" "\<lambda>s. True"
  for rng :: "'r \<Rightarrow> 128 word \<times> 'r"
  by unfold_locales (auto simp: random_next_def random_pairs_nonempty split: prod.splits)

section \<open>Facts about the list sources\<close>

lemma file_next_eq_builtin_next: "file_next = builtin_next"
  by (rule ext) (simp add: file_next_def builtin_next_def Let_def)

lemma file_load_usable: "file_load fs path = Inr s \<Longrightarrow> list_usable s \<and> index s = 0"
  by (auto simp: file_load_def list_usable_def Let_def split: option.splits if_splits)

lemma builtin_next_Some:
  assumes "entries s \<noteq> []"
  shows "builtin_next s =
    Some (entries s ! (unat (index s) mod length (entries s)), s\<lparr>index := index s + 1\<rparr>)"
  using assms by (simp add: builtin_next_def Let_def)

text \<open>
  Round robin: as long as the counter does not wrap, \<open>n\<close> calls return the entries at the
  next \<open>n\<close> positions modulo the number of entries.
\<close>

lemma take_next_builtin:
  assumes "entries s \<noteq> []" and "unat (index s) + n < 2 ^ 64"
  shows "take_next builtin_next n s =
    Some (map (\<lambda>k. entries s ! ((unat (index s) + k) mod length (entries s))) [0..<n],
          s\<lparr>index := index s + of_nat n\<rparr>)"
  using assms
proof (induction n arbitrary: s)
  case (Suc n)
  let ?s = "s\<lparr>index := index s + 1\<rparr>"
  have i: "unat (index ?s) = Suc (unat (index s))"
    using Suc.prems(2) by (simp add: unat_word_ariths)
  have "take_next builtin_next n ?s =
      Some (map (\<lambda>k. entries s ! ((Suc (unat (index s)) + k) mod length (entries s))) [0..<n],
            s\<lparr>index := index s + of_nat (Suc n)\<rparr>)"
    using Suc.IH [of ?s] Suc.prems i by (simp add: algebra_simps)
  moreover have "map (\<lambda>k. f k) [0..<Suc n] = f 0 # map (\<lambda>k. f (Suc k)) [0..<n]"
    for f :: "nat \<Rightarrow> query_entry"
    by (simp add: upt_conv_Cons map_Suc_upt [symmetric] comp_def del: upt_Suc)
  ultimately show ?case
    using Suc.prems(1) by (simp add: builtin_next_Some del: upt_Suc)
qed simp

section \<open>Facts about the random source\<close>

lemma hex_digit_not_dot: "d < 16 \<Longrightarrow> hex_digit d \<noteq> CHR ''.''"
proof
  assume "d < 16" "hex_digit d = CHR ''.''"
  then have "hex_val (CHR ''.'') = Some d" using hex_val_hex_digit [of d] by simp
  then show False by (simp add: hex_val_def)
qed

lemma hex_fixed_no_dot: "c \<in> set (hex_fixed w n) \<Longrightarrow> c \<noteq> CHR ''.''"
  by (drule hex_fixed_chars) (auto dest: hex_digit_not_dot)

lemma random_name_inject:
  assumes "random_name a base = random_name b base"
  shows "a = b"
proof -
  have "hex_fixed 32 (unat a) = hex_fixed 32 (unat b)"
    using assms by (simp add: random_name_def)
  moreover have "unat a < 16 ^ 32" "unat b < 16 ^ 32"
    using unsigned_less [of a] unsigned_less [of b] by simp_all
  ultimately have "unat a = unat b" by (intro hex_fixed_inject)
  then show ?thesis by (simp add: word_unat_eq_iff)
qed

section \<open>Properties\<close>

text \<open>Round robin: over one full turn that does not wrap the 64-bit counter, a list source returns every
  entry exactly once, in the order of the file, starting from the counter's position.\<close>

theorem list_source_round_robin:
  assumes "entries s \<noteq> []" and "unat (index s) + length (entries s) < 2 ^ 64"
  shows "\<exists>s'. take_next file_next (length (entries s)) s =
    Some (rotate (unat (index s)) (entries s), s') \<and> entries s' = entries s"
proof -
  let ?es = "entries s" and ?i = "unat (index s)"
  have "map (\<lambda>k. ?es ! ((?i + k) mod length ?es)) [0..<length ?es] = rotate ?i ?es"
    using assms(1) by (intro nth_equalityI) (simp_all add: nth_rotate)
  then show ?thesis
    using take_next_builtin [OF assms] by (simp add: file_next_eq_builtin_next)
qed

definition three_entries :: list_source where
  "three_entries =
     \<lparr>entries = map (\<lambda>n. \<lparr>qe_name = n, qe_qtype = 1\<rparr>) [''a'', ''b'', ''c''], index = 4\<rparr>"

theorem list_source_round_robin_witness:
  "\<exists>s'. take_next file_next 3 three_entries =
     Some (map (\<lambda>n. \<lparr>qe_name = n, qe_qtype = 1\<rparr>) [''b'', ''c'', ''a''], s')"
proof -
  have "rotate (unat (index three_entries)) (entries three_entries) =
      map (\<lambda>n. \<lparr>qe_name = n, qe_qtype = 1\<rparr>) [''b'', ''c'', ''a'']"
    by code_simp
  moreover have "length (entries three_entries) = 3" "entries three_entries \<noteq> []"
    "unat (index three_entries) + length (entries three_entries) < 2 ^ 64"
    by (simp_all add: three_entries_def)
  ultimately show ?thesis using list_source_round_robin [of three_entries] by fastforce
qed

text \<open>Loading a query file either fails (the file cannot be read, or it has no query line) or gives a
  source from which any number of queries can be drawn and a wire pool can be built without a panic.\<close>

theorem file_source_never_panics:
  "case file_load fs path of
     Inl (ReadFailed p) \<Rightarrow> p = path \<and> fs path = None
   | Inl (NoValidEntries p) \<Rightarrow> p = path \<and> (\<exists>c. fs path = Some c \<and> filter is_query_line (lines c) = [])
   | Inr s \<Rightarrow> (\<exists>es s'. take_next file_next n s = Some (es, s') \<and> length es = n) \<and>
       (\<exists>pool. from_pairs (fst (file_all_wire_pairs s)) = Some pool)"
proof (cases "file_load fs path")
  case (Inl e)
  then show ?thesis
    by (auto simp: file_load_def parse_corpus_def Let_def split: option.splits if_splits load_error.splits)
next
  case (Inr s)
  then have "list_usable s" using file_load_usable by blast
  then show ?thesis using Inr file_src.take_next_returns [of s n] file_src.pool_builds [of s] by auto
qed

text \<open>The random source never repeats a name unless the generator repeats a 128-bit number: for
  a base domain, two names are equal exactly when the numbers are.\<close>

theorem random_names_distinct:
  "random_name a base = random_name b base \<longleftrightarrow> a = b"
  using random_name_inject by blast

end
