(* ===== verification/Rust_Float.thy ===== *)
theory Rust_Float
  imports Prelude "HOL-Library.Log_Nat" Complex_Main
begin

text \<open>
  The binary64 arithmetic the program uses, computed exactly on rationals: every operation is
  the real one followed by \<open>fl64\<close>, rounding to nearest with ties to even, with the subnormal
  range and overflow to infinity. The sign of zero is not represented (no code tests it).
  The lemmas are the two facts the component proofs need: rounding is monotone, and it is the
  identity on numbers with a 53-bit significand.
\<close>

section \<open>Rounding\<close>

definition pow2 :: "int \<Rightarrow> rat" where
  "pow2 e = (if 0 \<le> e then 2 ^ nat e else 1 / 2 ^ nat (- e))"

definition rne :: "rat \<Rightarrow> int" where
  "rne q = (let f = \<lfloor>q\<rfloor>; d = q - of_int f
            in if d < 1 / 2 then f
               else if 1 / 2 < d then f + 1
               else if even f then f else f + 1)"

definition ilog2 :: "rat \<Rightarrow> int" where
  "ilog2 q = (if 1 \<le> q then int (floorlog 2 (nat \<lfloor>q\<rfloor>)) - 1
              else - int (floorlog 2 (nat (\<lceil>1 / q\<rceil> - 1))))"

definition grid :: "rat \<Rightarrow> int" where
  "grid q = max (ilog2 q - 52) (- 1074)"

definition fl_pos :: "rat \<Rightarrow> rat" where
  "fl_pos q = of_int (rne (q / pow2 (grid q))) * pow2 (grid q)"

definition fl :: "rat \<Rightarrow> rat" where
  "fl q = (if q = 0 then 0 else if 0 < q then fl_pos q else - fl_pos (- q))"

datatype f64 = Fin rat | PInf | NInf | NaN

definition fl64 :: "rat \<Rightarrow> f64" where
  "fl64 q = (let r = fl q in if 2 ^ 1024 \<le> r then PInf else if r \<le> - (2 ^ 1024) then NInf else Fin r)"

section \<open>Operations\<close>

definition f_of_u64 :: "u64 \<Rightarrow> f64" where
  "f_of_u64 n = fl64 (of_nat (unat n))"

fun f_neg :: "f64 \<Rightarrow> f64" where
  "f_neg (Fin a) = Fin (- a)"
| "f_neg PInf = NInf"
| "f_neg NInf = PInf"
| "f_neg NaN = NaN"

fun f_add :: "f64 \<Rightarrow> f64 \<Rightarrow> f64" where
  "f_add (Fin a) (Fin b) = fl64 (a + b)"
| "f_add NaN _ = NaN"
| "f_add _ NaN = NaN"
| "f_add PInf NInf = NaN"
| "f_add NInf PInf = NaN"
| "f_add PInf _ = PInf"
| "f_add NInf _ = NInf"
| "f_add (Fin _) PInf = PInf"
| "f_add (Fin _) NInf = NInf"

definition f_sub :: "f64 \<Rightarrow> f64 \<Rightarrow> f64" where
  "f_sub a b = f_add a (f_neg b)"

definition f_inf :: "bool \<Rightarrow> f64" where
  "f_inf neg = (if neg then NInf else PInf)"

fun f_mul :: "f64 \<Rightarrow> f64 \<Rightarrow> f64" where
  "f_mul (Fin a) (Fin b) = fl64 (a * b)"
| "f_mul NaN _ = NaN"
| "f_mul _ NaN = NaN"
| "f_mul (Fin a) PInf = (if a = 0 then NaN else f_inf (a < 0))"
| "f_mul (Fin a) NInf = (if a = 0 then NaN else f_inf (0 < a))"
| "f_mul PInf (Fin a) = (if a = 0 then NaN else f_inf (a < 0))"
| "f_mul NInf (Fin a) = (if a = 0 then NaN else f_inf (0 < a))"
| "f_mul PInf PInf = PInf"
| "f_mul PInf NInf = NInf"
| "f_mul NInf PInf = NInf"
| "f_mul NInf NInf = PInf"

fun f_div :: "f64 \<Rightarrow> f64 \<Rightarrow> f64" where
  "f_div (Fin a) (Fin b) =
     (if b = 0 then (if a = 0 then NaN else f_inf (a < 0)) else fl64 (a / b))"
| "f_div NaN _ = NaN"
| "f_div _ NaN = NaN"
| "f_div (Fin _) PInf = Fin 0"
| "f_div (Fin _) NInf = Fin 0"
| "f_div PInf (Fin b) = f_inf (b < 0)"
| "f_div NInf (Fin b) = f_inf (0 \<le> b)"
| "f_div PInf PInf = NaN"
| "f_div PInf NInf = NaN"
| "f_div NInf PInf = NaN"
| "f_div NInf NInf = NaN"

fun f_lt :: "f64 \<Rightarrow> f64 \<Rightarrow> bool" where
  "f_lt (Fin a) (Fin b) = (a < b)"
| "f_lt NaN _ = False"
| "f_lt _ NaN = False"
| "f_lt PInf _ = False"
| "f_lt _ NInf = False"
| "f_lt NInf _ = True"
| "f_lt _ PInf = True"

definition f_le :: "f64 \<Rightarrow> f64 \<Rightarrow> bool" where
  "f_le a b \<longleftrightarrow> f_lt a b \<or> (a = b \<and> a \<noteq> NaN)"

text \<open>\<^verbatim>\<open>f64::max\<close> and \<^verbatim>\<open>f64::min\<close> return the other argument when one is NaN.\<close>

definition f_max :: "f64 \<Rightarrow> f64 \<Rightarrow> f64" where
  "f_max a b = (if a = NaN then b else if b = NaN then a else if f_lt a b then b else a)"

definition f_min :: "f64 \<Rightarrow> f64 \<Rightarrow> f64" where
  "f_min a b = (if a = NaN then b else if b = NaN then a else if f_lt b a then b else a)"

text \<open>\<^verbatim>\<open>as u64\<close>: truncation, saturating at both ends, NaN to 0.\<close>

fun f_to_nat :: "nat \<Rightarrow> f64 \<Rightarrow> nat" where
  "f_to_nat mx (Fin a) = min (nat \<lfloor>a\<rfloor>) mx"
| "f_to_nat mx PInf = mx"
| "f_to_nat mx NInf = 0"
| "f_to_nat mx NaN = 0"

definition f_to_u64 :: "f64 \<Rightarrow> u64" where
  "f_to_u64 a = of_nat (f_to_nat (2 ^ 64 - 1) a)"

text \<open>The literal \<^verbatim>\<open>lit\<close> of the source, rounded by the compiler.\<close>

definition f_lit :: "rat \<Rightarrow> f64" where
  "f_lit q = fl64 q"

section \<open>Powers of two and logarithms\<close>

lemma pow2_powi: "pow2 e = 2 powi e"
  unfolding pow2_def power_int_def by (simp only: power_one_over inverse_eq_divide)

lemma pow2_pos [simp]: "0 < pow2 e"
  by (simp add: pow2_powi)

lemma pow2_neq_0 [simp]: "pow2 e \<noteq> 0"
  using pow2_pos [of e] by linarith

lemma pow2_add: "pow2 (a + b) = pow2 a * pow2 b"
  by (simp add: pow2_powi power_int_add)

lemma pow2_diff: "pow2 (a - b) = pow2 a / pow2 b"
  by (simp add: pow2_powi power_int_diff)

lemma pow2_nat: "0 \<le> e \<Longrightarrow> pow2 e = of_int (2 ^ nat e)"
  by (simp add: pow2_def)

lemma pow2_mono: "a \<le> b \<Longrightarrow> pow2 a \<le> pow2 b"
  by (simp add: pow2_powi power_int_increasing)

lemma pow2_less_iff: "pow2 a < pow2 b \<longleftrightarrow> a < b"
proof
  show "a < b" if "pow2 a < pow2 b"
    using that pow2_mono [of b a] by (meson linorder_not_less)
  show "pow2 a < pow2 b" if "a < b"
    using that by (simp add: pow2_powi power_int_strict_increasing)
qed

lemma floorlog2_bounds:
  assumes "0 < n"
  shows "2 ^ (floorlog 2 n - 1) \<le> n" and "n < 2 ^ floorlog 2 n"
  using floorlog_bounds [of n 2] assms by simp_all

lemma ilog2_ge_1:
  assumes "1 \<le> q"
  shows "pow2 (ilog2 q) \<le> q \<and> q < pow2 (ilog2 q + 1)"
proof -
  let ?n = "nat \<lfloor>q\<rfloor>"
  let ?k = "floorlog 2 ?n"
  have n: "0 < ?n" using assms by simp
  have k: "0 < ?k" using n by (simp add: floorlog_def)
  have e: "ilog2 q = int ?k - 1" using assms by (simp add: ilog2_def)
  have "of_nat (2 ^ (?k - 1)) \<le> (of_nat ?n :: rat)"
    using floorlog2_bounds(1) [OF n] of_nat_le_iff by blast
  also have "\<dots> \<le> q" using assms by (simp add: of_nat_nat)
  finally have lo: "2 ^ (?k - 1) \<le> q" by simp
  have "?n + 1 \<le> 2 ^ ?k" using floorlog2_bounds(2) [OF n] by linarith
  then have "(of_nat (?n + 1) :: rat) \<le> of_nat (2 ^ ?k)" using of_nat_le_iff by blast
  moreover have "q < of_nat (?n + 1)" using assms by (simp add: of_nat_nat) linarith
  ultimately have hi: "q < 2 ^ ?k" by simp
  have "nat (int ?k - 1) = ?k - 1" by simp
  then show ?thesis using lo hi k e by (simp add: pow2_def)
qed

lemma ilog2_lt_1:
  assumes "0 < q" and "q < 1"
  shows "pow2 (ilog2 q) \<le> q \<and> q < pow2 (ilog2 q + 1)"
proof -
  define c where "c = \<lceil>1 / q\<rceil>"
  have i: "1 < 1 / q" using assms by simp
  then have c2: "2 \<le> c" unfolding c_def by linarith
  let ?n = "nat (c - 1)"
  let ?k = "floorlog 2 ?n"
  have n: "0 < ?n" using c2 by simp
  have k: "0 < ?k" using n by (simp add: floorlog_def)
  have e: "ilog2 q = - int ?k" using assms by (simp add: ilog2_def c_def)
  have "int ?n < int (2 ^ ?k)" using floorlog2_bounds(2) [OF n] by (simp only: of_nat_less_iff)
  then have "c \<le> 2 ^ ?k" using c2 by simp
  then have "of_int c \<le> (of_int (2 ^ ?k) :: rat)" by (rule of_int_le_iff [THEN iffD2])
  moreover have "1 / q \<le> of_int c" by (simp add: c_def)
  ultimately have "1 / q \<le> of_int (2 ^ ?k)" by (rule order_trans [rotated])
  then have "1 / q \<le> 2 ^ ?k" by simp
  then have lo: "1 / 2 ^ ?k \<le> q" using assms by (simp add: field_simps)
  have "int (2 ^ (?k - 1)) \<le> c - 1" using floorlog2_bounds(1) [OF n] n by linarith
  then have "(2 ^ (?k - 1) :: int) < c" by simp
  then have "of_int (2 ^ (?k - 1)) < 1 / q" unfolding c_def less_ceiling_iff .
  then have hi: "q < 1 / 2 ^ (?k - 1)" using assms by (simp add: field_simps)
  have "nat (int ?k - 1) = ?k - 1" by simp
  then show ?thesis using lo hi k e assms(2) by (simp add: pow2_def)
qed

lemma ilog2_bounds: "0 < q \<Longrightarrow> pow2 (ilog2 q) \<le> q \<and> q < pow2 (ilog2 q + 1)"
  by (cases "1 \<le> q") (erule ilog2_ge_1, erule ilog2_lt_1, simp only: not_le)

lemma ilog2_less_mono:
  assumes "0 < q" and "q < pow2 e"
  shows "ilog2 q < e"
proof -
  have "pow2 (ilog2 q) < pow2 e" using ilog2_bounds [OF assms(1)] assms(2) by linarith
  then show ?thesis by (simp add: pow2_less_iff)
qed

lemma ilog2_mono:
  assumes "0 < p" and "p \<le> q"
  shows "ilog2 p \<le> ilog2 q"
proof -
  have "p < pow2 (ilog2 q + 1)" using ilog2_bounds [of q] assms by linarith
  from ilog2_less_mono [OF assms(1) this] show ?thesis by linarith
qed

section \<open>Rounding is monotone and exact on representable numbers\<close>

lemma rne_of_int [simp]: "rne (of_int z) = z"
  by (simp add: rne_def)

lemma rne_cases: "rne q = \<lfloor>q\<rfloor> \<or> rne q = \<lfloor>q\<rfloor> + 1"
  by (simp add: rne_def Let_def)

lemma rne_mono:
  assumes "p \<le> q"
  shows "rne p \<le> rne q"
proof (cases "\<lfloor>p\<rfloor> = \<lfloor>q\<rfloor>")
  case True
  then show ?thesis using assms by (auto simp: rne_def Let_def)
next
  case False
  then have "\<lfloor>p\<rfloor> + 1 \<le> \<lfloor>q\<rfloor>" using floor_mono [OF assms] by linarith
  then show ?thesis using rne_cases [of p] rne_cases [of q] by linarith
qed

lemma rne_le_int: "q \<le> of_int z \<Longrightarrow> rne q \<le> z"
  using rne_mono [of q "of_int z"] by simp

lemma rne_ge_int: "of_int z \<le> q \<Longrightarrow> z \<le> rne q"
  using rne_mono [of "of_int z" q] by simp

lemma fl_pos_mono:
  assumes "0 < p" and "p \<le> q"
  shows "fl_pos p \<le> fl_pos q"
proof (cases "grid p = grid q")
  case True
  have "p / pow2 (grid q) \<le> q / pow2 (grid q)"
    using assms(2) by (simp add: divide_right_mono order_less_imp_le)
  from rne_mono [OF this] show ?thesis
    by (simp add: fl_pos_def True mult_right_mono order_less_imp_le)
next
  case False
  let ?e = "ilog2 q"
  have l: "ilog2 p \<le> ?e" by (rule ilog2_mono [OF assms])
  then have g: "grid p < grid q" "grid q = ?e - 52" "ilog2 p < ?e"
    using False by (auto simp: grid_def)
  have up: "fl_pos p \<le> pow2 ?e"
  proof -
    have "p < pow2 (ilog2 p + 1)" using ilog2_bounds [OF assms(1)] by simp
    also have "\<dots> \<le> pow2 ?e" using g(3) by (intro pow2_mono) simp
    finally have "p / pow2 (grid p) \<le> pow2 (?e - grid p)"
      by (simp add: pow2_diff divide_right_mono order_less_imp_le)
    then have "rne (p / pow2 (grid p)) \<le> 2 ^ nat (?e - grid p)"
      using g by (intro rne_le_int) (simp add: pow2_nat)
    then have "(of_int (rne (p / pow2 (grid p))) :: rat) \<le> pow2 (?e - grid p)"
      using g by (subst pow2_nat) (simp, simp only: of_int_le_iff)
    then have "fl_pos p \<le> pow2 (?e - grid p) * pow2 (grid p)"
      unfolding fl_pos_def by (intro mult_right_mono) (simp_all add: order_less_imp_le)
    then show ?thesis by (simp add: pow2_add [symmetric])
  qed
  have down: "pow2 ?e \<le> fl_pos q"
  proof -
    have "pow2 ?e \<le> q" using ilog2_bounds [of q] assms by simp
    then have "pow2 (?e - grid q) \<le> q / pow2 (grid q)"
      by (simp add: pow2_diff divide_right_mono order_less_imp_le)
    then have "2 ^ nat (?e - grid q) \<le> rne (q / pow2 (grid q))"
      using g by (intro rne_ge_int) (simp add: pow2_nat)
    then have "pow2 (?e - grid q) \<le> (of_int (rne (q / pow2 (grid q))) :: rat)"
      using g by (subst pow2_nat) (simp, simp only: of_int_le_iff)
    then have "pow2 (?e - grid q) * pow2 (grid q) \<le> fl_pos q"
      unfolding fl_pos_def by (intro mult_right_mono) (simp_all add: order_less_imp_le)
    then show ?thesis by (simp add: pow2_add [symmetric])
  qed
  from up down show ?thesis by linarith
qed

text \<open>A number \<open>m * 2 ^ k\<close> with a significand of at most 53 bits is its own rounding.\<close>

lemma fl_pos_exact:
  fixes m :: nat
  assumes "0 < m" and "m < 2 ^ 53" and "- 1074 \<le> k"
  shows "fl_pos (of_nat m * pow2 k) = of_nat m * pow2 k"
proof -
  let ?q = "of_nat m * pow2 k"
  have q: "0 < ?q" using assms(1) by simp
  have "(of_nat m :: rat) < of_nat (2 ^ 53)" using assms(2) of_nat_less_iff by blast
  then have "?q < 2 ^ 53 * pow2 k" by (intro mult_strict_right_mono) simp_all
  then have "?q < pow2 53 * pow2 k" by (simp add: pow2_def [of 53])
  then have "?q < pow2 (53 + k)" by (simp only: pow2_add)
  from ilog2_less_mono [OF q this] have "grid ?q \<le> k" using assms(3) by (simp add: grid_def)
  then have "?q / pow2 (grid ?q) = of_int (int m * 2 ^ nat (k - grid ?q))"
    using pow2_nat [of "k - grid ?q"] by (simp add: pow2_diff field_simps)
  then have "rne (?q / pow2 (grid ?q)) = int m * 2 ^ nat (k - grid ?q)"
    by (simp only: rne_of_int)
  then have "fl_pos ?q = of_int (int m * 2 ^ nat (k - grid ?q)) * pow2 (grid ?q)"
    by (simp only: fl_pos_def)
  also have "\<dots> = ?q / pow2 (grid ?q) * pow2 (grid ?q)"
    using \<open>?q / pow2 (grid ?q) = of_int (int m * 2 ^ nat (k - grid ?q))\<close> by simp
  finally show ?thesis by simp
qed

lemma fl_mono_nonneg:
  assumes "0 \<le> p" and "p \<le> q"
  shows "fl p \<le> fl q"
proof (cases "p = 0")
  case True
  show ?thesis
  proof (cases "q = 0")
    case False
    have "0 \<le> q / pow2 (grid q)" using assms by (intro divide_nonneg_pos) simp_all
    then have "0 \<le> rne (q / pow2 (grid q))" by (intro rne_ge_int) simp
    then show ?thesis using True False assms
      by (simp add: fl_def fl_pos_def mult_nonneg_nonneg order_less_imp_le)
  qed (simp add: True)
next
  case False
  then show ?thesis using assms fl_pos_mono [of p q] by (simp add: fl_def)
qed

lemma fl_exact:
  fixes m :: nat
  assumes "m < 2 ^ 53" and "- 1074 \<le> k"
  shows "fl (of_nat m * pow2 k) = of_nat m * pow2 k"
  using fl_pos_exact [of m k] assms by (cases "m = 0") (simp_all add: fl_def)

lemma fl_nat [simp]: "n < 2 ^ 53 \<Longrightarrow> fl (of_nat n) = of_nat n"
  using fl_exact [of n 0] by (simp add: pow2_def)

text \<open>Between two representable bounds the rounded value stays between them.\<close>

lemma floor_fl_eqI:
  fixes n :: nat
  assumes "n < 2 ^ 49" and "of_nat n \<le> q" and "q \<le> of_nat n + 7 / 8"
  shows "\<lfloor>fl q\<rfloor> = int n"
proof -
  have "of_nat n \<le> fl q"
    using fl_mono_nonneg [of "of_nat n" q] assms by simp
  moreover have e: "of_nat n + 7 / 8 = of_nat (8 * n + 7) * pow2 (- 3)"
    by (simp add: pow2_def field_simps)
  have "fl (of_nat (8 * n + 7) * pow2 (- 3)) = of_nat (8 * n + 7) * pow2 (- 3)"
    using assms(1) by (intro fl_exact) simp_all
  then have "fl (of_nat n + 7 / 8) = of_nat n + 7 / 8"
    using e by simp
  then have "fl q \<le> of_nat n + 7 / 8"
    using fl_mono_nonneg [of q "of_nat n + 7 / 8"] assms by simp
  ultimately show ?thesis by (intro floor_unique) simp_all
qed

lemma fl64_small: "\<bar>fl q\<bar> < 2 ^ 1024 \<Longrightarrow> fl64 q = Fin (fl q)"
  unfolding fl64_def Let_def abs_less_iff by (subst if_not_P, linarith)+ (rule refl)

lemma fl64_nat: "n < 2 ^ 53 \<Longrightarrow> fl64 (of_nat n) = Fin (of_nat n)"
proof -
  assume n: "n < 2 ^ 53"
  then have "(of_nat n :: rat) < of_nat (2 ^ 53)" using of_nat_less_iff by blast
  also have "\<dots> < 2 ^ 1024" by simp
  finally show ?thesis using n by (subst fl64_small) simp_all
qed

lemma fl_nonneg: "0 \<le> q \<Longrightarrow> 0 \<le> fl q"
  using fl_mono_nonneg [of 0 q] by (simp add: fl_def)

lemma fl64_unit: "0 \<le> q \<Longrightarrow> q \<le> 1 \<Longrightarrow> fl64 q = Fin (fl q) \<and> 0 \<le> fl q \<and> fl q \<le> 1"
proof -
  assume q: "0 \<le> q" "q \<le> 1"
  have b: "0 \<le> fl q" "fl q \<le> 1" using fl_nonneg [OF q(1)] fl_mono_nonneg [OF q] fl_nat [of 1] by simp_all
  moreover have "(1 :: rat) < 2 ^ 1024" by simp
  ultimately have "\<bar>fl q\<bar> < 2 ^ 1024" by linarith
  from fl64_small [OF this] b show ?thesis by simp
qed

end
