(* ===== verification/Ramp.thy ===== *)
theory Ramp
  imports Rust_Float Rust_Str
begin

text \<open>
  The saturation search of \<^verbatim>\<open>--ramp\<close>: the controller of \<^verbatim>\<open>src/engine/ramp.rs\<close> (doubling,
  then bisection) and the task of \<^verbatim>\<open>run_with_shutdown\<close> in \<^verbatim>\<open>src/engine/mod.rs\<close> that
  drives it. The two comparisons the controller makes on \<^verbatim>\<open>f64\<close> values are computed exactly
  with the arithmetic of \<open>Rust_Float\<close>. What the task reads from outside in one step (the
  shutdown flag, the counters, the \<^verbatim>\<open>ethtool\<close> output, the median latency) is a record of
  observations, given by an environment function of the step number and the target rate.
\<close>

section \<open>The controller\<close>

definition MAX_DOUBLINGS :: u32 where "MAX_DOUBLINGS = 20"

definition MAX_BISECT :: u32 where "MAX_BISECT = 14"

definition START_QPS :: u64 where "START_QPS = 100000"

definition SLO_FACTOR :: f64 where "SLO_FACTOR = f_lit 3"

definition SLO_MARGIN_US :: u64 where "SLO_MARGIN_US = 1000"

datatype phase = Exp | Bisect

record ramp_controller =
  current_qps :: u64
  last_stable_qps :: u64
  doublings :: u32
  ctl_phase :: phase
  ctl_lo :: u64
  ctl_hi :: u64
  bisect_steps :: u32
  use_xdp :: bool
  baseline_us :: u64

definition ramp_new :: "bool \<Rightarrow> ramp_controller" where
  "ramp_new xdp =
     \<lparr>current_qps = START_QPS, last_stable_qps = 0, doublings = 0, ctl_phase = Exp,
      ctl_lo = 0, ctl_hi = 0, bisect_steps = 0, use_xdp = xdp, baseline_us = 0\<rparr>"

definition threshold_us :: "ramp_controller \<Rightarrow> u64" where
  "threshold_us c =
     (let b = max (baseline_us c) 1
      in max (f_to_u64 (f_mul (f_of_u64 b) SLO_FACTOR)) (b + SLO_MARGIN_US))"

definition bracket :: "ramp_controller \<Rightarrow> u64 \<times> u64" where
  "bracket c = (ctl_lo c, ctl_hi c)"

definition converged :: "ramp_controller \<Rightarrow> bool" where
  "converged c \<longleftrightarrow> sat_sub (ctl_hi c) (ctl_lo c) \<le> max (ctl_lo c div 20) 5000"

text \<open>\<^verbatim>\<open>advance\<close>: first the latency floor, then the verdict on the step, then the transition.\<close>

definition note_baseline :: "u64 \<Rightarrow> ramp_controller \<Rightarrow> ramp_controller" where
  "note_baseline p50 c =
     (if 0 < p50 \<and> (baseline_us c = 0 \<or> p50 < baseline_us c) then c\<lparr>baseline_us := p50\<rparr> else c)"

definition offer_floor :: "u64 \<Rightarrow> u64" where
  "offer_floor target = f_to_u64 (f_mul (f_of_u64 target) (f_lit (80 / 100)))"

definition step_ok :: "ramp_controller \<Rightarrow> u64 \<Rightarrow> u64 \<Rightarrow> bool" where
  "step_ok c achieved p50 =
     (let offer_ok = offer_floor (current_qps c) \<le> achieved;
          latency_ok = p50 \<le> threshold_us c
      in if use_xdp c then latency_ok else latency_ok \<and> offer_ok)"

definition midpoint :: "ramp_controller \<Rightarrow> u64" where
  "midpoint c = ctl_lo c + (ctl_hi c - ctl_lo c) div 2"

definition advance_exp :: "bool \<Rightarrow> ramp_controller \<Rightarrow> (u64 \<times> bool \<times> u64) \<times> ramp_controller" where
  "advance_exp ok c =
     (if ok then
        let c1 = c\<lparr>last_stable_qps := current_qps c, doublings := doublings c + 1\<rparr>
        in if MAX_DOUBLINGS \<le> doublings c1
           then ((current_qps c1, True, current_qps c1), c1)
           else let c2 = c1\<lparr>current_qps := sat_mul (current_qps c1) 2\<rparr>
                in ((current_qps c2, False, 0), c2)
      else
        let c1 = c\<lparr>ctl_lo := last_stable_qps c, ctl_hi := current_qps c, ctl_phase := Bisect\<rparr>
        in if converged c1
           then ((max (ctl_lo c1) 1, True, ctl_lo c1), c1)
           else let c2 = c1\<lparr>current_qps := midpoint c1\<rparr>
                in ((current_qps c2, False, 0), c2))"

definition advance_bisect :: "bool \<Rightarrow> ramp_controller \<Rightarrow> (u64 \<times> bool \<times> u64) \<times> ramp_controller" where
  "advance_bisect ok c =
     (let c1 = (if ok then c\<lparr>ctl_lo := current_qps c\<rparr> else c\<lparr>ctl_hi := current_qps c\<rparr>);
          c2 = c1\<lparr>bisect_steps := bisect_steps c1 + 1\<rparr>
      in if converged c2 \<or> MAX_BISECT \<le> bisect_steps c2
         then ((max (ctl_lo c2) 1, True, ctl_lo c2), c2)
         else let c3 = c2\<lparr>current_qps := midpoint c2\<rparr>
              in ((current_qps c3, False, 0), c3))"

definition advance ::
  "ramp_controller \<Rightarrow> u64 \<Rightarrow> u64 \<Rightarrow> (u64 \<times> bool \<times> u64) \<times> ramp_controller" where
  "advance c achieved p50 =
     (let c1 = note_baseline p50 c;
          ok = step_ok c1 achieved p50
      in case ctl_phase c1 of
           Exp \<Rightarrow> advance_exp ok c1
         | Bisect \<Rightarrow> advance_bisect ok c1)"

section \<open>The ramp task\<close>

definition nic_rx_unicast :: "string option \<Rightarrow> u64 option" where
  "nic_rx_unicast ethtool_stdout =
     (case ethtool_stdout of
        None \<Rightarrow> None
      | Some s \<Rightarrow>
          (case List.map_filter
                  (\<lambda>line. do { rest \<leftarrow> strip_prefix ''rx_unicast:'' (trim line);
                               parse_unsigned (2 ^ 64) (trim rest) })
                  (lines s) of
             [] \<Rightarrow> None
           | n # _ \<Rightarrow> Some (of_nat n)))"

definition rx_hw :: "(string \<Rightarrow> string option) \<Rightarrow> string list \<Rightarrow> u64 option" where
  "rx_hw ethtool ifs =
     (if ifs = [] then None
      else let vs = List.map_filter (\<lambda>i. nic_rx_unicast (ethtool i)) ifs
           in if vs = [] then None else Some (sum_list vs))"

record ramp_obs =
  stop_warmup :: bool
  sent_w0 :: u64
  ethtool0 :: "string \<Rightarrow> string option"
  stop_window :: bool
  obs_p50 :: u64
  sent_w1 :: u64
  ethtool1 :: "string \<Rightarrow> string option"

record ramp_task =
  rt_ctrl :: ramp_controller
  best_ok_served :: u64
  peak_served :: u64
  shared_qps :: u64
  ramp_peak :: u64
  rt_shutdown :: bool
  rt_step :: nat

definition ramp_task_new :: "bool \<Rightarrow> u64 \<Rightarrow> ramp_task" where
  "ramp_task_new xdp qps0 =
     \<lparr>rt_ctrl = ramp_new xdp, best_ok_served = 0, peak_served = 0, shared_qps = qps0,
      ramp_peak = 0, rt_shutdown = False, rt_step = 0\<rparr>"

definition per_worker :: "u64 \<Rightarrow> u64 \<Rightarrow> u64" where
  "per_worker qps concurrent = max (qps div max concurrent 1) 1"

text \<open>The priming phase: \<open>True\<close> when a shutdown during it ends the task.\<close>

definition ramp_prime :: "string option \<Rightarrow> u64 \<Rightarrow> bool \<Rightarrow> ramp_task \<Rightarrow> bool \<times> ramp_task" where
  "ramp_prime prime_env concurrent stop t =
     (let prime_s = (case prime_env of
                       None \<Rightarrow> 5
                     | Some v \<Rightarrow> (case parse_unsigned (2 ^ 64) v of None \<Rightarrow> 5 | Some n \<Rightarrow> n))
      in if 0 < prime_s
         then (stop, t\<lparr>shared_qps := per_worker (current_qps (rt_ctrl t)) concurrent\<rparr>)
         else (False, t))"

definition served_rate :: "u64 option \<Rightarrow> u64 option \<Rightarrow> u64 \<Rightarrow> u64" where
  "served_rate rx0 rx1 sent_w =
     (case (rx0, rx1) of
        (Some a, Some b) \<Rightarrow> if a \<le> b then (b - a) div 4 else sent_w div 4
      | _ \<Rightarrow> sent_w div 4)"

definition obs_served :: "string list \<Rightarrow> ramp_obs \<Rightarrow> u64" where
  "obs_served ifs obs =
     served_rate (rx_hw (ethtool0 obs) ifs) (rx_hw (ethtool1 obs) ifs)
       (sat_sub (sent_w1 obs) (sent_w0 obs))"

definition ramp_iter ::
  "string list \<Rightarrow> u64 \<Rightarrow> (nat \<Rightarrow> u64 \<Rightarrow> ramp_obs) \<Rightarrow> ramp_task \<Rightarrow> bool \<times> ramp_task" where
  "ramp_iter ifs concurrent env t =
     (let c = rt_ctrl t;
          t1 = t\<lparr>shared_qps := per_worker (current_qps c) concurrent\<rparr>;
          obs = env (rt_step t) (current_qps c)
      in if stop_warmup obs then (True, t1)
         else if stop_window obs then (True, t1)
         else
           let served = obs_served ifs obs;
               peak = max (peak_served t1) served
           in (case advance c served (obs_p50 obs) of
                 ((new_qps, saturated, max_sustainable), c') \<Rightarrow>
                   let best = (if obs_p50 obs \<le> threshold_us c'
                               then max (best_ok_served t1) served else best_ok_served t1);
                       t2 = t1\<lparr>rt_ctrl := c', peak_served := peak, best_ok_served := best,
                              rt_step := rt_step t1 + 1\<rparr>
                   in if saturated then (True, t2\<lparr>ramp_peak := peak, rt_shutdown := True\<rparr>)
                      else (False, t2\<lparr>shared_qps := per_worker new_qps concurrent\<rparr>)))"

definition ramp_loop ::
  "string list \<Rightarrow> u64 \<Rightarrow> (nat \<Rightarrow> u64 \<Rightarrow> ramp_obs) \<Rightarrow> nat \<Rightarrow> ramp_task \<Rightarrow> ramp_task option" where
  "ramp_loop ifs concurrent env fuel t = run_loop (ramp_iter ifs concurrent env) fuel t"

section \<open>The controller's invariant\<close>

text \<open>
  While the ramp runs, the targets are \<open>START_QPS * 2 ^ d\<close> after \<open>d\<close> doublings, and the
  bracket of the bisection starts as the last doubling interval and is halved exactly by every
  step: \<open>START_QPS\<close> is \<open>3125 * 2 ^ 5\<close>, so five halvings leave no remainder.
\<close>

definition stable_base :: "nat \<Rightarrow> nat" where
  "stable_base d = (if d = 0 then 0 else 100000 * 2 ^ (d - 1))"

definition bracket_width :: "nat \<Rightarrow> nat \<Rightarrow> nat" where
  "bracket_width d n = 3125 * 2 ^ ((if d = 0 then 5 else 4 + d) - n)"

definition ramp_wf :: "ramp_controller \<Rightarrow> bool" where
  "ramp_wf c =
     (let d = unat (doublings c); n = unat (bisect_steps c)
      in d < 20 \<and> unat (last_stable_qps c) = stable_base d \<and>
         (case ctl_phase c of
            Exp \<Rightarrow> n = 0 \<and> unat (current_qps c) = 100000 * 2 ^ d \<and> ctl_lo c = 0 \<and> ctl_hi c = 0
          | Bisect \<Rightarrow> n < 5 \<and> stable_base d \<le> unat (ctl_lo c) \<and>
              unat (ctl_hi c) = unat (ctl_lo c) + bracket_width d n \<and>
              unat (ctl_hi c) \<le> 100000 * 2 ^ d \<and>
              unat (current_qps c) = unat (ctl_lo c) + bracket_width d (Suc n)))"

definition ramp_bound :: "ramp_controller \<Rightarrow> nat" where
  "ramp_bound c =
     (case ctl_phase c of Exp \<Rightarrow> 24 - unat (doublings c) | Bisect \<Rightarrow> 4 - unat (bisect_steps c))"

definition ramp_final :: "ramp_controller \<Rightarrow> bool" where
  "ramp_final c =
     (case ctl_phase c of
        Exp \<Rightarrow> unat (doublings c) = 20 \<and> current_qps c = 52428800000 \<and>
               last_stable_qps c = current_qps c \<and> bracket c = (0, 0)
      | Bisect \<Rightarrow> converged c \<and> unat (bisect_steps c) \<le> 5 \<and> ctl_lo c < ctl_hi c \<and>
                  unat (ctl_hi c) \<le> 100000 * 2 ^ unat (doublings c) \<and> unat (doublings c) < 20)"

lemma bracket_width_Suc: "n < 5 \<Longrightarrow> bracket_width d n = 2 * bracket_width d (Suc n)"
proof -
  assume "n < 5"
  then have "(if d = 0 then 5 else 4 + d) - n = Suc ((if d = 0 then 5 else 4 + d) - Suc n)"
    by (cases d) auto
  then show ?thesis by (simp add: bracket_width_def)
qed

lemma bracket_width_0: "100000 * 2 ^ d = stable_base d + bracket_width d 0"
  by (cases d) (auto simp: stable_base_def bracket_width_def power_add)

lemma bracket_width_5: "bracket_width d 5 \<le> max (stable_base d div 20) 5000"
proof (cases d)
  case (Suc e)
  have "20 * (3125 * 2 ^ e) \<le> 100000 * (2::nat) ^ e" by simp
  then show ?thesis using Suc by (simp add: bracket_width_def stable_base_def)
qed (simp add: bracket_width_def)

lemma bracket_width_init: "max (stable_base d div 20) 5000 < bracket_width d 0"
proof (cases d)
  case (Suc e)
  have "1 \<le> (2::nat) ^ e" by simp
  then show ?thesis using Suc by (simp add: bracket_width_def stable_base_def power_add)
qed (simp add: bracket_width_def stable_base_def)

lemma target_bound: "d < 20 \<Longrightarrow> 100000 * 2 ^ d \<le> (52428800000 :: nat)"
  using power_increasing [of d 19 "2::nat"] by simp

lemma bracket_width_pos [simp]: "0 < bracket_width d n"
  by (simp add: bracket_width_def)

lemma converged_iff:
  assumes "unat (ctl_hi c) = unat (ctl_lo c) + w"
  shows "converged c \<longleftrightarrow> w \<le> max (unat (ctl_lo c) div 20) 5000"
proof -
  have "unat (sat_sub (ctl_hi c) (ctl_lo c)) = w" using assms by (simp add: unat_sat_sub)
  then show ?thesis
    by (simp add: converged_def word_le_nat_alt max_def unat_div)
qed

lemma unat_midpoint:
  assumes "unat (ctl_hi c) = unat (ctl_lo c) + 2 * w"
  shows "unat (midpoint c) = unat (ctl_lo c) + w"
proof -
  have "unat (ctl_hi c - ctl_lo c) = 2 * w" using assms by (simp add: unat_sub_if')
  then have "unat ((ctl_hi c - ctl_lo c) div 2) = w" by (simp add: unat_div)
  moreover have "unat (ctl_lo c) + w < 2 ^ 64"
    using assms unat_u64_less [of "ctl_hi c"] by simp
  ultimately show ?thesis by (simp add: midpoint_def unat_word_ariths)
qed

definition step_fine :: "ramp_controller \<Rightarrow> (u64 \<times> bool \<times> u64) \<times> ramp_controller \<Rightarrow> bool" where
  "step_fine c r =
     (case r of ((q, saturated, m), c') \<Rightarrow>
        if saturated then ramp_final c' \<and> q = max m 1
        else ramp_wf c' \<and> ramp_bound c' < ramp_bound c \<and> q = current_qps c')"

lemma unat_Suc_u32: "unat (x :: u32) < 100 \<Longrightarrow> unat (x + 1) = Suc (unat x)"
  by (simp add: unat_word_ariths)

lemma advance_exp_ok:
  assumes "ramp_wf c" and "ctl_phase c = Exp"
  shows "step_fine c (advance_exp True c)"
proof -
  let ?d = "unat (doublings c)"
  from assms have d: "?d < 20" and q: "unat (current_qps c) = 100000 * 2 ^ ?d"
    and n: "unat (bisect_steps c) = 0" and b: "ctl_lo c = 0" "ctl_hi c = 0"
    by (simp_all add: ramp_wf_def Let_def)
  have sd: "unat (doublings c + 1) = Suc ?d" using d by (intro unat_Suc_u32) simp
  show ?thesis
  proof (cases "?d = 19")
    case True
    have m: "MAX_DOUBLINGS \<le> doublings c + 1"
      using sd True by (simp add: word_le_nat_alt MAX_DOUBLINGS_def)
    have "unat (current_qps c) = unat (52428800000 :: u64)" using q True by simp
    then have "current_qps c = 52428800000" by (rule word_unat_eq_iff [THEN iffD2])
    with m show ?thesis using assms sd True b
      by (simp add: advance_exp_def step_fine_def ramp_final_def bracket_def max_def
          word_le_nat_alt)
  next
    case False
    then have d19: "?d < 19" using d by simp
    have m: "\<not> MAX_DOUBLINGS \<le> doublings c + 1"
      using sd d19 by (simp add: word_le_nat_alt MAX_DOUBLINGS_def)
    have "unat (current_qps c) * 2 < 2 ^ 64" using q target_bound [of ?d] d by simp
    then have "unat (sat_mul (current_qps c) 2) = 100000 * 2 ^ Suc ?d"
      using unat_sat_mul [of "current_qps c" 2] q by simp
    with m show ?thesis using assms sd d19 b n q
      by (simp add: advance_exp_def step_fine_def ramp_wf_def ramp_bound_def stable_base_def Let_def)
  qed
qed

lemma advance_exp_fail:
  assumes "ramp_wf c" and "ctl_phase c = Exp"
  shows "step_fine c (advance_exp False c)"
proof -
  let ?d = "unat (doublings c)"
  let ?c = "c\<lparr>ctl_lo := last_stable_qps c, ctl_hi := current_qps c, ctl_phase := Bisect\<rparr>"
  from assms have d: "?d < 20" and q: "unat (current_qps c) = 100000 * 2 ^ ?d"
    and n: "unat (bisect_steps c) = 0" and l: "unat (last_stable_qps c) = stable_base ?d"
    by (simp_all add: ramp_wf_def Let_def)
  have w: "unat (ctl_hi ?c) = unat (ctl_lo ?c) + bracket_width ?d 0"
    using q l bracket_width_0 [of ?d] by simp
  have nc: "\<not> converged ?c" using converged_iff [OF w] l bracket_width_init [of ?d] by simp
  have "unat (midpoint ?c) = unat (ctl_lo ?c) + bracket_width ?d 1"
    using w bracket_width_Suc [of 0 ?d] by (intro unat_midpoint) simp
  with nc w show ?thesis using assms d n l q
    by (simp add: advance_exp_def step_fine_def ramp_wf_def ramp_bound_def Let_def)
qed

lemma advance_bisect_fine:
  assumes "ramp_wf c" and "ctl_phase c = Bisect"
  shows "step_fine c (advance_bisect ok c)"
proof -
  let ?d = "unat (doublings c)" and ?n = "unat (bisect_steps c)"
  let ?c1 = "if ok then c\<lparr>ctl_lo := current_qps c\<rparr> else c\<lparr>ctl_hi := current_qps c\<rparr>"
  define c2 where "c2 = ?c1\<lparr>bisect_steps := bisect_steps ?c1 + 1\<rparr>"
  from assms have d: "?d < 20" and n: "?n < 5" and b: "stable_base ?d \<le> unat (ctl_lo c)"
    and h: "unat (ctl_hi c) = unat (ctl_lo c) + bracket_width ?d ?n" "unat (ctl_hi c) \<le> 100000 * 2 ^ ?d"
    and q: "unat (current_qps c) = unat (ctl_lo c) + bracket_width ?d (Suc ?n)"
    and l: "unat (last_stable_qps c) = stable_base ?d"
    by (simp_all add: ramp_wf_def Let_def)
  have s: "unat (bisect_steps c2) = Suc ?n" using n by (simp add: c2_def unat_Suc_u32)
  have same: "doublings c2 = doublings c" "ctl_phase c2 = Bisect"
    "last_stable_qps c2 = last_stable_qps c"
    using assms(2) by (simp_all add: c2_def)
  have w: "unat (ctl_hi c2) = unat (ctl_lo c2) + bracket_width ?d (Suc ?n)"
    using h(1) q bracket_width_Suc [OF n, of ?d] by (simp add: c2_def)
  have lo: "stable_base ?d \<le> unat (ctl_lo c2)" using b q by (simp add: c2_def)
  have hi: "unat (ctl_hi c2) \<le> 100000 * 2 ^ ?d"
    using h q bracket_width_Suc [OF n, of ?d] by (simp add: c2_def)
  have lt: "ctl_lo c2 < ctl_hi c2" using w by (simp add: word_less_nat_alt)
  have bs: "bisect_steps c2 = bisect_steps c + 1" by (simp add: c2_def)
  have steps: "\<not> MAX_BISECT \<le> bisect_steps c + 1"
    using s n bs by (simp add: word_le_nat_alt MAX_BISECT_def)
  have conv: "?n = 4 \<Longrightarrow> converged c2"
    using converged_iff [OF w] bracket_width_5 [of ?d] lo
    by (simp add: max_def split: if_splits)
  show ?thesis
  proof (cases "converged c2")
    case True
    then show ?thesis using s n hi lt d same
      by (simp add: advance_bisect_def step_fine_def ramp_final_def c2_def [symmetric] Let_def)
  next
    case False
    then have n4: "Suc ?n < 5" using conv n by linarith
    have "unat (midpoint c2) = unat (ctl_lo c2) + bracket_width ?d (Suc (Suc ?n))"
      using w bracket_width_Suc [OF n4, of ?d] by (intro unat_midpoint) simp
    with False steps show ?thesis using assms(2) s n4 hi lo w l d same bs
      by (simp add: advance_bisect_def step_fine_def ramp_wf_def ramp_bound_def c2_def [symmetric]
          Let_def)
  qed
qed

lemma ramp_wf_note_baseline [simp]:
  "ramp_wf (note_baseline p50 c) = ramp_wf c" "ramp_bound (note_baseline p50 c) = ramp_bound c"
  "ctl_phase (note_baseline p50 c) = ctl_phase c" "current_qps (note_baseline p50 c) = current_qps c"
  "use_xdp (note_baseline p50 c) = use_xdp c"
  by (simp_all add: note_baseline_def ramp_wf_def ramp_bound_def Let_def split: phase.splits)

lemma step_fine_note_baseline [simp]: "step_fine (note_baseline p50 c) r = step_fine c r"
  by (simp add: step_fine_def)

lemma advance_exp_fine: "ramp_wf c \<Longrightarrow> ctl_phase c = Exp \<Longrightarrow> step_fine c (advance_exp ok c)"
  by (cases ok) (simp_all add: advance_exp_ok advance_exp_fail)

lemma advance_fine: "ramp_wf c \<Longrightarrow> step_fine c (advance c achieved p50)"
  using advance_exp_fine [of "note_baseline p50 c"] advance_bisect_fine [of "note_baseline p50 c"]
  by (cases "ctl_phase c") (simp_all add: advance_def Let_def)

lemma ramp_wf_new [simp]: "ramp_wf (ramp_new xdp)"
  by (simp add: ramp_wf_def ramp_new_def START_QPS_def stable_base_def)

section \<open>The task terminates\<close>

lemma advance_cases:
  assumes "ramp_wf c"
  obtains q m c' where "advance c achieved p50 = ((q, True, m), c')" "ramp_final c'" "q = max m 1"
  | c' m where "advance c achieved p50 = ((current_qps c', False, m), c')" "ramp_wf c'"
      "ramp_bound c' < ramp_bound c"
proof -
  obtain q sat m c' where r: "advance c achieved p50 = ((q, sat, m), c')"
    by (metis surj_pair)
  show thesis
    using advance_fine [OF assms, of achieved p50] r that by (cases sat) (auto simp: step_fine_def)
qed

definition task_wf :: "ramp_task \<Rightarrow> bool" where
  "task_wf t \<longleftrightarrow> ramp_wf (rt_ctrl t) \<and> \<not> rt_shutdown t"

interpretation ramp_task_loop: bounded_loop "ramp_iter ifs concurrent env" task_wf
  "\<lambda>t. ramp_bound (rt_ctrl t)"
  for ifs concurrent env
proof unfold_locales
  fix s s'
  assume wf: "task_wf s" and it: "ramp_iter ifs concurrent env s = (False, s')"
  define o1 where "o1 = env (rt_step s) (current_qps (rt_ctrl s))"
  from wf have "ramp_wf (rt_ctrl s)" by (simp add: task_wf_def)
  then show "task_wf s' \<and> ramp_bound (rt_ctrl s') < ramp_bound (rt_ctrl s)"
    by (rule advance_cases [of _ "obs_served ifs o1" "obs_p50 o1"])
      (use it wf in \<open>auto simp: ramp_iter_def Let_def o1_def [symmetric]
        task_wf_def split: if_splits\<close>)
qed

lemma task_wf_new [simp]: "task_wf (ramp_task_new xdp q)"
  by (simp add: task_wf_def ramp_task_new_def)

lemma ramp_bound_new [simp]: "ramp_bound (rt_ctrl (ramp_task_new xdp q)) = 24"
  by (simp add: ramp_bound_def ramp_task_new_def ramp_new_def)

section \<open>The two gates, as integers\<close>

lemma floor_mult_three: "\<lfloor>of_nat b * 3 :: rat\<rfloor> = 3 * int b"
  by (rule floor_unique) simp_all

lemma fl_three: "fl 3 = 3"
  using fl_nat [of 3] by simp

lemma threshold_exact:
  assumes "unat b < 2 ^ 50" and "b = max (baseline_us c) 1"
  shows "unat (threshold_us c) = max (3 * unat b) (unat b + 1000)"
proof -
  have "fl64 (of_nat (unat b) * 3) = Fin (of_nat (3 * unat b))"
    using fl64_nat [of "3 * unat b"] assms(1) by (simp add: mult.commute)
  then have "f_mul (f_of_u64 b) SLO_FACTOR = Fin (of_nat (3 * unat b))"
    using assms(1) fl64_nat [of "unat b"] fl64_nat [of 3]
    by (simp add: SLO_FACTOR_def f_lit_def f_of_u64_def)
  then have "f_to_u64 (f_mul (f_of_u64 b) SLO_FACTOR) = of_nat (3 * unat b)"
    using assms(1) by (simp add: f_to_u64_def del: of_nat_mult)
  moreover have "unat (of_nat (3 * unat b) :: u64) = 3 * unat b"
    using assms(1) by (simp add: unat_of_nat del: of_nat_mult)
  moreover have "unat (b + SLO_MARGIN_US) = unat b + 1000"
    using assms(1) by (simp add: SLO_MARGIN_US_def unat_word_ariths)
  moreover have "threshold_us c =
      max (f_to_u64 (f_mul (f_of_u64 b) SLO_FACTOR)) (b + SLO_MARGIN_US)"
    by (simp only: threshold_us_def assms(2) Let_def)
  ultimately show ?thesis by (simp add: max_def word_le_nat_alt del: of_nat_mult)
qed

lemma fl_four_fifths: "fl (80 / 100) = 3602879701896397 / 4503599627370496"
proof -
  have "\<lceil>5 / 4 :: rat\<rceil> = 2" by (rule ceiling_unique) simp_all
  then have "ilog2 (4 / 5) = - 1" by (simp add: ilog2_def floorlog_def)
  then have g: "grid (4 / 5) = - 53" by (simp add: grid_def)
  have "\<lfloor>36028797018963968 / 5 :: rat\<rfloor> = 7205759403792793" by (rule floor_unique) simp_all
  then have "rne (36028797018963968 / 5) = 7205759403792794"
    by (simp add: rne_def Let_def)
  then show ?thesis by (simp add: fl_def fl_pos_def g pow2_def)
qed

lemma offer_floor_exact:
  assumes "unat t < 2 ^ 49"
  shows "unat (offer_floor t) = 4 * unat t div 5"
proof -
  let ?n = "4 * unat t div 5" and ?q = "of_nat (unat t) * (3602879701896397 / 4503599627370496) :: rat"
  have lit: "fl64 (80 / 100) = Fin (3602879701896397 / 4503599627370496)"
    by (subst fl64_small) (simp_all only: fl_four_fifths, simp)
  have "5 * ?n \<le> 4 * unat t" by simp
  then have "(of_nat (5 * ?n) :: rat) \<le> of_nat (4 * unat t)" by (simp only: of_nat_le_iff)
  then have n1: "5 * of_nat ?n \<le> (4 * of_nat (unat t) :: rat)" by simp
  have "4 * unat t \<le> 5 * ?n + 4" by linarith
  then have "(of_nat (4 * unat t) :: rat) \<le> of_nat (5 * ?n + 4)" by (simp only: of_nat_le_iff)
  then have n2: "(4 * of_nat (unat t) :: rat) \<le> 5 * of_nat ?n + 4" by simp
  have t: "(of_nat (unat t) :: rat) \<le> of_nat (2 ^ 49)" using assms by (simp only: of_nat_le_iff)
  have lo: "of_nat ?n \<le> ?q" using n1 by simp
  have hi: "?q \<le> of_nat ?n + 7 / 8" using n2 t by simp
  have fl: "\<lfloor>fl ?q\<rfloor> = int ?n" using assms lo hi by (intro floor_fl_eqI) simp_all
  have "0 \<le> fl ?q" using fl by linarith
  moreover have "fl ?q < 2 ^ 49 + 1"
  proof -
    have "fl ?q < of_int (int ?n + 1)" using fl by linarith
    also have "\<dots> \<le> of_nat (2 ^ 49 + 1)" using assms by (simp del: of_nat_power)
    finally show ?thesis by simp
  qed
  ultimately have "\<bar>fl ?q\<bar> < 2 ^ 1024" by simp
  then have "f_mul (f_of_u64 t) (f_lit (80 / 100)) = Fin (fl ?q)"
    using assms fl64_nat [of "unat t"] fl64_small [of ?q] lit by (simp add: f_of_u64_def f_lit_def)
  then have "offer_floor t = of_nat ?n" using assms fl
    by (simp add: offer_floor_def f_to_u64_def min_def)
  then show ?thesis using assms by (simp add: unat_of_nat)
qed

section \<open>The bracket contains the knee\<close>

definition knee_inside :: "nat \<Rightarrow> ramp_controller \<Rightarrow> bool" where
  "knee_inside K c =
     (case ctl_phase c of
        Exp \<Rightarrow> unat (last_stable_qps c) \<le> K
      | Bisect \<Rightarrow> unat (ctl_lo c) \<le> K \<and> K < unat (ctl_hi c))"

lemma knee_inside_note_baseline [simp]: "knee_inside K (note_baseline p50 c) = knee_inside K c"
  by (simp add: knee_inside_def note_baseline_def split: phase.splits)

lemma advance_knee:
  assumes "knee_inside K c"
    and "step_ok (note_baseline p50 c) achieved p50 \<longleftrightarrow> unat (current_qps c) \<le> K"
  shows "knee_inside K (snd (advance c achieved p50))"
proof -
  let ?c = "note_baseline p50 c"
  have k: "knee_inside K ?c" using assms(1) by simp
  have "knee_inside K (snd (advance_exp ok ?c))"
    if "ctl_phase c = Exp" "ok \<longleftrightarrow> unat (current_qps ?c) \<le> K" for ok
    using that k by (auto simp: advance_exp_def knee_inside_def Let_def)
  moreover have "knee_inside K (snd (advance_bisect ok ?c))"
    if "ctl_phase c = Bisect" "ok \<longleftrightarrow> unat (current_qps ?c) \<le> K" for ok
    using that k by (auto simp: advance_bisect_def knee_inside_def Let_def)
  ultimately show ?thesis using assms(2)
    by (cases "ctl_phase c") (simp_all add: advance_def Let_def)
qed

lemma advance_keeps:
  "baseline_us (snd (advance c achieved p50)) = baseline_us (note_baseline p50 c)"
  "use_xdp (snd (advance c achieved p50)) = use_xdp c"
  by (auto simp: advance_def advance_exp_def advance_bisect_def Let_def note_baseline_def
      split: phase.splits)

lemma ramp_iter_cases:
  assumes "task_wf t" and "\<not> stop_warmup o1" and "\<not> stop_window o1"
    and o: "o1 = env (rt_step t) (current_qps (rt_ctrl t))"
  obtains (final) t' where "ramp_iter ifs concurrent env t = (True, t')" "ramp_final (rt_ctrl t')"
      "rt_ctrl t' = snd (advance (rt_ctrl t) (obs_served ifs o1) (obs_p50 o1))" "rt_shutdown t'"
      "ramp_peak t' = max (peak_served t) (obs_served ifs o1)"
  | (again) t' where "ramp_iter ifs concurrent env t = (False, t')" "task_wf t'"
      "rt_ctrl t' = snd (advance (rt_ctrl t) (obs_served ifs o1) (obs_p50 o1))"
      "peak_served t' = max (peak_served t) (obs_served ifs o1)"
proof -
  have "ramp_wf (rt_ctrl t)" using assms(1) by (simp add: task_wf_def)
  then show thesis
  proof (rule advance_cases [of _ "obs_served ifs o1" "obs_p50 o1"])
    fix q m c'
    assume "advance (rt_ctrl t) (obs_served ifs o1) (obs_p50 o1) = ((q, True, m), c')" "ramp_final c'"
    then show thesis using assms
      by (intro final [of "snd (ramp_iter ifs concurrent env t)"])
        (simp_all add: ramp_iter_def Let_def)
  next
    fix c' m
    assume "advance (rt_ctrl t) (obs_served ifs o1) (obs_p50 o1) = ((current_qps c', False, m), c')"
      "ramp_wf c'"
    then show thesis using assms
      by (intro again [of "snd (ramp_iter ifs concurrent env t)"])
        (simp_all add: ramp_iter_def Let_def task_wf_def)
  qed
qed

lemma ramp_knee:
  assumes "task_wf t" and "S (rt_ctrl t)" and "knee_inside K (rt_ctrl t)"
    and ns: "\<And>n q. \<not> stop_warmup (env n q) \<and> \<not> stop_window (env n q)"
    and V: "\<And>c n a p. ramp_wf c \<Longrightarrow> S c \<Longrightarrow> a = obs_served ifs (env n (current_qps c)) \<Longrightarrow>
      p = obs_p50 (env n (current_qps c)) \<Longrightarrow>
      (step_ok (note_baseline p c) a p \<longleftrightarrow> unat (current_qps c) \<le> K) \<and> S (snd (advance c a p))"
    and "run_loop (ramp_iter ifs concurrent env) n t = Some t'"
  shows "ramp_final (rt_ctrl t') \<and> knee_inside K (rt_ctrl t')"
  using assms(1-3,6)
proof (induction n arbitrary: t)
  case (Suc n)
  define o1 where "o1 = env (rt_step t) (current_qps (rt_ctrl t))"
  let ?c = "snd (advance (rt_ctrl t) (obs_served ifs o1) (obs_p50 o1))"
  have wf: "ramp_wf (rt_ctrl t)" using Suc.prems(1) by (simp add: task_wf_def)
  have v: "(step_ok (note_baseline (obs_p50 o1) (rt_ctrl t)) (obs_served ifs o1) (obs_p50 o1)
      \<longleftrightarrow> unat (current_qps (rt_ctrl t)) \<le> K) \<and> S ?c"
    by (rule V [OF wf Suc.prems(2)]) (simp_all add: o1_def)
  have k: "knee_inside K ?c" using v Suc.prems(3) by (intro advance_knee) simp_all
  show ?case
  proof (rule ramp_iter_cases [of t o1 env ifs concurrent])
    fix u
    assume "ramp_iter ifs concurrent env t = (True, u)" "ramp_final (rt_ctrl u)" "rt_ctrl u = ?c"
    then show ?thesis using Suc.prems(4) k by simp
  next
    fix u
    assume u: "ramp_iter ifs concurrent env t = (False, u)" "task_wf u" "rt_ctrl u = ?c"
    then show ?thesis using Suc.IH [of u] Suc.prems(4) k v by simp
  qed (use Suc.prems(1) ns in \<open>auto simp: o1_def\<close>)
qed simp

lemma knee_tolerance:
  assumes "ramp_final c" and "knee_inside K c" and "K < 52428800000"
  shows "unat (fst (bracket c)) \<le> K \<and> K < unat (snd (bracket c)) \<and>
    unat (snd (bracket c)) - unat (fst (bracket c)) \<le> max (unat (fst (bracket c)) div 20) 5000"
proof (cases "ctl_phase c")
  case Exp
  then show ?thesis using assms by (simp add: ramp_final_def knee_inside_def)
next
  case Bisect
  then have c: "converged c" "unat (ctl_lo c) \<le> K" "K < unat (ctl_hi c)"
    using assms by (simp_all add: ramp_final_def knee_inside_def)
  then have "unat (ctl_hi c) = unat (ctl_lo c) + (unat (ctl_hi c) - unat (ctl_lo c))" by simp
  from converged_iff [OF this] c show ?thesis by (simp add: bracket_def)
qed

lemma ramp_wf_target: "ramp_wf c \<Longrightarrow> unat (current_qps c) \<le> 52428800000"
  using target_bound [of "unat (doublings c)"] bracket_width_Suc [of "unat (bisect_steps c)"]
  by (cases "ctl_phase c") (fastforce simp: ramp_wf_def Let_def)+

lemma offer_floor_le: "ramp_wf c \<Longrightarrow> offer_floor (current_qps c) \<le> current_qps c"
  using ramp_wf_target [of c] offer_floor_exact [of "current_qps c"] by (simp add: word_le_nat_alt)

lemma ramp_task_returns: "\<exists>t. ramp_loop ifs concurrent env 25 (ramp_task_new xdp q0) = Some t"
  unfolding ramp_loop_def by (rule ramp_task_loop.terminates) simp_all

section \<open>Properties\<close>

text \<open>C18: Whatever the counters, the latencies and the shutdown flag do, the ramp task ends
  within 25 iterations of its loop (20 doublings and 5 bisection steps at most).\<close>

theorem ramp_terminates:
  "\<exists>t. ramp_loop ifs concurrent env 25 (ramp_task_new xdp q0) = Some t"
  by (rule ramp_task_returns)

text \<open>C19: A ramp that is not interrupted ends with the shutdown flag set and the peak exported,
  and for every behaviour of the server the result is either a bisection bracket
  within the tolerance (5 percent of the lower bound, or 5000 q/s), reached in at most 5 bisection steps (so
  never by the cap of 14), or the doubling cap with the empty bracket.\<close>

theorem ramp_result_within_tolerance:
  assumes "\<forall>n q. \<not> stop_warmup (env n q) \<and> \<not> stop_window (env n q)"
  shows "\<exists>t. ramp_loop ifs concurrent env 25 (ramp_task_new xdp q0) = Some t \<and> rt_shutdown t \<and>
    ramp_peak t = peak_served t \<and>
    (case bracket (rt_ctrl t) of (lo, hi) \<Rightarrow>
       lo < hi \<and> unat hi - unat lo \<le> max (unat lo div 20) 5000 \<and> bisect_steps (rt_ctrl t) \<le> 5 \<or>
       lo = 0 \<and> hi = 0 \<and> doublings (rt_ctrl t) = MAX_DOUBLINGS)"
proof -
  obtain t where t: "ramp_loop ifs concurrent env 25 (ramp_task_new xdp q0) = Some t"
    using ramp_task_returns by blast
  then obtain s where s: "task_wf s" "ramp_iter ifs concurrent env s = (True, t)"
    using ramp_task_loop.last_iteration [of "ramp_task_new xdp q0"] unfolding ramp_loop_def by fastforce
  from s(1) have "ramp_wf (rt_ctrl s)" by (simp add: task_wf_def)
  then have fin: "ramp_final (rt_ctrl t) \<and> rt_shutdown t \<and> ramp_peak t = peak_served t"
    by (rule advance_cases [of _ "obs_served ifs (env (rt_step s) (current_qps (rt_ctrl s)))"
          "obs_p50 (env (rt_step s) (current_qps (rt_ctrl s)))"])
      (use s assms in \<open>auto simp: ramp_iter_def Let_def\<close>)
  have "ctl_lo c < ctl_hi c \<Longrightarrow> converged c \<Longrightarrow>
      unat (ctl_hi c) - unat (ctl_lo c) \<le> max (unat (ctl_lo c) div 20) 5000" for c
    using converged_iff [of c "unat (ctl_hi c) - unat (ctl_lo c)"] by (simp add: word_less_nat_alt)
  then show ?thesis using t fin
    by (cases "ctl_phase (rt_ctrl t)")
      (auto simp: ramp_final_def bracket_def MAX_DOUBLINGS_def word_le_nat_alt word_unat_eq_iff)
qed

definition flat_env :: "nat \<Rightarrow> u64 \<Rightarrow> ramp_obs" where
  "flat_env n q =
     \<lparr>stop_warmup = False, sent_w0 = 0, ethtool0 = (\<lambda>i. None), stop_window = False,
      obs_p50 = 40, sent_w1 = 4 * q, ethtool1 = (\<lambda>i. None)\<rparr>"

theorem ramp_result_within_tolerance_witness:
  "\<exists>t. ramp_loop [] 4 flat_env 25 (ramp_task_new False 0) = Some t \<and> rt_shutdown t"
proof -
  have "\<forall>n q. \<not> stop_warmup (flat_env n q) \<and> \<not> stop_window (flat_env n q)"
    by (simp add: flat_env_def)
  from ramp_result_within_tolerance [OF this, of "[]" 4 False 0] show ?thesis by blast
qed

text \<open>C1: Latency knee. If every target up to \<open>K\<close> is served with the median latency \<open>f\<close> and
  every target above it with a median above the SLO derived from \<open>f\<close>, then in both modes the
  final bracket contains \<open>K\<close> and is within tolerance.\<close>

theorem ramp_finds_latency_knee:
  assumes ns: "\<forall>n q. \<not> stop_warmup (env n q) \<and> \<not> stop_window (env n q)"
    and env: "\<forall>n q. unat q \<le> 52428800000 \<longrightarrow>
      obs_served ifs (env n q) = q \<and> obs_p50 (env n q) = (if unat q \<le> K then f else s)"
    and K: "100000 \<le> K" "K < 52428800000"
    and f: "0 < f" "unat f < 2 ^ 50" and s: "max (3 * unat f) (unat f + 1000) < unat s"
  shows "\<exists>t. ramp_loop ifs concurrent env 25 (ramp_task_new xdp q0) = Some t \<and>
    (case bracket (rt_ctrl t) of (lo, hi) \<Rightarrow>
       unat lo \<le> K \<and> K < unat hi \<and> unat hi - unat lo \<le> max (unat lo div 20) 5000)"
proof -
  obtain t where t: "ramp_loop ifs concurrent env 25 (ramp_task_new xdp q0) = Some t"
    using ramp_task_returns by blast
  define S where "S c \<longleftrightarrow> baseline_us c = f \<or> baseline_us c = 0 \<and> unat (current_qps c) \<le> K"
    for c :: ramp_controller
  have fs: "f < s" using s by (simp add: word_less_nat_alt)
  have f1: "max f 1 = f" using f(1)
    by (simp add: max_def word_le_nat_alt word_less_nat_alt word_unat_eq_iff)
  have "ramp_final (rt_ctrl t) \<and> knee_inside K (rt_ctrl t)"
  proof (rule ramp_knee [where S = S])
    show "S (rt_ctrl (ramp_task_new xdp q0))" "knee_inside K (rt_ctrl (ramp_task_new xdp q0))"
      using K by (simp_all add: S_def ramp_task_new_def ramp_new_def START_QPS_def knee_inside_def)
    show "run_loop (ramp_iter ifs concurrent env) 25 (ramp_task_new xdp q0) = Some t"
      using t by (simp add: ramp_loop_def)
  next
    fix c n a p
    assume c: "ramp_wf c" "S c" and a: "a = obs_served ifs (env n (current_qps c))"
      and p: "p = obs_p50 (env n (current_qps c))"
    have p': "p = (if unat (current_qps c) \<le> K then f else s)" and a': "a = current_qps c"
      using env a p ramp_wf_target [OF c(1)] by simp_all
    have b: "baseline_us (note_baseline p c) = f"
      using c(2) p' fs f(1) by (auto simp: S_def note_baseline_def)
    then have "unat (threshold_us (note_baseline p c)) = max (3 * unat f) (unat f + 1000)"
      using f f1 by (intro threshold_exact) simp_all
    then have "p \<le> threshold_us (note_baseline p c) \<longleftrightarrow> unat (current_qps c) \<le> K"
      using p' s by (auto simp: word_le_nat_alt)
    moreover have "S (snd (advance c a p))" using b by (simp add: S_def advance_keeps)
    ultimately show "(step_ok (note_baseline p c) a p \<longleftrightarrow> unat (current_qps c) \<le> K) \<and>
        S (snd (advance c a p))"
      using offer_floor_le [OF c(1)] a' by (simp add: step_ok_def Let_def)
  qed (use ns in simp_all)
  then show ?thesis using t knee_tolerance [of "rt_ctrl t" K] K(2) by (auto split: prod.splits)
qed

definition knee_env :: "nat \<Rightarrow> u64 \<Rightarrow> u64 \<Rightarrow> nat \<Rightarrow> u64 \<Rightarrow> ramp_obs" where
  "knee_env K f s n q =
     \<lparr>stop_warmup = False, sent_w0 = 0, ethtool0 = (\<lambda>i. None), stop_window = False,
      obs_p50 = (if unat q \<le> K then f else s), sent_w1 = 4 * q, ethtool1 = (\<lambda>i. None)\<rparr>"

lemma served_four:
  assumes "unat q \<le> 52428800000"
  shows "served_rate (rx_hw (\<lambda>i. None) []) rx (sat_sub (4 * q) 0) = q"
proof -
  have "unat (4 * q) = 4 * unat q" using assms by (simp add: unat_word_ariths)
  then have "unat (sat_sub (4 * q) 0 div 4) = unat q" by (simp add: unat_div unat_sat_sub)
  then show ?thesis by (simp add: served_rate_def rx_hw_def word_unat_eq_iff)
qed

theorem ramp_finds_latency_knee_witness:
  "\<exists>t. ramp_loop [] 4 (knee_env 3000000 50 5000) 25 (ramp_task_new False 0) = Some t \<and>
    (case bracket (rt_ctrl t) of (lo, hi) \<Rightarrow>
       unat lo \<le> 3000000 \<and> 3000000 < unat hi \<and> unat hi - unat lo \<le> max (unat lo div 20) 5000)"
  by (rule ramp_finds_latency_knee [where f = 50 and s = 5000])
    (simp_all add: knee_env_def obs_served_def served_four)

text \<open>C20: Throughput ceiling. In kernel mode, when the latency stays at \<open>f\<close> and the datapath
  serves at most \<open>C\<close> queries per second, the final bracket contains \<open>(5 * C + 4) div 4\<close>:
  the 80 percent gate places the knee 25 percent above what is served.\<close>

theorem ramp_finds_served_ceiling:
  assumes ns: "\<forall>n q. \<not> stop_warmup (env n q) \<and> \<not> stop_window (env n q)"
    and env: "\<forall>n q. unat q \<le> 52428800000 \<longrightarrow>
      unat (obs_served ifs (env n q)) = min (unat q) C \<and> obs_p50 (env n q) = f"
    and C: "C < 40000000000" and f: "0 < f" "unat f < 2 ^ 50"
  shows "\<exists>t. ramp_loop ifs concurrent env 25 (ramp_task_new False q0) = Some t \<and>
    (case bracket (rt_ctrl t) of (lo, hi) \<Rightarrow>
       unat lo \<le> (5 * C + 4) div 4 \<and> (5 * C + 4) div 4 < unat hi \<and>
       unat hi - unat lo \<le> max (unat lo div 20) 5000)"
proof -
  obtain t where t: "ramp_loop ifs concurrent env 25 (ramp_task_new False q0) = Some t"
    using ramp_task_returns by blast
  let ?K = "(5 * C + 4) div 4"
  define S where "S c \<longleftrightarrow> (baseline_us c = f \<or> baseline_us c = 0) \<and> \<not> use_xdp c"
    for c :: ramp_controller
  have f1: "max f 1 = f" using f(1)
    by (simp add: max_def word_le_nat_alt word_less_nat_alt word_unat_eq_iff)
  have "ramp_final (rt_ctrl t) \<and> knee_inside ?K (rt_ctrl t)"
  proof (rule ramp_knee [where S = S])
    show "S (rt_ctrl (ramp_task_new False q0))" "knee_inside ?K (rt_ctrl (ramp_task_new False q0))"
      by (simp_all add: S_def ramp_task_new_def ramp_new_def knee_inside_def)
    show "run_loop (ramp_iter ifs concurrent env) 25 (ramp_task_new False q0) = Some t"
      using t by (simp add: ramp_loop_def)
  next
    fix c n a p
    assume c: "ramp_wf c" "S c" and a: "a = obs_served ifs (env n (current_qps c))"
      and p: "p = obs_p50 (env n (current_qps c))"
    have p': "p = f" and a': "unat a = min (unat (current_qps c)) C"
      using env a p ramp_wf_target [OF c(1)] by simp_all
    have b: "baseline_us (note_baseline p c) = f"
      using c(2) p' f(1) by (auto simp: S_def note_baseline_def)
    then have "unat (threshold_us (note_baseline p c)) = max (3 * unat f) (unat f + 1000)"
      using f f1 by (intro threshold_exact) simp_all
    then have "p \<le> threshold_us (note_baseline p c)" using p' by (simp add: word_le_nat_alt)
    moreover have "offer_floor (current_qps c) \<le> a \<longleftrightarrow> unat (current_qps c) \<le> ?K"
    proof -
      have "unat (offer_floor (current_qps c)) = 4 * unat (current_qps c) div 5"
        using ramp_wf_target [OF c(1)] by (intro offer_floor_exact) simp
      then show ?thesis using a' by (simp add: word_le_nat_alt) linarith
    qed
    moreover have "S (snd (advance c a p))" using b c(2) by (simp add: S_def advance_keeps)
    ultimately show "(step_ok (note_baseline p c) a p \<longleftrightarrow> unat (current_qps c) \<le> ?K) \<and>
        S (snd (advance c a p))"
      using c(2) by (simp add: step_ok_def S_def Let_def)
  qed (use ns in simp_all)
  then show ?thesis using t knee_tolerance [of "rt_ctrl t" ?K] C by (auto split: prod.splits)
qed

definition ceiling_env :: "u64 \<Rightarrow> u64 \<Rightarrow> nat \<Rightarrow> u64 \<Rightarrow> ramp_obs" where
  "ceiling_env C f n q =
     \<lparr>stop_warmup = False, sent_w0 = 0, ethtool0 = (\<lambda>i. None), stop_window = False,
      obs_p50 = f, sent_w1 = 4 * min q C, ethtool1 = (\<lambda>i. None)\<rparr>"

theorem ramp_finds_served_ceiling_witness:
  "\<exists>t. ramp_loop [] 4 (ceiling_env 500000 40) 25 (ramp_task_new False 0) = Some t \<and>
    (case bracket (rt_ctrl t) of (lo, hi) \<Rightarrow>
       unat lo \<le> (5 * 500000 + 4) div 4 \<and> (5 * 500000 + 4) div 4 < unat hi \<and>
       unat hi - unat lo \<le> max (unat lo div 20) 5000)"
proof (rule ramp_finds_served_ceiling [where f = 40])
  have "unat (min q 500000) \<le> 52428800000" if "unat q \<le> 52428800000" for q :: u64
    using that by (simp add: min_def)
  then show "\<forall>n q. unat q \<le> 52428800000 \<longrightarrow>
      unat (obs_served [] (ceiling_env 500000 40 n q)) = min (unat q) 500000 \<and>
      obs_p50 (ceiling_env 500000 40 n q) = 40"
    by (simp add: ceiling_env_def obs_served_def served_four min_def word_le_nat_alt)
qed (simp_all add: ceiling_env_def)

text \<open>In XDP mode the offered rate plays no part in the decision: two steps that differ only in
  the achieved rate have the same outcome and the same next state.\<close>

theorem ramp_xdp_latency_only:
  assumes "use_xdp c"
  shows "advance c achieved p50 = advance c achieved' p50"
proof -
  have "step_ok (note_baseline p50 c) achieved p50 = step_ok (note_baseline p50 c) achieved' p50"
    using assms by (simp add: step_ok_def Let_def)
  then show ?thesis unfolding advance_def Let_def by (simp only:)
qed

theorem ramp_xdp_latency_only_witness:
  "advance (ramp_new True) 0 40 = advance (ramp_new True) 100000 40"
  by (rule ramp_xdp_latency_only) (simp add: ramp_new_def)

text \<open>In XDP mode a median latency that does not change is taken as the floor, however high it is
  and however little is served: the ramp climbs to the doubling cap and leaves the empty
  bracket, so a server already saturated at the first step is not recognised.\<close>

theorem ramp_xdp_flat_latency_hits_cap:
  assumes ns: "\<forall>n q. \<not> stop_warmup (env n q) \<and> \<not> stop_window (env n q)"
    and env: "\<forall>n q. obs_p50 (env n q) = f" and f: "0 < f" "unat f < 2 ^ 50"
  shows "\<exists>t. ramp_loop ifs concurrent env 25 (ramp_task_new True q0) = Some t \<and>
    bracket (rt_ctrl t) = (0, 0) \<and> doublings (rt_ctrl t) = MAX_DOUBLINGS \<and>
    current_qps (rt_ctrl t) = 52428800000"
proof -
  obtain t where t: "ramp_loop ifs concurrent env 25 (ramp_task_new True q0) = Some t"
    using ramp_task_returns by blast
  let ?K = "52428800000 :: nat"
  define S where "S c \<longleftrightarrow> (baseline_us c = f \<or> baseline_us c = 0) \<and> use_xdp c"
    for c :: ramp_controller
  have f1: "max f 1 = f" using f(1)
    by (simp add: max_def word_le_nat_alt word_less_nat_alt word_unat_eq_iff)
  have fin: "ramp_final (rt_ctrl t) \<and> knee_inside ?K (rt_ctrl t)"
  proof (rule ramp_knee [where S = S])
    show "S (rt_ctrl (ramp_task_new True q0))" "knee_inside ?K (rt_ctrl (ramp_task_new True q0))"
      by (simp_all add: S_def ramp_task_new_def ramp_new_def knee_inside_def)
    show "run_loop (ramp_iter ifs concurrent env) 25 (ramp_task_new True q0) = Some t"
      using t by (simp add: ramp_loop_def)
  next
    fix c n a p
    assume c: "ramp_wf c" "S c" and "p = obs_p50 (env n (current_qps c))"
    then have p': "p = f" using env by simp
    have b: "baseline_us (note_baseline p c) = f"
      using c(2) p' f(1) by (auto simp: S_def note_baseline_def)
    then have "unat (threshold_us (note_baseline p c)) = max (3 * unat f) (unat f + 1000)"
      using f f1 by (intro threshold_exact) simp_all
    then have "p \<le> threshold_us (note_baseline p c)" using p' by (simp add: word_le_nat_alt)
    then show "(step_ok (note_baseline p c) a p \<longleftrightarrow> unat (current_qps c) \<le> ?K) \<and>
        S (snd (advance c a p))"
      using c b ramp_wf_target [OF c(1)] by (simp add: step_ok_def S_def advance_keeps Let_def)
  qed (use ns in simp_all)
  show ?thesis
  proof (cases "ctl_phase (rt_ctrl t)")
    case Exp
    then show ?thesis using t fin by (simp add: ramp_final_def MAX_DOUBLINGS_def word_unat_eq_iff)
  next
    case Bisect
    then show ?thesis using fin target_bound [of "unat (doublings (rt_ctrl t))"]
      by (simp add: ramp_final_def knee_inside_def)
  qed
qed

theorem ramp_xdp_flat_latency_hits_cap_witness:
  "\<exists>t. ramp_loop [] 4 (ceiling_env 10000 900000) 25 (ramp_task_new True 0) = Some t \<and>
    bracket (rt_ctrl t) = (0, 0) \<and> doublings (rt_ctrl t) = MAX_DOUBLINGS \<and>
    current_qps (rt_ctrl t) = 52428800000"
  by (rule ramp_xdp_flat_latency_hits_cap [where f = 900000]) (simp_all add: ceiling_env_def)

end
