(* ===== verification/Frame.thy ===== *)
theory Frame
  imports Dns_Message
begin

text \<open>
  The AF_XDP frame layer: the Ethernet/802.1Q/IPv4/UDP header template of
  \<^verbatim>\<open>src/transport/xdp/frame.rs\<close> with its incremental IPv4 checksum, the MAC and ARP lookups,
  and the frame parser of \<^verbatim>\<open>src/transport/xdp/receiver.rs\<close>. A write or read out of range is
  \<open>None\<close>; the parser's own result is a second option. The file system (\<^verbatim>\<open>/sys\<close>,
  \<^verbatim>\<open>/proc/net/arp\<close>) and the list of interface addresses are parameters.
\<close>

section \<open>Addresses\<close>

datatype mac = Mac u8 u8 u8 u8 u8 u8

fun mac_bytes :: "mac \<Rightarrow> bytes" where
  "mac_bytes (Mac a b c d e f) = [a, b, c, d, e, f]"

datatype ipv4 = Ipv4 u8 u8 u8 u8

fun octets :: "ipv4 \<Rightarrow> bytes" where
  "octets (Ipv4 a b c d) = [a, b, c, d]"

fun ipv4_to_string :: "ipv4 \<Rightarrow> string" where
  "ipv4_to_string (Ipv4 a b c d) =
     nat_to_string (unat a) @ ''.'' @ nat_to_string (unat b) @ ''.'' @
     nat_to_string (unat c) @ ''.'' @ nat_to_string (unat d)"

section \<open>The header template\<close>

definition ETH_HDR :: nat where "ETH_HDR = 14"
definition IPV4_HDR :: nat where "IPV4_HDR = 20"
definition UDP_HDR :: nat where "UDP_HDR = 8"
definition VLAN_HDR :: nat where "VLAN_HDR = 4"
definition OUTER_HDR :: nat where "OUTER_HDR = ETH_HDR + IPV4_HDR + UDP_HDR"
definition OUTER_HDR_MAX :: nat where "OUTER_HDR_MAX = OUTER_HDR + VLAN_HDR"

lemmas hdr_consts =
  ETH_HDR_def IPV4_HDR_def UDP_HDR_def VLAN_HDR_def OUTER_HDR_def OUTER_HDR_MAX_def

definition vlan_from_env :: "string option \<Rightarrow> u16 option" where
  "vlan_from_env var =
     do { s \<leftarrow> var; n \<leftarrow> parse_unsigned (2 ^ 16) (trim s); if n \<noteq> 0 then Some (of_nat n) else None }"

record frame_header =
  tpl :: bytes
  outer :: nat
  l2 :: nat
  ip_base_sum :: u32

definition be_word :: "nat \<Rightarrow> bytes \<Rightarrow> nat \<Rightarrow> u16" where
  "be_word off buf i = from_be16 (buf ! (off + 2 * i)) (buf ! (off + 2 * i + 1))"

definition sum_words :: "nat \<Rightarrow> nat \<Rightarrow> bytes \<Rightarrow> u32" where
  "sum_words off n buf = foldl (\<lambda>s i. s + ucast (be_word off buf i)) 0 [0..<n]"

definition ip_template :: "nat \<Rightarrow> ipv4 \<Rightarrow> ipv4 \<Rightarrow> u16 \<Rightarrow> u16 \<Rightarrow> bytes \<Rightarrow> bytes option" where
  "ip_template off src_ip dst_ip src_port dst_port t =
     do {
       t \<leftarrow> set_at off 0x45 t;
       t \<leftarrow> set_at (off + 6) 0x40 t;
       t \<leftarrow> set_at (off + 8) 64 t;
       t \<leftarrow> set_at (off + 9) 17 t;
       t \<leftarrow> copy_at (off + 12) (octets src_ip) t;
       t \<leftarrow> copy_at (off + 16) (octets dst_ip) t;
       t \<leftarrow> set_at (off + IPV4_HDR) (hi_byte src_port) t;
       t \<leftarrow> set_at (off + IPV4_HDR + 1) (lo_byte src_port) t;
       t \<leftarrow> set_at (off + IPV4_HDR + 2) (hi_byte dst_port) t;
       set_at (off + IPV4_HDR + 3) (lo_byte dst_port) t
     }"

definition l2_template :: "mac \<Rightarrow> mac \<Rightarrow> u16 option \<Rightarrow> bytes option" where
  "l2_template src_mac dst_mac vlan =
     do {
       t \<leftarrow> copy_at 0 (mac_bytes dst_mac) (replicate OUTER_HDR_MAX 0);
       t \<leftarrow> copy_at 6 (mac_bytes src_mac) t;
       (case vlan of
          Some vid \<Rightarrow> do {
            t \<leftarrow> copy_at 12 (to_be16 0x8100) t;
            t \<leftarrow> copy_at 14 (to_be16 (vid AND 0x0FFF)) t;
            copy_at 16 [0x08, 0x00] t
          }
        | None \<Rightarrow> copy_at 12 [0x08, 0x00] t)
     }"

definition new_with_vlan ::
  "mac \<Rightarrow> mac \<Rightarrow> ipv4 \<Rightarrow> ipv4 \<Rightarrow> u16 \<Rightarrow> u16 \<Rightarrow> u16 option \<Rightarrow> frame_header option" where
  "new_with_vlan src_mac dst_mac src_ip dst_ip src_port dst_port vlan =
     (let off = (if vlan \<noteq> None then ETH_HDR + VLAN_HDR else ETH_HDR)
      in do {
        t \<leftarrow> l2_template src_mac dst_mac vlan;
        t \<leftarrow> ip_template off src_ip dst_ip src_port dst_port t;
        Some \<lparr>tpl = t, outer = off + IPV4_HDR + UDP_HDR, l2 = off,
              ip_base_sum = sum_words off (IPV4_HDR div 2) t\<rparr>
      })"

definition frame_header_new ::
  "string option \<Rightarrow> mac \<Rightarrow> mac \<Rightarrow> ipv4 \<Rightarrow> ipv4 \<Rightarrow> u16 \<Rightarrow> u16 \<Rightarrow> frame_header option" where
  "frame_header_new vlan_env src_mac dst_mac src_ip dst_ip src_port dst_port =
     new_with_vlan src_mac dst_mac src_ip dst_ip src_port dst_port (vlan_from_env vlan_env)"

section \<open>Stamping a frame\<close>

definition fold16 :: "u32 \<Rightarrow> u32" where
  "fold16 s = (s AND 0xFFFF) + drop_bit 16 s"

definition header_checksum :: "u32 \<Rightarrow> u16 \<Rightarrow> u16" where
  "header_checksum base ip_tot = NOT (ucast (fold16 (fold16 (base + ucast ip_tot))))"

definition write_header :: "frame_header \<Rightarrow> bytes \<Rightarrow> nat \<Rightarrow> (nat \<times> bytes) option" where
  "write_header h out dns_len =
     (let o2 = l2 h;
          frame_len = outer h + dns_len;
          udp_len = of_nat (UDP_HDR + dns_len) :: u16;
          ip_tot = of_nat IPV4_HDR + udp_len
      in do {
        out \<leftarrow> copy_at 0 (take (outer h) (tpl h)) out;
        out \<leftarrow> set_at (o2 + 2) (hi_byte ip_tot) out;
        out \<leftarrow> set_at (o2 + 3) (lo_byte ip_tot) out;
        let cksum = header_checksum (ip_base_sum h) ip_tot;
        out \<leftarrow> set_at (o2 + 10) (hi_byte cksum) out;
        out \<leftarrow> set_at (o2 + 11) (lo_byte cksum) out;
        out \<leftarrow> set_at (o2 + IPV4_HDR + 4) (hi_byte udp_len) out;
        out \<leftarrow> set_at (o2 + IPV4_HDR + 5) (lo_byte udp_len) out;
        Some (frame_len, out)
      })"

definition write_frame :: "frame_header \<Rightarrow> bytes \<Rightarrow> bytes \<Rightarrow> (nat \<times> bytes) option" where
  "write_frame h out dns = do { out \<leftarrow> copy_at (outer h) dns out; write_header h out (length dns) }"

definition set_src_port :: "frame_header \<Rightarrow> bytes \<Rightarrow> u16 \<Rightarrow> bytes option" where
  "set_src_port h out port =
     do {
       out \<leftarrow> set_at (l2 h + IPV4_HDR) (hi_byte port) out;
       set_at (l2 h + IPV4_HDR + 1) (lo_byte port) out
     }"

text \<open>The reference checksum: fold while there is a carry.\<close>

lemma fold_nat_less:
  assumes "65536 \<le> n"
  shows "n mod 65536 + n div 65536 < (n :: nat)"
proof -
  have "n = 65536 * (n div 65536) + n mod 65536" by simp
  moreover have "1 \<le> n div 65536" using assms by simp
  ultimately show ?thesis by linarith
qed

lemma fold_nat_le: "n mod 65536 + n div 65536 \<le> (n :: nat)"
  using fold_nat_less [of n] by (cases "n < 65536") simp_all

lemma unat_fold16: "unat (fold16 s) = unat s mod 65536 + unat s div 65536"
proof -
  have a: "unat (s AND 0xFFFF) = unat s mod 65536"
  proof -
    have "s AND 0xFFFF = take_bit 16 s"
      by (simp add: take_bit_eq_mask mask_eq_exp_minus_1)
    then show ?thesis by (simp add: take_bit_eq_mod unat_mod)
  qed
  have b: "unat (drop_bit 16 s) = unat s div 65536"
    by (simp add: drop_bit_eq_div unat_div)
  have "unat s mod 65536 + unat s div 65536 < 2 ^ 32"
    using unat_u32_less [of s] fold_nat_le [of "unat s"] by simp
  then show ?thesis by (simp add: fold16_def unat_word_ariths a b)
qed

lemma drop_bit_16_eq_0: "drop_bit 16 s = 0 \<longleftrightarrow> unat s < 65536" for s :: u32
  by (simp add: word_unat_eq_iff drop_bit_eq_div unat_div div_eq_0_iff)

function fold_carries :: "u32 \<Rightarrow> u32" where
  "fold_carries s = (if drop_bit 16 s \<noteq> 0 then fold_carries (fold16 s) else s)"
  by auto

termination
proof (relation "measure unat")
  fix s :: u32
  assume "drop_bit 16 s \<noteq> 0"
  then have "65536 \<le> unat s" by (simp add: drop_bit_16_eq_0)
  then show "(fold16 s, s) \<in> measure unat" by (simp add: unat_fold16 fold_nat_less)
qed simp

declare fold_carries.simps [simp del]

definition ipv4_checksum :: "bytes \<Rightarrow> u16" where
  "ipv4_checksum hdr = NOT (ucast (fold_carries (sum_words 0 (length hdr div 2) hdr)))"

section \<open>MAC addresses and the ARP table\<close>

fun traverse :: "('a \<Rightarrow> 'b option) \<Rightarrow> 'a list \<Rightarrow> 'b list option" where
  "traverse f [] = Some []"
| "traverse f (x # xs) = do { y \<leftarrow> f x; ys \<leftarrow> traverse f xs; Some (y # ys) }"

definition parse_mac :: "string \<Rightarrow> mac option" where
  "parse_mac s =
     (let p = split_on (CHR '':'') s
      in if length p \<noteq> 6 then None
         else do {
           m \<leftarrow> traverse (\<lambda>x. map_option of_nat (parse_hex 256 x)) p;
           (case m of [a, b, c, d, e, f] \<Rightarrow> Some (Mac a b c d e f) | _ \<Rightarrow> None)
         })"

definition local_mac :: "(string \<Rightarrow> string option) \<Rightarrow> string \<Rightarrow> mac option" where
  "local_mac sysfs iface =
     do { s \<leftarrow> sysfs (''/sys/class/net/'' @ iface @ ''/address''); parse_mac (trim s) }"

text \<open>One entry of \<^verbatim>\<open>getifaddrs\<close>: the name, and the address unless it is null.\<close>

datatype ifa_addr = Inet ipv4 | OtherFamily

type_synonym ifaddr = "string \<times> ifa_addr option"

fun local_ipv4 :: "ifaddr list \<Rightarrow> string \<Rightarrow> ipv4 option" where
  "local_ipv4 [] iface = None"
| "local_ipv4 ((name, addr) # rest) iface =
     (case addr of
        Some (Inet ip) \<Rightarrow> if name \<noteq> iface then local_ipv4 rest iface else Some ip
      | _ \<Rightarrow> local_ipv4 rest iface)"

fun lookup_arp_lines :: "string list \<Rightarrow> string \<Rightarrow> mac option" where
  "lookup_arp_lines [] target = None"
| "lookup_arp_lines (line # rest) target =
     (case split_whitespace line of
        [] \<Rightarrow> None
      | ip # c \<Rightarrow>
          if ip \<noteq> target then lookup_arp_lines rest target
          else (case c of
                  hw # flags # c' \<Rightarrow>
                    if flags = ''0x0'' then None
                    else (case c' of m # _ \<Rightarrow> parse_mac m | [] \<Rightarrow> None)
                | _ \<Rightarrow> None))"

definition lookup_arp :: "string option \<Rightarrow> ipv4 \<Rightarrow> mac option" where
  "lookup_arp arp_file server =
     do { content \<leftarrow> arp_file; lookup_arp_lines (drop 1 (lines content)) (ipv4_to_string server) }"

text \<open>
  The successive contents of \<^verbatim>\<open>/proc/net/arp\<close> are a function of the number of the read; the
  result comes with the number of ARP requests triggered.
\<close>

fun resolve_rounds :: "(nat \<Rightarrow> string option) \<Rightarrow> ipv4 \<Rightarrow> nat \<Rightarrow> nat list \<Rightarrow> mac option \<times> nat" where
  "resolve_rounds arp server triggers [] = (None, triggers)"
| "resolve_rounds arp server triggers (i # is) =
     (let triggers' = (if i mod 8 = 0 then triggers + 1 else triggers)
      in case lookup_arp (arp (i + 1)) server of
           Some m \<Rightarrow> (Some m, triggers')
         | None \<Rightarrow> resolve_rounds arp server triggers' is)"

definition resolve_server_mac :: "(nat \<Rightarrow> string option) \<Rightarrow> ipv4 \<Rightarrow> mac option \<times> nat" where
  "resolve_server_mac arp server =
     (case lookup_arp (arp 0) server of
        Some m \<Rightarrow> (Some m, 0)
      | None \<Rightarrow> resolve_rounds arp server 0 [0..<40])"

section \<open>Parsing a received frame\<close>

definition ETH_P_IP :: u16 where "ETH_P_IP = 0x0800"
definition ETH_P_IPV6 :: u16 where "ETH_P_IPV6 = 0x86DD"
definition IPV6_HDR :: nat where "IPV6_HDR = 40"
definition PROTO_UDP :: u8 where "PROTO_UDP = 17"

definition read_be16 :: "bytes \<Rightarrow> nat \<Rightarrow> u16 option" where
  "read_be16 frame i = do { a \<leftarrow> idx frame i; b \<leftarrow> idx frame (i + 1); Some (from_be16 a b) }"

definition ip_header_len :: "bytes \<Rightarrow> nat \<Rightarrow> u16 \<Rightarrow> nat option option" where
  "ip_header_len frame off eth_type =
     (if eth_type = ETH_P_IP then
        if length frame < off + IPV4_HDR then Some None
        else do {
          proto \<leftarrow> idx frame (off + 9);
          if proto \<noteq> PROTO_UDP then Some None
          else do {
            b \<leftarrow> idx frame off;
            let ihl = unat (b AND 0xF) * 4;
            if ihl < IPV4_HDR then Some None else Some (Some ihl)
          }
        }
      else if eth_type = ETH_P_IPV6 then
        if length frame < off + IPV6_HDR then Some None
        else do {
          proto \<leftarrow> idx frame (off + 6);
          if proto \<noteq> PROTO_UDP then Some None else Some (Some IPV6_HDR)
        }
      else Some None)"

definition l2_offset :: "bytes \<Rightarrow> (nat \<times> u16) option option" where
  "l2_offset frame =
     do {
       t \<leftarrow> read_be16 frame 12;
       if t = 0x8100 then
         if length frame < ETH_HDR + 4 then Some None
         else do { t' \<leftarrow> read_be16 frame 16; Some (Some (ETH_HDR + 4, t')) }
       else Some (Some (ETH_HDR, t))
     }"

definition parse_dns_from_frame :: "bytes \<Rightarrow> (u16 \<times> u8) option option" where
  "parse_dns_from_frame frame =
     (if length frame < ETH_HDR + 2 then Some None
      else do {
        r \<leftarrow> l2_offset frame;
        (case r of
           None \<Rightarrow> Some None
         | Some (off, eth_type) \<Rightarrow> do {
             r \<leftarrow> ip_header_len frame off eth_type;
             (case r of
                None \<Rightarrow> Some None
              | Some ip_hdr_len \<Rightarrow>
                  let dns_off = off + ip_hdr_len + UDP_HDR
                  in if length frame < dns_off + 12 then Some None
                     else Some (map_option (\<lambda>r. (resp_id r, resp_rcode r))
                                  (parse_response (drop dns_off frame))))
           })
      })"

section \<open>Checksum arithmetic\<close>

lemma fold16_mod: "unat (fold16 s) mod 65535 = unat s mod 65535"
proof -
  have "unat s = 65535 * (unat s div 65536) + unat (fold16 s)"
    by (simp add: unat_fold16 algebra_simps)
  then show ?thesis by (metis mod_mult_self4)
qed

lemma fold16_pos: "0 < unat s \<Longrightarrow> 0 < unat (fold16 s)"
  by (simp add: unat_fold16) (metis div_mult_mod_eq gr0I mult_0 add_0)

lemma fold_carries_props:
  "unat (fold_carries s) < 65536 \<and> unat (fold_carries s) mod 65535 = unat s mod 65535 \<and>
   (0 < unat s \<longrightarrow> 0 < unat (fold_carries s))"
proof (induction s rule: fold_carries.induct)
  case (1 s)
  then show ?case
    by (cases "drop_bit 16 s = 0")
      (simp_all add: fold_carries.simps [of s] drop_bit_16_eq_0 fold16_mod fold16_pos)
qed

lemma sum_words_Suc: "sum_words off (Suc n) buf = sum_words off n buf + ucast (be_word off buf n)"
  by (simp add: sum_words_def)

lemma unat_sum_words:
  "n \<le> 65536 \<Longrightarrow> unat (sum_words off n buf) = (\<Sum>i<n. unat (be_word off buf i)) \<and>
     (\<Sum>i<n. unat (be_word off buf i)) \<le> n * 65535"
proof (induction n)
  case (Suc n)
  let ?w = "be_word off buf n"
  have w: "unat ?w \<le> 65535" using unat_u16_less [of ?w] by simp
  have u: "unat (ucast ?w :: u32) = unat ?w" by (simp add: unsigned_ucast_eq take_bit_eq_mod)
      (use w in simp)
  have "n * 65535 + 65535 < 2 ^ 32" using Suc.prems by simp
  then show ?case using Suc w u by (simp add: sum_words_Suc unat_word_ariths)
qed (simp add: sum_words_def)

section \<open>The layout of a stamped frame\<close>

definition eth_type_bytes :: "u16 option \<Rightarrow> bytes" where
  "eth_type_bytes vlan =
     (case vlan of None \<Rightarrow> [] | Some vid \<Rightarrow> [0x81, 0x00] @ to_be16 (vid AND 0x0FFF)) @ [0x08, 0x00]"

definition ip_bytes :: "u16 \<Rightarrow> u16 \<Rightarrow> ipv4 \<Rightarrow> ipv4 \<Rightarrow> bytes" where
  "ip_bytes tot ck src dst =
     [0x45, 0] @ to_be16 tot @ [0, 0, 0x40, 0, 64, 17] @ to_be16 ck @ octets src @ octets dst"

definition udp_bytes :: "u16 \<Rightarrow> u16 \<Rightarrow> u16 \<Rightarrow> bytes" where
  "udp_bytes sport dport len = to_be16 sport @ to_be16 dport @ to_be16 len @ [0, 0]"

definition l2_bytes :: "mac \<Rightarrow> mac \<Rightarrow> u16 option \<Rightarrow> bytes" where
  "l2_bytes src_mac dst_mac vlan = mac_bytes dst_mac @ mac_bytes src_mac @ eth_type_bytes vlan"

lemma byte_0 [simp]: "hi_byte 0 = 0" "lo_byte 0 = 0"
  by (simp_all add: hi_byte_def lo_byte_def)

lemma byte_vlan: "hi_byte 0x8100 = 0x81" "lo_byte 0x8100 = 0x00"
  by (simp_all add: hi_byte_def lo_byte_def drop_bit_eq_div)

lemma length_l2_bytes: "length (l2_bytes sm dm vlan) = (if vlan = None then 14 else 18)"
  by (cases sm; cases dm) (auto simp: l2_bytes_def eth_type_bytes_def to_be16_def split: option.splits)

lemma length_ip_bytes [simp]: "length (ip_bytes tot ck src dst) = 20"
  by (cases src; cases dst) (simp add: ip_bytes_def to_be16_def)

lemma length_udp_bytes [simp]: "length (udp_bytes sport dport len) = 8"
  by (simp add: udp_bytes_def to_be16_def)

text \<open>Writes inside a buffer with a known prefix.\<close>

lemma set_at_append: "set_at (length xs + i) v (xs @ ys) = map_option (\<lambda>ys. xs @ ys) (set_at i v ys)"
  by (simp add: set_at_def list_update_append)

lemma set_at_append2: "set_at (i + length xs) v (xs @ ys) = map_option (\<lambda>ys. xs @ ys) (set_at i v ys)"
  using set_at_append [of xs i] by (simp add: add.commute)

lemma copy_at_append:
  "copy_at (length xs + i) src (xs @ ys) = map_option (\<lambda>ys. xs @ ys) (copy_at i src ys)"
  by (simp add: copy_at_def)

lemma ip_template_eq:
  assumes "length pre = off" and "length rest = 4 + n"
  shows "ip_template off src dst sport dport (pre @ replicate 24 0 @ rest) =
    Some (pre @ ip_bytes 0 0 src dst @ to_be16 sport @ to_be16 dport @ rest)"
proof -
  have "ip_template 0 src dst sport dport (replicate 24 0 @ rest) =
      Some (ip_bytes 0 0 src dst @ to_be16 sport @ to_be16 dport @ rest)"
    by (cases src; cases dst)
      (simp add: ip_template_def ip_bytes_def to_be16_def set_at_def copy_at_def IPV4_HDR_def
        numeral_eq_Suc)
  moreover have "ip_template off src dst sport dport (pre @ ys) =
      map_option (\<lambda>ys. pre @ ys) (ip_template 0 src dst sport dport ys)" for ys
  proof -
    have s: "set_at off v (pre @ ys) = map_option (\<lambda>ys. pre @ ys) (set_at 0 v ys)" for v ys
      using set_at_append [of pre 0] assms(1) by simp
    show ?thesis
      unfolding ip_template_def assms(1) [symmetric]
      by (simp add: set_at_append set_at_append2 copy_at_append s [folded assms(1)] IPV4_HDR_def bind_map_option comp_def
          map_option_bind split: option.splits)
  qed
  ultimately show ?thesis by simp
qed

lemma new_with_vlan_eq:
  "new_with_vlan sm dm src dst sport dport vlan =
     Some \<lparr>tpl = l2_bytes sm dm vlan @ ip_bytes 0 0 src dst @ to_be16 sport @ to_be16 dport @
              replicate (if vlan = None then 8 else 4) 0,
           outer = (if vlan = None then 42 else 46), l2 = (if vlan = None then 14 else 18),
           ip_base_sum = sum_words 0 10 (ip_bytes 0 0 src dst)\<rparr>"
proof -
  let ?n = "if vlan = None then 8 else 4 :: nat" and ?o = "if vlan = None then 14 else 18 :: nat"
  let ?rest = "replicate ?n (0 :: u8)"
  have t: "ip_template ?o src dst sport dport (l2_bytes sm dm vlan @ replicate 24 0 @ ?rest) =
      Some (l2_bytes sm dm vlan @ ip_bytes 0 0 src dst @ to_be16 sport @ to_be16 dport @ ?rest)"
    by (rule ip_template_eq [where n = "?n - 4"]) (simp_all add: length_l2_bytes)
  have w: "sum_words ?o 10 (l2_bytes sm dm vlan @ ip_bytes 0 0 src dst @ ys) =
      sum_words 0 10 (ip_bytes 0 0 src dst)" for ys
  proof -
    have "be_word ?o (l2_bytes sm dm vlan @ ip_bytes 0 0 src dst @ ys) i =
        be_word 0 (ip_bytes 0 0 src dst) i" if "i < 10" for i
      using that by (auto simp: be_word_def nth_append length_l2_bytes)
    then show ?thesis unfolding sum_words_def by (intro foldl_cong) auto
  qed
  have l: "l2_template sm dm vlan = Some (l2_bytes sm dm vlan @ replicate 24 0 @ ?rest)"
    by (cases sm; cases dm; cases vlan)
      (simp_all add: l2_template_def byte_vlan hdr_consts copy_at_def l2_bytes_def
        eth_type_bytes_def to_be16_def numeral_eq_Suc)
  show ?thesis using t w l by (cases vlan) (simp_all add: new_with_vlan_def hdr_consts Let_def)
qed

lemma stamp_lengths_eq:
  "do {
     out \<leftarrow> set_at (length pre + 2) (hi_byte tot) (pre @ ip_bytes 0 0 src dst @ udp_bytes sport dport 0 @ rest);
     out \<leftarrow> set_at (length pre + 3) (lo_byte tot) out;
     out \<leftarrow> set_at (length pre + 10) (hi_byte ck) out;
     out \<leftarrow> set_at (length pre + 11) (lo_byte ck) out;
     out \<leftarrow> set_at (length pre + IPV4_HDR + 4) (hi_byte ulen) out;
     out \<leftarrow> set_at (length pre + IPV4_HDR + 5) (lo_byte ulen) out;
     Some (frame_len, out)
   } = Some (frame_len, pre @ ip_bytes tot ck src dst @ udp_bytes sport dport ulen @ rest)"
  by (cases src; cases dst)
    (simp add: IPV4_HDR_def ip_bytes_def udp_bytes_def to_be16_def set_at_def list_update_append
      numeral_eq_Suc)

definition stamped ::
  "mac \<Rightarrow> mac \<Rightarrow> ipv4 \<Rightarrow> ipv4 \<Rightarrow> u16 \<Rightarrow> u16 \<Rightarrow> u16 option \<Rightarrow> nat \<Rightarrow> bytes" where
  "stamped sm dm src dst sport dport vlan n =
     (let ulen = of_nat (8 + n); tot = 20 + ulen
      in l2_bytes sm dm vlan @
         ip_bytes tot (header_checksum (sum_words 0 10 (ip_bytes 0 0 src dst)) tot) src dst @
         udp_bytes sport dport ulen)"

lemma length_stamped:
  "length (stamped sm dm src dst sport dport vlan n) = (if vlan = None then 42 else 46)"
  by (simp add: stamped_def Let_def length_l2_bytes)

lemma write_header_eq:
  assumes "new_with_vlan sm dm src dst sport dport vlan = Some h" and "outer h \<le> length out"
  shows "write_header h out n =
    Some (outer h + n, stamped sm dm src dst sport dport vlan n @ drop (outer h) out)"
proof -
  let ?l2 = "l2_bytes sm dm vlan"
  let ?tot = "20 + of_nat (8 + n) :: u16"
  from assms(1) have h: "outer h = (if vlan = None then 42 else 46)" "l2 h = length ?l2"
    "ip_base_sum h = sum_words 0 10 (ip_bytes 0 0 src dst)"
    "take (outer h) (tpl h) = ?l2 @ ip_bytes 0 0 src dst @ udp_bytes sport dport 0"
    by (auto simp: new_with_vlan_eq length_l2_bytes udp_bytes_def to_be16_def numeral_eq_Suc)
  have c: "copy_at 0 (take (outer h) (tpl h)) out =
      Some (?l2 @ ip_bytes 0 0 src dst @ udp_bytes sport dport 0 @ drop (outer h) out)"
    using assms(2) h(1) unfolding h(4) by (cases vlan) (simp_all add: copy_at_def length_l2_bytes)
  show ?thesis
    using stamp_lengths_eq [where pre = ?l2 and tot = ?tot and rest = "drop (outer h) out"
        and ck = "header_checksum (ip_base_sum h) ?tot" and ulen = "of_nat (8 + n)"
        and frame_len = "outer h + n" and src = src and dst = dst and sport = sport and dport = dport]
    unfolding write_header_def Let_def c h(2)
    by (simp add: stamped_def Let_def h(3) UDP_HDR_def IPV4_HDR_def)
qed

text \<open>The incremental checksum makes the header sum to all ones.\<close>

lemma ip_words_sum:
  "(\<Sum>i<10. unat (be_word 0 (ip_bytes tot ck src dst) i)) =
   (\<Sum>i<10. unat (be_word 0 (ip_bytes 0 0 src dst) i)) + unat tot + unat ck"
  by (cases src; cases dst)
    (simp add: be_word_def ip_bytes_def to_be16_def from_be16_def [of 0 0] numeral_eq_Suc lessThan_Suc)

lemma unat_not_u16: "unat (NOT x :: u16) = 65535 - unat x"
proof -
  have "NOT x = - 1 - x" by (simp add: not_eq_complement)
  moreover have "unat (- 1 - x) = unat (- 1 :: u16) - unat x" by (intro unat_sub) simp
  ultimately show ?thesis by (simp add: unsigned_minus_1_eq_mask mask_eq_exp_minus_1)
qed

lemma unat_ucast_u16: "unat (s :: u32) < 65536 \<Longrightarrow> unat (ucast s :: u16) = unat s"
  by (simp add: unsigned_ucast_eq take_bit_eq_mod)

lemma header_checksum_props:
  assumes "unat base \<le> 655350"
  obtains f where "unat (header_checksum base tot) = 65535 - f" "f < 65536"
    "f mod 65535 = (unat base + unat tot) mod 65535"
proof -
  let ?s = "base + ucast tot :: u32"
  have t: "unat (ucast tot :: u32) = unat tot"
    by (simp add: unsigned_ucast_eq take_bit_eq_mod) (use unat_u16_less [of tot] in simp)
  have s: "unat ?s = unat base + unat tot"
    using assms unat_u16_less [of tot] by (simp add: unat_word_ariths t)
  have f1: "unat (fold16 ?s) \<le> 65545"
  proof -
    have "unat ?s div 65536 \<le> 10" using s assms unat_u16_less [of tot] by simp
    moreover have "unat ?s mod 65536 \<le> 65535" by simp
    ultimately show ?thesis unfolding unat_fold16 by linarith
  qed
  have f2: "unat (fold16 (fold16 ?s)) < 65536"
  proof (cases "unat (fold16 ?s) < 65536")
    case False
    then have "unat (fold16 ?s) mod 65536 + unat (fold16 ?s) div 65536 < 65536"
      using f1 fold_nat_less [of "unat (fold16 ?s)"] by (simp add: le_mod_geq le_div_geq)
    then show ?thesis by (simp only: unat_fold16 [of "fold16 ?s"])
  qed (simp add: unat_fold16 [of "fold16 ?s"])
  show thesis
  proof (rule that [of "unat (fold16 (fold16 ?s))"])
    show "unat (header_checksum base tot) = 65535 - unat (fold16 (fold16 ?s))"
      using f2 by (simp add: header_checksum_def unat_not_u16 unat_ucast_u16)
    show "unat (fold16 (fold16 ?s)) mod 65535 = (unat base + unat tot) mod 65535"
      by (simp add: fold16_mod s)
  qed (rule f2)
qed

lemma ipv4_checksum_stamped:
  assumes "base = sum_words 0 10 (ip_bytes 0 0 src dst)"
  shows "ipv4_checksum (ip_bytes tot (header_checksum base tot) src dst) = 0"
proof -
  let ?ck = "header_checksum base tot"
  let ?S = "sum_words 0 10 (ip_bytes tot ?ck src dst)"
  have b: "unat base = (\<Sum>i<10. unat (be_word 0 (ip_bytes 0 0 src dst) i))" "unat base \<le> 655350"
    using unat_sum_words [of 10 0 "ip_bytes 0 0 src dst"] assms by simp_all
  from header_checksum_props [OF b(2), of tot] obtain f where f:
    "unat ?ck = 65535 - f" "f < 65536" "f mod 65535 = (unat base + unat tot) mod 65535" .
  have S: "unat ?S = unat base + unat tot + unat ?ck"
    using unat_sum_words [of 10 0 "ip_bytes tot ?ck src dst"] ip_words_sum [of tot ?ck src dst] b(1)
    by simp
  have "(unat base + unat tot + (65535 - f)) mod 65535 = (f + (65535 - f)) mod 65535"
    using f(3) by (metis mod_add_left_eq)
  then have S0: "unat ?S mod 65535 = 0" using S f by simp
  have "0 < unat (be_word 0 (ip_bytes 0 0 src dst) 0)"
    by (cases src; cases dst)
      (simp add: be_word_def ip_bytes_def to_be16_def unat_from_be16)
  then have "0 < unat base" unfolding b(1) by (simp add: lessThan_Suc numeral_eq_Suc)
  then have "0 < unat ?S" using S by simp
  then have r: "0 < unat (fold_carries ?S)" "unat (fold_carries ?S) < 65536"
    "unat (fold_carries ?S) mod 65535 = 0"
    using fold_carries_props [of ?S] S0 by simp_all
  then have "unat (fold_carries ?S) = 65535" by (auto elim!: dvdE simp: mod_0_imp_dvd)
  then have "unat (NOT (ucast (fold_carries ?S)) :: u16) = 0"
    by (simp add: unat_not_u16 unat_ucast_u16)
  then show ?thesis by (simp add: ipv4_checksum_def unsigned_eq_0_iff)
qed

lemma write_frame_eq:
  assumes "new_with_vlan sm dm src dst sport dport vlan = Some h"
    and "outer h + length dns \<le> length out"
  shows "write_frame h out dns =
    Some (outer h + length dns,
          stamped sm dm src dst sport dport vlan (length dns) @ dns @ drop (outer h + length dns) out)"
proof -
  let ?out = "take (outer h) out @ dns @ drop (outer h + length dns) out"
  have "copy_at (outer h) dns out = Some ?out" using assms(2) by (simp add: copy_at_def)
  moreover have "outer h \<le> length ?out" "drop (outer h) ?out = dns @ drop (outer h + length dns) out"
    using assms(2) by simp_all
  ultimately show ?thesis
    using write_header_eq [OF assms(1), of ?out "length dns"] by (simp add: write_frame_def)
qed

lemma write_frame_cases:
  assumes "new_with_vlan sm dm src dst sport dport vlan = Some h"
    and "write_frame h out dns = Some (n, out')"
  shows "n = outer h + length dns"
    and "out' = stamped sm dm src dst sport dport vlan (length dns) @ dns @ drop n out"
    and "n \<le> length out"
proof -
  have le: "outer h + length dns \<le> length out"
  proof (rule ccontr)
    assume "\<not> ?thesis"
    then show False using assms(2) by (simp add: write_frame_def copy_at_def)
  qed
  from write_frame_eq [OF assms(1) le] assms(2) le
  show "n = outer h + length dns" "n \<le> length out"
    "out' = stamped sm dm src dst sport dport vlan (length dns) @ dns @ drop n out" by simp_all
qed

lemma header_offsets:
  "new_with_vlan sm dm src dst sport dport vlan = Some h \<Longrightarrow>
     outer h = (if vlan = None then 42 else 46) \<and> l2 h = (if vlan = None then 14 else 18)"
  by (auto simp: new_with_vlan_eq)

lemma stamped_ip:
  assumes "new_with_vlan sm dm src dst sport dport vlan = Some h"
  shows "take 20 (drop (l2 h) (stamped sm dm src dst sport dport vlan n @ rest)) =
    ip_bytes (20 + of_nat (8 + n))
      (header_checksum (sum_words 0 10 (ip_bytes 0 0 src dst)) (20 + of_nat (8 + n))) src dst"
  using header_offsets [OF assms] by (simp add: stamped_def Let_def length_l2_bytes)

section \<open>The parser\<close>

lemma ip_header_len_returns: "\<exists>r. ip_header_len frame off t = Some r"
  by (auto simp: ip_header_len_def IPV4_HDR_def IPV6_HDR_def Let_def)

lemma l2_offset_returns: "16 \<le> length frame \<Longrightarrow> \<exists>r. l2_offset frame = Some r"
  by (auto simp: l2_offset_def read_be16_def ETH_HDR_def)

lemma parse_dns_returns: "\<exists>r. parse_dns_from_frame frame = Some r"
proof (cases "length frame < 16")
  case False
  then obtain r where r: "l2_offset frame = Some r" using l2_offset_returns by fastforce
  show ?thesis
  proof (cases r)
    case None
    then show ?thesis using r by (simp add: parse_dns_from_frame_def)
  next
    case (Some p)
    obtain off t where p: "p = (off, t)" by fastforce
    obtain r' where "ip_header_len frame off t = Some r'" using ip_header_len_returns by blast
    then show ?thesis using r Some p by (simp add: parse_dns_from_frame_def Let_def split: option.split)
  qed
qed (simp add: parse_dns_from_frame_def ETH_HDR_def)

lemma be_consts:
  "from_be16 0x81 0 = 0x8100" "from_be16 8 0 = 0x0800"
  by (simp_all add: word_unat_eq_iff unat_from_be16)

lemma ip_nth:
  "ip_bytes tot ck src dst ! 0 = 0x45" "ip_bytes tot ck src dst ! 9 = 17"
  by (simp_all add: ip_bytes_def to_be16_def)

lemma l2_offset_stamped:
  "l2_offset (stamped sm dm src dst sport dport vlan n @ rest) =
     Some (Some (if vlan = None then 14 else 18, ETH_P_IP))"
  by (cases sm; cases dm; cases vlan)
    (simp_all add: l2_offset_def read_be16_def stamped_def l2_bytes_def eth_type_bytes_def to_be16_def
      ETH_HDR_def ETH_P_IP_def be_consts Let_def nth_append)

lemma ip_header_len_stamped:
  "ip_header_len (stamped sm dm src dst sport dport vlan n @ rest) (if vlan = None then 14 else 18)
     ETH_P_IP = Some (Some 20)"
proof -
  have "(0x45 :: u8) AND 0xF = 5" by simp
  then show ?thesis
    by (cases vlan)
      (simp_all add: ip_header_len_def stamped_def length_l2_bytes nth_append ip_nth IPV4_HDR_def
        PROTO_UDP_def Let_def)
qed

lemma parse_stamped:
  assumes "12 \<le> length dns"
  shows "parse_dns_from_frame (stamped sm dm src dst sport dport vlan n @ dns) =
    Some (map_option (\<lambda>r. (resp_id r, resp_rcode r)) (parse_response dns))"
  using assms l2_offset_stamped [of sm dm src dst sport dport vlan n dns]
    ip_header_len_stamped [of sm dm src dst sport dport vlan n dns]
  by (cases vlan)
    (simp_all add: parse_dns_from_frame_def length_stamped ETH_HDR_def UDP_HDR_def Let_def)

section \<open>Properties\<close>

text \<open>C16: The IPv4 header of every frame the transmit path stamps, tagged or not and for every address, port
  and payload length, has a valid checksum: the reference checksum over the twenty header
  bytes, the stored checksum included, is zero. The stored value is computed from the precomputed
  sum of the template and two folds only.\<close>

theorem frame_checksum_valid:
  assumes "new_with_vlan sm dm src dst sport dport vlan = Some h"
    and "write_frame h out dns = Some (n, out')"
  shows "ipv4_checksum (take IPV4_HDR (drop (l2 h) out')) = 0"
proof -
  have "out' = stamped sm dm src dst sport dport vlan (length dns) @ dns @ drop n out"
    by (rule write_frame_cases(2) [OF assms])
  then show ?thesis
    by (simp only: IPV4_HDR_def stamped_ip [OF assms(1)] ipv4_checksum_stamped)
qed

definition test_header :: "u16 option \<Rightarrow> frame_header option" where
  "test_header vlan =
     new_with_vlan (Mac 0x00 0x11 0x22 0x33 0x44 0x55) (Mac 0xAA 0xBB 0xCC 0xDD 0xEE 0xFF)
       (Ipv4 10 8 0 2) (Ipv4 10 8 0 1) 12345 53 vlan"

lemma test_header_write:
  obtains h out' where "test_header vlan = Some h" "write_frame h (replicate 64 0) [113] = Some (outer h + 1, out')"
    "length out' = 64"
proof -
  obtain h where h: "test_header vlan = Some h" by (simp add: test_header_def new_with_vlan_eq)
  have o: "outer h \<le> 46" using header_offsets [OF h [unfolded test_header_def]] by simp
  then have "write_frame h (replicate 64 0) [113] = Some (outer h + 1,
      stamped (Mac 0x00 0x11 0x22 0x33 0x44 0x55) (Mac 0xAA 0xBB 0xCC 0xDD 0xEE 0xFF)
       (Ipv4 10 8 0 2) (Ipv4 10 8 0 1) 12345 53 vlan 1 @ [113] @ drop (outer h + 1) (replicate 64 0))"
    using write_frame_eq [OF h [unfolded test_header_def], of "[113]" "replicate 64 0"] by simp
  then show thesis
    using h o header_offsets [OF h [unfolded test_header_def]]
    by (intro that [of h]) (auto simp: length_stamped)
qed

theorem frame_checksum_valid_witness:
  "\<exists>h n out'. test_header (Some 2126) = Some h \<and> write_frame h (replicate 64 0) [113] = Some (n, out') \<and>
     ipv4_checksum (take IPV4_HDR (drop (l2 h) out')) = 0"
proof -
  obtain h out' where h: "test_header (Some 2126) = Some h"
    "write_frame h (replicate 64 0) [113] = Some (outer h + 1, out')"
    by (rule test_header_write)
  from frame_checksum_valid [OF h(1) [unfolded test_header_def] h(2)] h show ?thesis by blast
qed

text \<open>Stamping then parsing: a frame built by the transmit path around a DNS message of at least
  12 bytes is parsed back to exactly that message's verdict, with and without an 802.1Q tag: the parser
  finds the DNS message at the offset where the builder put it.\<close>

theorem write_then_parse_frame:
  assumes "new_with_vlan sm dm src dst sport dport vlan = Some h"
    and "write_frame h out dns = Some (n, out')" and "12 \<le> length dns"
  shows "parse_dns_from_frame (take n out') =
    Some (map_option (\<lambda>r. (resp_id r, resp_rcode r)) (parse_response dns))"
proof -
  from write_frame_cases [OF assms(1,2)] header_offsets [OF assms(1)]
  have "take n out' = stamped sm dm src dst sport dport vlan (length dns) @ dns"
    by (simp add: length_stamped)
  then show ?thesis using parse_stamped [OF assms(3)] by simp
qed

theorem write_then_parse_frame_witness:
  "\<exists>h n out'. test_header None = Some h \<and>
     write_frame h (replicate 64 0) [0xBE, 0xEF, 0x81, 0x83, 0, 1, 0, 0, 0, 0, 0, 0] = Some (n, out') \<and>
     parse_dns_from_frame (take n out') = Some (Some (0xBEEF, 3))"
proof -
  let ?dns = "[0xBE, 0xEF, 0x81, 0x83, 0, 1, 0, 0, 0, 0, 0, 0] :: bytes"
  obtain h where h: "test_header None = Some h" by (simp add: test_header_def new_with_vlan_eq)
  note h' = h [unfolded test_header_def]
  have "outer h = 42" using header_offsets [OF h'] by simp
  then obtain n out' where w: "write_frame h (replicate 64 0) ?dns = Some (n, out')"
    using write_frame_eq [OF h', of ?dns "replicate 64 0"] by fastforce
  have "parse_response ?dns = Some \<lparr>resp_id = 0xBEEF, resp_rcode = 3\<rparr>"
    by code_simp
  with write_then_parse_frame [OF h' w] h w show ?thesis by auto
qed

text \<open>The receive path never reads out of bounds: on every byte sequence the frame parser returns,
  with a verdict or with the decision that it is not a DNS response.\<close>

theorem parse_dns_from_frame_total: "parse_dns_from_frame frame \<noteq> None"
  using parse_dns_returns [of frame] by auto

text \<open>An 802.1Q tag inserts exactly four bytes: the tagged frame is four bytes longer, and
  everything from the IPv4 header on (the checksum, the ports and the payload included) is the same as in
  the untagged frame.\<close>

theorem vlan_only_shifts_by_four:
  assumes u: "new_with_vlan sm dm src dst sport dport None = Some hu"
    and t: "new_with_vlan sm dm src dst sport dport (Some vid) = Some ht"
    and wu: "write_frame hu out dns = Some (nu, ou)" and wt: "write_frame ht out' dns = Some (nt, ot)"
  shows "nt = nu + 4 \<and> drop (l2 ht) (take nt ot) = drop (l2 hu) (take nu ou) \<and>
    take 12 ot = take 12 ou \<and> take 6 (drop 12 ot) = [0x81, 0x00] @ to_be16 (vid AND 0x0FFF) @ [0x08, 0x00]"
proof -
  have ou: "ou = stamped sm dm src dst sport dport None (length dns) @ dns @ drop nu out"
    "nu = 42 + length dns" "l2 hu = 14"
    using write_frame_cases [OF u wu] header_offsets [OF u] by simp_all
  have ot: "ot = stamped sm dm src dst sport dport (Some vid) (length dns) @ dns @ drop nt out'"
    "nt = 46 + length dns" "l2 ht = 18"
    using write_frame_cases [OF t wt] header_offsets [OF t] by simp_all
  have "drop 18 (l2_bytes sm dm (Some vid)) = []" "drop 14 (l2_bytes sm dm None) = []"
    by (simp_all add: length_l2_bytes)
  then have "drop (l2 ht) (take nt ot) = drop (l2 hu) (take nu ou)"
    by (simp add: ou ot length_stamped) (simp add: stamped_def Let_def length_l2_bytes)
  moreover have "take 12 ot = take 12 ou"
    "take 6 (drop 12 ot) = [0x81, 0x00] @ to_be16 (vid AND 0x0FFF) @ [0x08, 0x00]"
    by (cases sm; cases dm; simp add: ou ot stamped_def l2_bytes_def eth_type_bytes_def to_be16_def Let_def)+
  ultimately show ?thesis using ou(2) ot(2) by simp
qed

theorem vlan_only_shifts_by_four_witness:
  "\<exists>hu ht nu nt ou ot. test_header None = Some hu \<and> test_header (Some 100) = Some ht \<and>
     write_frame hu (replicate 64 0) [113] = Some (nu, ou) \<and>
     write_frame ht (replicate 64 0) [113] = Some (nt, ot) \<and> nt = nu + 4"
proof -
  obtain hu ou where u: "test_header None = Some hu"
    "write_frame hu (replicate 64 0) [113] = Some (outer hu + 1, ou)" by (rule test_header_write)
  obtain ht ot where t: "test_header (Some 100) = Some ht"
    "write_frame ht (replicate 64 0) [113] = Some (outer ht + 1, ot)" by (rule test_header_write)
  from vlan_only_shifts_by_four [OF u(1) [unfolded test_header_def] t(1) [unfolded test_header_def] u(2) t(2)]
  show ?thesis using u t by blast
qed

end
