(* ===== verification/Umem_Rings.thy ===== *)
theory Umem_Rings
  imports Prelude
begin

text \<open>
  The UMEM and its rings (\<^verbatim>\<open>src/transport/xdp/umem.rs\<close>). A ring is the shared memory the
  process and the kernel see: two free-running 32-bit counters and a power-of-two array of descriptors
  indexed by \<open>counter & mask\<close>. The counters wrap at \<open>2 ^ 32\<close>. The locale \<open>bounded_fifo\<close> is the
  contract of a bounded queue; both ring types (\<^verbatim>\<open>AddrRing\<close>, \<^verbatim>\<open>DescRing\<close>) are
  interpretations of it. \<^verbatim>\<open>Umem::new\<close> is modelled with the results of its system calls as a
  parameter and the list of live mappings as its effect.
\<close>

section \<open>Ring memory\<close>

record 'a ring =
  producer :: u32
  consumer :: u32
  ring_flags :: u32
  descs :: "'a list"
  ring_size :: u32
  ring_mask :: u32

record xdp_desc =
  d_addr :: u64
  d_len :: u32
  d_options :: u32

definition slot :: "'a ring \<Rightarrow> u32 \<Rightarrow> nat \<Rightarrow> nat" where
  "slot r start i = unat ((start + of_nat i) AND ring_mask r)"

definition write_slots :: "'a ring \<Rightarrow> u32 \<Rightarrow> 'a list \<Rightarrow> 'a list" where
  "write_slots r start xs =
     foldl (\<lambda>ds (i, x). ds[slot r start i := x]) (descs r) (List.enumerate 0 xs)"

definition read_slots :: "'a ring \<Rightarrow> u32 \<Rightarrow> nat \<Rightarrow> 'a list" where
  "read_slots r start n = map (\<lambda>i. descs r ! slot r start i) [0..<n]"

section \<open>AddrRing\<close>

definition enqueue_batch :: "u64 ring \<Rightarrow> u64 list \<Rightarrow> nat \<times> u64 ring" where
  "enqueue_batch r addrs =
     (let prod = producer r;
          free = unat (ring_size r - (prod - consumer r));
          n = min (length addrs) free
      in (n, r\<lparr>descs := write_slots r prod (take n addrs), producer := prod + of_nat n\<rparr>))"

definition dequeue_all :: "u64 ring \<Rightarrow> u64 list \<times> u64 ring" where
  "dequeue_all r =
     (let cons = consumer r;
          available = unat (producer r - cons);
          out = read_slots r cons available
      in (out, if 0 < available then r\<lparr>consumer := cons + of_nat available\<rparr> else r))"

definition XDP_RING_NEED_WAKEUP :: u32 where "XDP_RING_NEED_WAKEUP = 1"

definition addr_needs_wakeup :: "u64 ring \<Rightarrow> bool" where
  "addr_needs_wakeup r \<longleftrightarrow> ring_flags r AND XDP_RING_NEED_WAKEUP \<noteq> 0"

section \<open>DescRing\<close>

definition produce_tx :: "xdp_desc ring \<Rightarrow> xdp_desc list \<Rightarrow> nat \<times> xdp_desc ring" where
  "produce_tx r ds =
     (let prod = producer r;
          free = unat (ring_size r - (prod - consumer r));
          n = min (length ds) free;
          r1 = r\<lparr>descs := write_slots r prod (take n ds)\<rparr>
      in (n, if 0 < n then r1\<lparr>producer := prod + of_nat n\<rparr> else r1))"

definition consume_rx :: "xdp_desc ring \<Rightarrow> xdp_desc list \<times> xdp_desc ring" where
  "consume_rx r =
     (let cons = consumer r;
          available = unat (producer r - cons)
      in if available = 0 then ([], r)
         else (read_slots r cons available, r\<lparr>consumer := cons + of_nat available\<rparr>))"

definition desc_needs_wakeup :: "xdp_desc ring \<Rightarrow> bool" where
  "desc_needs_wakeup r \<longleftrightarrow> ring_flags r AND XDP_RING_NEED_WAKEUP \<noteq> 0"

section \<open>The contract of a bounded queue\<close>

datatype 'a fifo_op = Push "'a list" | PopAll

text \<open>Running a history of operations: what was accepted and what was delivered.\<close>

fun fifo_run ::
  "('r \<Rightarrow> 'a list \<Rightarrow> nat \<times> 'r) \<Rightarrow> ('r \<Rightarrow> 'a list \<times> 'r) \<Rightarrow> 'r \<Rightarrow> 'a fifo_op list \<Rightarrow>
   'a list \<times> 'a list \<times> 'r" where
  "fifo_run push pop_all r [] = ([], [], r)"
| "fifo_run push pop_all r (Push xs # ops) =
     (case push r xs of (n, r1) \<Rightarrow>
        case fifo_run push pop_all r1 ops of (acc, del, r2) \<Rightarrow> (take n xs @ acc, del, r2))"
| "fifo_run push pop_all r (PopAll # ops) =
     (case pop_all r of (out, r1) \<Rightarrow>
        case fifo_run push pop_all r1 ops of (acc, del, r2) \<Rightarrow> (acc, out @ del, r2))"

locale bounded_fifo =
  fixes contents :: "'r \<Rightarrow> 'a list"
    and capacity :: "'r \<Rightarrow> nat"
    and wf :: "'r \<Rightarrow> bool"
    and push :: "'r \<Rightarrow> 'a list \<Rightarrow> nat \<times> 'r"
    and pop_all :: "'r \<Rightarrow> 'a list \<times> 'r"
  assumes wf_bounded: "wf r \<Longrightarrow> length (contents r) \<le> capacity r"
    and push_law: "wf r \<Longrightarrow> push r xs = (n, r') \<Longrightarrow>
      n = min (length xs) (capacity r - length (contents r)) \<and> wf r' \<and> capacity r' = capacity r \<and>
      contents r' = contents r @ take n xs"
    and pop_law: "wf r \<Longrightarrow> pop_all r = (out, r') \<Longrightarrow>
      out = contents r \<and> wf r' \<and> capacity r' = capacity r \<and> contents r' = []"
begin

lemma fifo_order:
  "wf r \<Longrightarrow> fifo_run push pop_all r ops = (acc, del, r') \<Longrightarrow>
     contents r @ acc = del @ contents r' \<and> wf r' \<and> capacity r' = capacity r"
proof (induction ops arbitrary: r acc del r')
  case (Cons op ops)
  show ?case
  proof (cases op)
    case (Push xs)
    obtain n r1 where p: "push r xs = (n, r1)" by fastforce
    obtain a d r2 where q: "fifo_run push pop_all r1 ops = (a, d, r2)" by (metis prod_cases3)
    note law = push_law [OF Cons.prems(1) p]
    have "contents r1 @ a = d @ contents r2 \<and> wf r2 \<and> capacity r2 = capacity r1"
      using Cons.IH [OF _ q] law by blast
    then show ?thesis using Cons.prems(2) Push p q law by simp
  next
    case PopAll
    obtain out r1 where p: "pop_all r = (out, r1)" by fastforce
    obtain a d r2 where q: "fifo_run push pop_all r1 ops = (a, d, r2)" by (metis prod_cases3)
    note law = pop_law [OF Cons.prems(1) p]
    have "contents r1 @ a = d @ contents r2 \<and> wf r2 \<and> capacity r2 = capacity r1"
      using Cons.IH [OF _ q] law by blast
    then show ?thesis using Cons.prems(2) PopAll p q law by auto
  qed
qed simp

end

section \<open>The rings refine it\<close>

definition ring_contents :: "'a ring \<Rightarrow> 'a list" where
  "ring_contents r = read_slots r (consumer r) (unat (producer r - consumer r))"

definition ring_capacity :: "'a ring \<Rightarrow> nat" where
  "ring_capacity r = unat (ring_size r)"

definition ring_wf :: "'a ring \<Rightarrow> bool" where
  "ring_wf r \<longleftrightarrow>
     (\<exists>k < 32. ring_size r = 2 ^ k) \<and> ring_mask r = ring_size r - 1 \<and>
     length (descs r) = unat (ring_size r) \<and> producer r - consumer r \<le> ring_size r"

lemma unat_and_mask:
  assumes "k < 32"
  shows "unat (x AND (2 ^ k - 1) :: u32) = unat x mod 2 ^ k"
proof -
  have "x AND (2 ^ k - 1) = take_bit k x" by (simp add: take_bit_eq_mask mask_eq_exp_minus_1)
  then show ?thesis by (simp add: unsigned_take_bit_eq take_bit_eq_mod [symmetric])
qed

lemma slot_mod:
  assumes "k < 32" and "ring_mask r = 2 ^ k - 1"
  shows "slot r start i = (unat start + i) mod 2 ^ k"
proof -
  have "(2 :: nat) ^ k dvd 2 ^ 32" using assms(1) by (intro le_imp_power_dvd) simp
  have "slot r start i = unat (start + of_nat i) mod 2 ^ k"
    by (simp add: slot_def assms unat_and_mask)
  also have "unat (start + of_nat i) = (unat start + i) mod 2 ^ 32"
    by (simp add: unat_word_ariths unat_of_nat mod_simps)
  also have "(unat start + i) mod 2 ^ 32 mod 2 ^ k = (unat start + i) mod 2 ^ k"
    using \<open>2 ^ k dvd 2 ^ 32\<close> by (rule mod_mod_cancel)
  finally show ?thesis .
qed

lemma mod_add_inj_le:
  fixes a i j m :: nat
  assumes "i \<le> j" and "j < m" and "(a + i) mod m = (a + j) mod m"
  shows "i = j"
proof -
  have "m dvd (a + j) - (a + i)"
    using assms(1,3) by (metis add_le_cancel_left mod_eq_dvd_iff_nat)
  then have "m dvd j - i" by simp
  then show ?thesis using assms(1,2) by (metis dvd_imp_le diff_is_0_eq le_antisym less_imp_diff_less
      linorder_not_less neq0_conv)
qed

lemma mod_add_inj:
  fixes a i j m :: nat
  assumes "i < m" and "j < m" and "(a + i) mod m = (a + j) mod m"
  shows "i = j"
  using mod_add_inj_le [of i j m a] mod_add_inj_le [of j i m a] assms by (cases "i \<le> j") simp_all

lemma unat_power_u32: "k < 32 \<Longrightarrow> unat (2 ^ k :: u32) = 2 ^ k"
proof -
  assume "k < 32"
  then have "(2 :: nat) ^ k < 2 ^ 32" by (intro power_strict_increasing) simp_all
  then have "unat (of_nat (2 ^ k) :: u32) = 2 ^ k" by (simp add: unat_of_nat del: of_nat_power)
  then show ?thesis by simp
qed

lemma slot_inj:
  assumes "ring_wf r" and "i < unat (ring_size r)" and "j < unat (ring_size r)"
    and "slot r start i = slot r start j"
  shows "i = j"
proof -
  obtain k where k: "k < 32" "ring_size r = 2 ^ k" "ring_mask r = 2 ^ k - 1"
    using assms(1) by (auto simp: ring_wf_def)
  have u: "unat (ring_size r) = 2 ^ k" using k(1,2) by (simp add: unat_power_u32)
  show ?thesis
    using assms(2-4) slot_mod [OF k(1,3)] unfolding u by (intro mod_add_inj [of i "2 ^ k" j "unat start"]) simp_all
qed

lemma slot_less:
  assumes "ring_wf r"
  shows "slot r start i < length (descs r)"
proof -
  obtain k where k: "k < 32" "ring_size r = 2 ^ k" "ring_mask r = 2 ^ k - 1"
    "length (descs r) = unat (ring_size r)"
    using assms by (auto simp: ring_wf_def)
  have "unat (ring_size r) = 2 ^ k" using k(1,2) by (simp add: unat_power_u32)
  then show ?thesis using slot_mod [OF k(1,3)] k(4) by simp
qed

lemma write_slots_Nil [simp]: "write_slots r start [] = descs r"
  by (simp add: write_slots_def)

lemma write_slots_snoc:
  "write_slots r start (xs @ [x]) = (write_slots r start xs)[slot r start (length xs) := x]"
  by (simp add: write_slots_def enumerate_append_eq)

lemma length_write_slots [simp]: "length (write_slots r start xs) = length (descs r)"
  by (induction xs rule: rev_induct) (simp_all add: write_slots_snoc)

lemma write_slots_other:
  "(\<And>i. i < length xs \<Longrightarrow> slot r start i \<noteq> j) \<Longrightarrow> write_slots r start xs ! j = descs r ! j"
proof (induction xs rule: rev_induct)
  case (snoc x xs)
  have "slot r start (length xs) \<noteq> j" using snoc.prems by simp
  then show ?case using snoc by (simp add: write_slots_snoc)
qed simp

lemma write_slots_same:
  assumes "ring_wf r"
  shows "length xs \<le> unat (ring_size r) \<Longrightarrow> i < length xs \<Longrightarrow>
    write_slots r start xs ! slot r start i = xs ! i"
proof (induction xs rule: rev_induct)
  case (snoc x xs)
  show ?case
  proof (cases "i = length xs")
    case True
    then show ?thesis using slot_less [OF assms] by (simp add: write_slots_snoc)
  next
    case False
    then have "slot r start (length xs) \<noteq> slot r start i"
      using slot_inj [OF assms, of "length xs" i start] snoc.prems by auto
    then show ?thesis using snoc False by (simp add: write_slots_snoc nth_append)
  qed
qed simp

definition ring_push :: "'a ring \<Rightarrow> 'a list \<Rightarrow> nat \<times> 'a ring" where
  "ring_push r xs =
     (let n = min (length xs) (unat (ring_size r - (producer r - consumer r)))
      in (n, r\<lparr>descs := write_slots r (producer r) (take n xs), producer := producer r + of_nat n\<rparr>))"

definition ring_pop_all :: "'a ring \<Rightarrow> 'a list \<times> 'a ring" where
  "ring_pop_all r = (ring_contents r, r\<lparr>consumer := producer r\<rparr>)"

lemma enqueue_batch_push: "enqueue_batch r xs = ring_push r xs"
  by (simp add: enqueue_batch_def ring_push_def Let_def)

lemma produce_tx_push: "produce_tx r xs = ring_push r xs"
  by (auto simp: produce_tx_def ring_push_def Let_def)

lemma consumer_caught_up: "unat (producer r - consumer r) = 0 \<Longrightarrow> r\<lparr>consumer := producer r\<rparr> = r"
  by (simp add: unsigned_eq_0_iff)

lemma dequeue_all_pop: "dequeue_all r = ring_pop_all r"
  by (simp add: dequeue_all_def ring_pop_all_def ring_contents_def consumer_caught_up Let_def)

lemma consume_rx_pop: "consume_rx r = ring_pop_all r"
  by (simp add: consume_rx_def ring_pop_all_def ring_contents_def read_slots_def consumer_caught_up
      Let_def)

lemma ring_push_contents:
  assumes wf: "ring_wf r" and n: "n \<le> unat (ring_size r) - unat (producer r - consumer r)"
    and xs: "length xs = n"
  shows "ring_contents (r\<lparr>descs := write_slots r (producer r) xs, producer := producer r + of_nat n\<rparr>) =
    ring_contents r @ xs" (is "ring_contents ?r = _")
proof -
  let ?a = "unat (producer r - consumer r)"
  have a: "?a \<le> unat (ring_size r)" using wf by (simp add: ring_wf_def word_le_nat_alt)
  have an: "?a + n \<le> unat (ring_size r)" using a n by simp
  have u: "unat (producer ?r - consumer ?r) = ?a + n"
  proof -
    have "producer ?r - consumer ?r = of_nat (?a + n)" by (simp add: algebra_simps)
    moreover have "?a + n < 2 ^ 32" using an unat_u32_less [of "ring_size r"] by simp
    ultimately show ?thesis by (simp only: unat_of_nat) simp
  qed
  have sl: "slot ?r = slot r" by (simp add: slot_def fun_eq_iff)
  have p: "slot r (consumer r) (?a + t) = slot r (producer r) t" for t
  proof -
    have "consumer r + of_nat (?a + t) = producer r + of_nat t" by (simp add: algebra_simps)
    then show ?thesis by (simp only: slot_def)
  qed
  show ?thesis
  proof (rule nth_equalityI)
    show "length (ring_contents ?r) = length (ring_contents r @ xs)"
      using u xs by (simp add: ring_contents_def read_slots_def)
    fix i
    assume "i < length (ring_contents ?r)"
    then have i: "i < ?a + n" using u by (simp add: ring_contents_def read_slots_def)
    have l: "ring_contents ?r ! i = write_slots r (producer r) xs ! slot r (consumer r) i"
      using i u sl by (simp add: ring_contents_def read_slots_def)
    show "ring_contents ?r ! i = (ring_contents r @ xs) ! i"
    proof (cases "i < ?a")
      case True
      have "slot r (producer r) t \<noteq> slot r (consumer r) i" if "t < length xs" for t
        using slot_inj [OF wf, of "?a + t" i "consumer r"] p that xs an True by auto
      then show ?thesis using True l
        by (simp add: write_slots_other ring_contents_def read_slots_def nth_append)
    next
      case False
      then obtain t where t: "i = ?a + t" "t < n" using i by (metis add_diff_inverse_nat nat_add_left_cancel_less)
      then have "write_slots r (producer r) xs ! slot r (producer r) t = xs ! t"
        using write_slots_same [OF wf, of xs t] xs an by simp
      then show ?thesis using l t p by (simp add: ring_contents_def read_slots_def nth_append)
    qed
  qed
qed

lemma ring_free:
  assumes "ring_wf r"
  shows "unat (ring_size r - (producer r - consumer r)) = ring_capacity r - length (ring_contents r)"
    and "length (ring_contents r) \<le> ring_capacity r"
  using assms
  by (simp_all add: ring_wf_def ring_capacity_def ring_contents_def read_slots_def unat_sub
      word_le_nat_alt)

lemma ring_push_wf:
  assumes wf: "ring_wf r" and n: "n \<le> ring_capacity r - length (ring_contents r)"
  shows "ring_wf (r\<lparr>descs := write_slots r (producer r) xs, producer := producer r + of_nat n\<rparr>)"
proof -
  let ?a = "unat (producer r - consumer r)"
  have an: "?a + n \<le> unat (ring_size r)"
    using n ring_free [OF wf] by (simp add: ring_capacity_def ring_contents_def read_slots_def)
  have "producer r + of_nat n - consumer r = of_nat (?a + n)" by (simp add: algebra_simps)
  moreover have "?a + n < 2 ^ 32" using an unat_u32_less [of "ring_size r"] by simp
  ultimately have "unat (producer r + of_nat n - consumer r) = ?a + n"
    by (simp only: unat_of_nat) simp
  then show ?thesis using wf an by (simp add: ring_wf_def word_le_nat_alt)
qed

lemma ring_push_law:
  assumes wf: "ring_wf r" and p: "ring_push r xs = (n, r')"
  shows "n = min (length xs) (ring_capacity r - length (ring_contents r)) \<and> ring_wf r' \<and>
    ring_capacity r' = ring_capacity r \<and> ring_contents r' = ring_contents r @ take n xs"
proof -
  from p have n: "n = min (length xs) (ring_capacity r - length (ring_contents r))"
    and r': "r' = r\<lparr>descs := write_slots r (producer r) (take n xs), producer := producer r + of_nat n\<rparr>"
    using ring_free(1) [OF wf] by (auto simp: ring_push_def Let_def)
  have le: "n \<le> unat (ring_size r) - unat (producer r - consumer r)"
    using n by (simp add: ring_capacity_def ring_contents_def read_slots_def)
  show ?thesis
    using n r' ring_push_wf [OF wf, of n "take n xs"] ring_push_contents [OF wf le, of "take n xs"]
    by (simp add: ring_capacity_def)
qed

lemma ring_pop_law:
  assumes "ring_wf r" and "ring_pop_all r = (out, r')"
  shows "out = ring_contents r \<and> ring_wf r' \<and> ring_capacity r' = ring_capacity r \<and> ring_contents r' = []"
  using assms by (auto simp: ring_pop_all_def ring_wf_def ring_capacity_def ring_contents_def read_slots_def)

interpretation addr_fifo: bounded_fifo ring_contents ring_capacity ring_wf enqueue_batch dequeue_all
  using ring_free(2) ring_push_law ring_pop_law
  by unfold_locales (simp_all add: enqueue_batch_push dequeue_all_pop)

interpretation desc_fifo: bounded_fifo ring_contents ring_capacity ring_wf produce_tx consume_rx
  using ring_free(2) ring_push_law ring_pop_law
  by unfold_locales (simp_all add: produce_tx_push consume_rx_pop)

section \<open>The UMEM\<close>

definition FRAME_SIZE :: u32 where "FRAME_SIZE = 2048"
definition FRAME_COUNT :: u32 where "FRAME_COUNT = 16384"
definition RING_SIZE :: u32 where "RING_SIZE = 4096"

datatype resource = XskFd | UmemArea | FillMap | CompMap | RxMap | TxMap

datatype xsk_error =
  SocketFailed | UmemMmap | UmemReg | UmemRingOpt bool | MmapOffsets | AddrRingMmap
  | XskRingOpt bool | DescRingMmap | BindFailed

text \<open>The outcome of each system call, in the order of the calls.\<close>

record xsk_env =
  e_socket :: bool
  e_mmap_huge :: bool
  e_mmap_plain :: bool
  e_umem_reg :: bool
  e_fill_opt :: bool
  e_comp_opt :: bool
  e_umem_offsets :: bool
  e_fill_map :: bool
  e_comp_map :: bool
  e_rx_opt :: bool
  e_tx_opt :: bool
  e_xsk_offsets :: bool
  e_rx_map :: bool
  e_tx_map :: bool
  e_bind :: bool

text \<open>A freshly mapped ring: the kernel's memory is zeroed.\<close>

definition mapped_ring :: "'a \<Rightarrow> u32 \<Rightarrow> 'a ring" where
  "mapped_ring z sz =
     \<lparr>producer = 0, consumer = 0, ring_flags = 0, descs = replicate (unat sz) z,
      ring_size = sz, ring_mask = sz - 1\<rparr>"

definition zeroed_ring :: "'a ring" where
  "zeroed_ring =
     \<lparr>producer = 0, consumer = 0, ring_flags = 0, descs = [], ring_size = 0, ring_mask = 0\<rparr>"

definition zero_desc :: xdp_desc where
  "zero_desc = \<lparr>d_addr = 0, d_len = 0, d_options = 0\<rparr>"

record umem =
  area_len :: nat
  fill :: "u64 ring"
  comp :: "u64 ring"

definition umem_area_len :: nat where
  "umem_area_len =
     (let huge = 2 * 1024 * 1024 :: u64;
          raw_len = ucast (FRAME_COUNT * FRAME_SIZE) :: u64
      in unat ((raw_len + huge - 1) AND NOT (huge - 1)))"

definition frame_addrs :: "nat \<Rightarrow> nat \<Rightarrow> u64 list" where
  "frame_addrs a b = map (\<lambda>i. ucast (of_nat i * FRAME_SIZE :: u32)) [a..<b]"

definition umem_new ::
  "xsk_env \<Rightarrow> resource set \<Rightarrow> (xsk_error + umem \<times> u64 list) \<times> resource set" where
  "umem_new env live =
     (if \<not> e_mmap_huge env \<and> \<not> e_mmap_plain env then (Inl UmemMmap, live)
      else
        let live = insert UmemArea live
        in if \<not> e_umem_reg env then (Inl UmemReg, live - {UmemArea})
           else if \<not> e_fill_opt env then (Inl (UmemRingOpt False), live - {UmemArea})
           else if \<not> e_comp_opt env then (Inl (UmemRingOpt True), live - {UmemArea})
           else if \<not> e_umem_offsets env then (Inl MmapOffsets, live)
           else if \<not> e_fill_map env then (Inl AddrRingMmap, live - {UmemArea})
           else
             let live = insert FillMap live
             in if \<not> e_comp_map env then (Inl AddrRingMmap, live - {UmemArea})
                else
                  let live = insert CompMap live;
                      rx_addrs = frame_addrs 0 (unat RING_SIZE);
                      fill1 = snd (enqueue_batch (mapped_ring 0 RING_SIZE) rx_addrs);
                      tx_pool = frame_addrs (unat RING_SIZE) (unat FRAME_COUNT)
                  in (Inr (\<lparr>area_len = umem_area_len, fill = fill1, comp = mapped_ring 0 RING_SIZE\<rparr>,
                           tx_pool), live))"

definition umem_drop :: "resource set \<Rightarrow> resource set" where
  "umem_drop live = live - {UmemArea}"

definition mbind_mask :: "nat \<Rightarrow> u64 list option" where
  "mbind_mask node =
     (if 16 \<le> node div 64 then None
      else Some ((replicate 16 0)[node div 64 := push_bit (node mod 64) 1]))"

definition mbind_to_node :: "(u64 list \<Rightarrow> bool) \<Rightarrow> nat \<Rightarrow> bool" where
  "mbind_to_node sys_mbind node = (case mbind_mask node of None \<Rightarrow> False | Some m \<Rightarrow> sys_mbind m)"

section \<open>The AF\_XDP socket\<close>

record xsk_socket =
  xsk_umem :: umem
  xsk_rx :: "xdp_desc ring"
  xsk_tx :: "xdp_desc ring"
  xsk_tx_pool :: "u64 list"

definition create_xsk_socket ::
  "xsk_env \<Rightarrow> resource set \<Rightarrow> (xsk_error + xsk_socket) \<times> resource set" where
  "create_xsk_socket env live =
     (if \<not> e_socket env then (Inl SocketFailed, live)
      else
        case umem_new env (insert XskFd live) of
          (Inl e, live) \<Rightarrow> (Inl e, live - {XskFd})
        | (Inr (u, pool), live) \<Rightarrow>
            if \<not> e_rx_opt env then (Inl (XskRingOpt False), umem_drop (live - {XskFd}))
            else if \<not> e_tx_opt env then (Inl (XskRingOpt True), umem_drop (live - {XskFd}))
            else if \<not> e_xsk_offsets env then (Inl MmapOffsets, umem_drop live)
            else if \<not> e_rx_map env then (Inl DescRingMmap, umem_drop (live - {XskFd}))
            else
              let live = insert RxMap live
              in if \<not> e_tx_map env then (Inl DescRingMmap, umem_drop (live - {XskFd}))
                 else
                   let live = insert TxMap live
                   in if \<not> e_bind env then (Inl BindFailed, umem_drop (live - {XskFd}))
                      else (Inr \<lparr>xsk_umem = u, xsk_rx = mapped_ring zero_desc RING_SIZE,
                                  xsk_tx = mapped_ring zero_desc RING_SIZE, xsk_tx_pool = pool\<rparr>, live))"

definition extract_tx ::
  "xsk_socket \<Rightarrow> (xdp_desc ring \<times> u64 ring \<times> u64 list) \<times> xsk_socket" where
  "extract_tx s =
     ((xsk_tx s, comp (xsk_umem s), xsk_tx_pool s),
      s\<lparr>xsk_tx := zeroed_ring, xsk_umem := (xsk_umem s)\<lparr>comp := zeroed_ring\<rparr>, xsk_tx_pool := []\<rparr>)"

text \<open>Dropping a socket closes its descriptor and then drops its UMEM; the rings have no destructor.\<close>

definition xsk_drop :: "resource set \<Rightarrow> resource set" where
  "xsk_drop live = umem_drop (live - {XskFd})"

section \<open>The frames\<close>

text \<open>The ranges of frame numbers stay symbolic.\<close>

declare upt_rec_numeral [simp del]

lemma unat_frame_addr:
  assumes "i < 16384"
  shows "unat (ucast (of_nat i * FRAME_SIZE :: u32) :: u64) = i * 2048"
proof -
  have "unat (of_nat i * FRAME_SIZE :: u32) = i * 2048"
    using assms by (simp add: FRAME_SIZE_def unat_word_ariths unat_of_nat)
  then show ?thesis using assms by (simp only: unsigned_ucast_eq) (simp add: take_bit_eq_mod)
qed

lemma frame_addrs_eq:
  "b \<le> 16384 \<Longrightarrow> map unat (frame_addrs a b) = map (\<lambda>i. i * 2048) [a..<b]"
  by (simp add: frame_addrs_def unat_frame_addr)

lemma frame_addrs_append: "a \<le> b \<Longrightarrow> b \<le> c \<Longrightarrow> frame_addrs a b @ frame_addrs b c = frame_addrs a c"
  using upt_add_eq_append [of a b "c - b"] by (simp add: frame_addrs_def)

lemma frame_addrs_distinct:
  assumes "b \<le> 16384"
  shows "distinct (frame_addrs a b)"
proof -
  have "distinct (map (\<lambda>i. i * 2048) [a..<b])" by (simp add: distinct_map inj_on_def)
  then show ?thesis unfolding frame_addrs_eq [OF assms, symmetric] by (simp only: distinct_map)
qed

lemma umem_area_len_eq: "umem_area_len = 16384 * 2048"
  by (simp add: umem_area_len_def FRAME_COUNT_def FRAME_SIZE_def)

lemma mapped_ring_wf: "k < 32 \<Longrightarrow> sz = 2 ^ k \<Longrightarrow> ring_wf (mapped_ring z sz)"
  by (auto simp: ring_wf_def mapped_ring_def)

lemma mapped_ring_empty: "ring_contents (mapped_ring z sz) = []"
  by (simp add: mapped_ring_def ring_contents_def read_slots_def)

lemma fill_after_new:
  "ring_contents (snd (enqueue_batch (mapped_ring 0 RING_SIZE) (frame_addrs 0 (unat RING_SIZE)))) =
     frame_addrs 0 (unat RING_SIZE)"
proof -
  let ?r = "mapped_ring 0 RING_SIZE :: u64 ring" and ?xs = "frame_addrs 0 (unat RING_SIZE)"
  obtain n r' where p: "enqueue_batch ?r ?xs = (n, r')" by fastforce
  have wf: "ring_wf ?r" by (rule mapped_ring_wf [of 12]) (simp_all add: RING_SIZE_def)
  have "length ?xs = 4096" by (simp add: frame_addrs_def RING_SIZE_def)
  moreover have "ring_capacity ?r = 4096" by (simp add: ring_capacity_def mapped_ring_def RING_SIZE_def)
  ultimately show ?thesis
    using addr_fifo.push_law [OF wf p] p by (simp add: mapped_ring_empty)
qed

lemma umem_new_ok:
  assumes "umem_new env live = (Inr (u, pool), live')"
  shows "ring_contents (fill u) = frame_addrs 0 4096" "pool = frame_addrs 4096 16384"
    "area_len u = 16384 * 2048" "comp u = mapped_ring 0 4096"
    "live' = live \<union> {UmemArea, FillMap, CompMap}"
  using assms fill_after_new
  by (auto simp: umem_new_def RING_SIZE_def FRAME_COUNT_def umem_area_len_eq Let_def split: if_splits)

section \<open>Properties\<close>

text \<open>C15: The fill and completion rings are first-in first-out queues, for every history of batches and
  drains and also when the 32-bit counters wrap: what was in the ring followed by everything accepted is
  what was delivered followed by what is still in the ring.\<close>

theorem addr_ring_is_fifo:
  assumes "ring_wf r" and "fifo_run enqueue_batch dequeue_all r ops = (acc, del, r')"
  shows "ring_contents r @ acc = del @ ring_contents r' \<and> ring_wf r'"
  using addr_fifo.fifo_order [OF assms] by simp

definition wrapping_ring :: "u64 ring" where
  "wrapping_ring =
     \<lparr>producer = 0xFFFFFFFE, consumer = 0xFFFFFFFE, ring_flags = 0, descs = [0, 0, 0, 0],
      ring_size = 4, ring_mask = 3\<rparr>"

lemma wrapping_ring_wf: "ring_wf wrapping_ring"
  unfolding ring_wf_def wrapping_ring_def by (auto intro!: exI [of _ "2 :: nat"])

theorem addr_ring_is_fifo_witness:
  "\<exists>r'. fifo_run enqueue_batch dequeue_all wrapping_ring [Push [10, 20, 30], PopAll, Push [40]] =
      ([10, 20, 30, 40], [10, 20, 30], r') \<and> ring_contents r' = [40]"
proof -
  obtain r' where r': "fifo_run enqueue_batch dequeue_all wrapping_ring
      [Push [10, 20, 30], PopAll, Push [40]] = ([10, 20, 30, 40], [10, 20, 30], r')"
    by (simp add: enqueue_batch_def dequeue_all_def wrapping_ring_def write_slots_def read_slots_def
        slot_def upt_conv_Cons Let_def)
  have "ring_contents wrapping_ring = []"
    by (simp add: ring_contents_def read_slots_def wrapping_ring_def)
  with addr_ring_is_fifo [OF wrapping_ring_wf r'] r' show ?thesis by simp
qed

text \<open>Submitting to the transmit ring accepts exactly as many descriptors as there are free slots (so
  it never overwrites one the kernel has not consumed) and appends them in order; consuming
  the receive ring returns everything in it and leaves it empty.\<close>

theorem desc_ring_submit_and_consume:
  assumes "ring_wf r" and "produce_tx r ds = (n, r1)" and "consume_rx r1 = (out, r2)"
  shows "n = min (length ds) (ring_capacity r - length (ring_contents r)) \<and>
    ring_contents r1 = ring_contents r @ take n ds \<and> length (ring_contents r1) \<le> ring_capacity r \<and>
    out = ring_contents r @ take n ds \<and> ring_contents r2 = [] \<and> ring_wf r2"
  using desc_fifo.push_law [OF assms(1,2)] desc_fifo.pop_law [of r1 out r2] desc_fifo.wf_bounded [of r1] assms(3)
  by auto

theorem desc_ring_submit_and_consume_witness:
  "\<exists>n r1 out r2. produce_tx (mapped_ring zero_desc 4) (replicate 5 zero_desc) = (n, r1) \<and>
     consume_rx r1 = (out, r2) \<and> n = 4 \<and> length out = 4"
proof -
  let ?r = "mapped_ring zero_desc 4"
  have wf: "ring_wf ?r" by (rule mapped_ring_wf [of 2]) simp_all
  obtain n r1 where p: "produce_tx ?r (replicate 5 zero_desc) = (n, r1)" by fastforce
  obtain out r2 where c: "consume_rx r1 = (out, r2)" by fastforce
  have "ring_capacity ?r = 4" by (simp add: ring_capacity_def mapped_ring_def)
  with desc_ring_submit_and_consume [OF wf p c] p c show ?thesis by (simp add: mapped_ring_empty)
qed

text \<open>A new UMEM splits its 16384 frames: the 4096 frames posted to the fill ring and the frames of the
  transmit pool are disjoint, without duplicates, together all the frames, and each lies inside the
  mapped area.\<close>

theorem umem_frames_partition:
  assumes "umem_new env live = (Inr (u, pool), live')"
  shows "distinct (ring_contents (fill u) @ pool) \<and>
    unat ` set (ring_contents (fill u) @ pool) = (\<lambda>i. i * 2048) ` {..<16384} \<and>
    (\<forall>a \<in> set (ring_contents (fill u) @ pool). unat a + 2048 \<le> area_len u)"
proof -
  note ok = umem_new_ok [OF assms]
  have all: "ring_contents (fill u) @ pool = frame_addrs 0 16384"
    using ok(1,2) frame_addrs_append [of 0 4096 16384] by simp
  have "unat ` set (frame_addrs 0 16384) = set (map unat (frame_addrs 0 16384))" by simp
  also have "\<dots> = (\<lambda>i. i * 2048) ` {..<16384}"
    by (subst frame_addrs_eq) (auto simp: atLeast0LessThan)
  finally have img: "unat ` set (frame_addrs 0 16384) = (\<lambda>i. i * 2048) ` {..<16384}" .
  have "unat a + 2048 \<le> area_len u" if "a \<in> set (frame_addrs 0 16384)" for a
  proof -
    have "unat a \<in> (\<lambda>i. i * 2048) ` {..<16384}" using that img by blast
    then show ?thesis using ok(3) by auto
  qed
  then show ?thesis using all img frame_addrs_distinct [of 16384 0] by simp
qed

definition all_ok :: xsk_env where
  "all_ok =
     \<lparr>e_socket = True, e_mmap_huge = False, e_mmap_plain = True, e_umem_reg = True, e_fill_opt = True,
      e_comp_opt = True, e_umem_offsets = True, e_fill_map = True, e_comp_map = True, e_rx_opt = True,
      e_tx_opt = True, e_xsk_offsets = True, e_rx_map = True, e_tx_map = True, e_bind = True\<rparr>"

theorem umem_frames_partition_witness:
  "\<exists>u pool live. umem_new all_ok {} = (Inr (u, pool), live) \<and> distinct (ring_contents (fill u) @ pool)"
proof -
  obtain u pool live where n: "umem_new all_ok {} = (Inr (u, pool), live)"
    by (simp add: umem_new_def all_ok_def Let_def)
  from umem_frames_partition [OF n] n show ?thesis by blast
qed

text \<open>Creating the socket acquires the descriptor and all five mappings on success. On failure neither the
  descriptor nor the UMEM stays allocated, as long as both queries of the ring offsets succeed.\<close>

theorem create_xsk_socket_resources:
  assumes "create_xsk_socket env {} = (res, live)" and "e_umem_offsets env" and "e_xsk_offsets env"
  shows "case res of
      Inl e \<Rightarrow> XskFd \<notin> live \<and> UmemArea \<notin> live
    | Inr s \<Rightarrow> live = {XskFd, UmemArea, FillMap, CompMap, RxMap, TxMap}"
  using assms
  by (auto simp: create_xsk_socket_def umem_new_def umem_drop_def Let_def split: if_splits)

theorem create_xsk_socket_resources_witness:
  "\<exists>s. create_xsk_socket all_ok {} = (Inr s, {XskFd, UmemArea, FillMap, CompMap, RxMap, TxMap})"
proof -
  obtain res live where c: "create_xsk_socket all_ok {} = (res, live)" by fastforce
  then obtain s where "res = Inr s"
    by (auto simp: create_xsk_socket_def umem_new_def all_ok_def Let_def)
  with create_xsk_socket_resources [OF c] c show ?thesis by (simp add: all_ok_def)
qed

text \<open>A failing query of the ring offsets leaks: the first one leaves the 32 MiB UMEM mapped, the
  second one leaves the socket open; and a failure to map the completion ring leaves
  the fill ring mapped.\<close>

theorem offsets_failure_leaks:
  "snd (create_xsk_socket (all_ok\<lparr>e_umem_offsets := False\<rparr>) {}) = {UmemArea} \<and>
   XskFd \<in> snd (create_xsk_socket (all_ok\<lparr>e_xsk_offsets := False\<rparr>) {}) \<and>
   snd (create_xsk_socket (all_ok\<lparr>e_comp_map := False\<rparr>) {}) = {FillMap}"
  by (auto simp: create_xsk_socket_def umem_new_def umem_drop_def all_ok_def Let_def)

text \<open>A socket that is created and dropped leaves the mappings of its four rings behind.\<close>

theorem dropped_socket_keeps_rings:
  assumes "create_xsk_socket env {} = (Inr sock, live)"
  shows "xsk_drop live = {FillMap, CompMap, RxMap, TxMap}"
  using assms by (auto simp: create_xsk_socket_def umem_new_def umem_drop_def xsk_drop_def Let_def split: if_splits)

end
