(* ===== verification/Inflight.thy ===== *)
theory Inflight
  imports Prelude "HOL-Library.Log_Nat"
begin

text \<open>
  The three in-flight tables that match a response to its query: the lock-free table of the AF_XDP
  path (\<^verbatim>\<open>src/transport/xdp/receiver.rs\<close>), and the shared and the tagged table of
  \<^verbatim>\<open>src/transport/udp.rs\<close>. A slot holds the send time in nanoseconds, 0 when it is free; the
  clock is an argument. The locale \<open>inflight_table\<close> is the contract the workers rely on; each table
  is an interpretation of it.
\<close>

section \<open>The contract\<close>

text \<open>
  \<open>pending T qid\<close> is the send time of the outstanding query with that id. Inserting may evict other
  ids (the tagged table does), but it never invents one.
\<close>

locale inflight_table =
  fixes wf :: "'t \<Rightarrow> bool"
    and pending :: "'t \<Rightarrow> u16 \<Rightarrow> u64 option"
    and ins :: "u16 \<Rightarrow> u64 \<Rightarrow> 't \<Rightarrow> 't"
    and tak :: "u16 \<Rightarrow> u64 \<Rightarrow> 't \<Rightarrow> u64 option \<times> 't"
    and swp :: "u64 \<Rightarrow> u64 \<Rightarrow> 't \<Rightarrow> nat \<times> 't"
    and age :: "u64 \<Rightarrow> u64 \<Rightarrow> u64"
    and expired :: "u64 \<Rightarrow> u64 \<Rightarrow> u64 \<Rightarrow> bool"
  assumes ins_wf: "wf T \<Longrightarrow> wf (ins qid t T)"
    and ins_same: "wf T \<Longrightarrow> t \<noteq> 0 \<Longrightarrow> pending (ins qid t T) qid = Some t"
    and ins_other: "wf T \<Longrightarrow> j \<noteq> qid \<Longrightarrow> pending (ins qid t T) j \<in> {None, pending T j}"
    and tak_result: "wf T \<Longrightarrow> fst (tak qid now T) = map_option (age now) (pending T qid)"
    and tak_state: "wf T \<Longrightarrow> wf (snd (tak qid now T)) \<and>
      pending (snd (tak qid now T)) = (pending T)(qid := None)"
    and swp_state: "wf T \<Longrightarrow> wf (snd (swp now to T)) \<and>
      pending (snd (swp now to T)) j =
        (case pending T j of None \<Rightarrow> None | Some s \<Rightarrow> if expired now to s then None else Some s)"
    and swp_count: "wf T \<Longrightarrow>
      fst (swp now to T) = card {j. \<exists>s. pending T j = Some s \<and> expired now to s}"
begin

text \<open>A response is matched once: a duplicate finds nothing.\<close>

lemma tak_twice: "wf T \<Longrightarrow> fst (tak qid now' (snd (tak qid now T))) = None"
  using tak_state [of T qid now] tak_result [of "snd (tak qid now T)" qid now'] by simp

lemma ins_tak: "wf T \<Longrightarrow> t \<noteq> 0 \<Longrightarrow> fst (tak qid now (ins qid t T)) = Some (age now t)"
  using tak_result [OF ins_wf, of T qid now qid t] ins_same [of T t qid] by simp

lemma swp_twice: "wf T \<Longrightarrow> fst (swp now to (snd (swp now to T))) = 0"
proof -
  assume wf: "wf T"
  have "{j. \<exists>s. pending (snd (swp now to T)) j = Some s \<and> expired now to s} = {}"
    using swp_state [OF wf, of now to] by (auto split: option.splits if_splits)
  then show ?thesis using swp_count [of "snd (swp now to T)" now to] swp_state [OF wf, of now to] by simp
qed

end

section \<open>Direct-indexed tables\<close>

text \<open>One slot per 16-bit id.\<close>

type_synonym slots = "u64 list"

definition slots_wf :: "slots \<Rightarrow> bool" where
  "slots_wf T \<longleftrightarrow> length T = 65536"

definition slot_pending :: "slots \<Rightarrow> u16 \<Rightarrow> u64 option" where
  "slot_pending T qid = (let s = T ! unat qid in if s = 0 then None else Some s)"

definition slots_new :: slots where
  "slots_new = replicate 65536 0"

subsection \<open>AF\_XDP\<close>

definition xdp_insert :: "u16 \<Rightarrow> u64 \<Rightarrow> slots \<Rightarrow> slots" where
  "xdp_insert qid now_ns T = T[unat qid := max now_ns 1]"

definition xdp_take :: "u16 \<Rightarrow> u64 \<Rightarrow> slots \<Rightarrow> u64 option \<times> slots" where
  "xdp_take qid now_ns T =
     (let prev = T ! unat qid; T' = T[unat qid := 0]
      in if prev = 0 then (None, T') else (Some (sat_sub now_ns prev div 1000), T'))"

definition xdp_sweep_expired :: "u64 \<Rightarrow> u64 \<Rightarrow> slots \<Rightarrow> nat \<times> slots" where
  "xdp_sweep_expired now_ns timeout_ns T =
     (length (filter (\<lambda>v. v \<noteq> 0 \<and> timeout_ns < sat_sub now_ns v) T),
      map (\<lambda>v. if v \<noteq> 0 \<and> timeout_ns < sat_sub now_ns v then 0 else v) T)"

definition xdp_drain_all :: "slots \<Rightarrow> nat \<times> slots" where
  "xdp_drain_all T = (length (filter (\<lambda>v. v \<noteq> 0) T), map (\<lambda>_. 0) T)"

subsection \<open>Shared UDP table\<close>

definition shared_insert :: "u16 \<Rightarrow> u64 \<Rightarrow> slots \<Rightarrow> slots" where
  "shared_insert qid send_ns T = T[unat qid := max send_ns 1]"

definition shared_take :: "u16 \<Rightarrow> u64 \<Rightarrow> slots \<Rightarrow> u64 option \<times> slots" where
  "shared_take qid recv_ns T =
     (let s = T ! unat qid; T' = T[unat qid := 0]
      in (if s \<noteq> 0 then Some (sat_sub recv_ns s) else None, T'))"

definition shared_sweep :: "u64 \<Rightarrow> u64 \<Rightarrow> slots \<Rightarrow> nat \<times> slots" where
  "shared_sweep now_ns timeout_ns T =
     (length (filter (\<lambda>v. v \<noteq> 0 \<and> timeout_ns \<le> sat_sub now_ns v) T),
      map (\<lambda>v. if v \<noteq> 0 \<and> timeout_ns \<le> sat_sub now_ns v then 0 else v) T)"

section \<open>The tagged table\<close>

text \<open>Open addressing by the low bits of the id; the slot stores the id.\<close>

type_synonym tagged = "(u16 \<times> u64) list"

definition next_power_of_two :: "nat \<Rightarrow> nat" where
  "next_power_of_two n = (if n \<le> 1 then 1 else 2 ^ floorlog 2 (n - 1))"

definition tagged_new :: "nat \<Rightarrow> tagged" where
  "tagged_new capacity = replicate (max (next_power_of_two capacity) 256) (0, 0)"

definition tagged_index :: "tagged \<Rightarrow> u16 \<Rightarrow> nat" where
  "tagged_index T qid = unat qid AND (length T - 1)"

definition tagged_insert :: "u16 \<Rightarrow> u64 \<Rightarrow> tagged \<Rightarrow> u64 option \<times> tagged" where
  "tagged_insert qid now_ns T =
     (let i = tagged_index T qid; s = T ! i;
          evicted = (if snd s \<noteq> 0 \<and> fst s \<noteq> qid then Some (sat_sub now_ns (snd s) div 1000) else None)
      in (evicted, T[i := (qid, now_ns)]))"

definition tagged_take :: "u16 \<Rightarrow> u64 \<Rightarrow> tagged \<Rightarrow> u64 option \<times> tagged" where
  "tagged_take qid now_ns T =
     (let i = tagged_index T qid; s = T ! i
      in if snd s \<noteq> 0 \<and> fst s = qid then (Some (sat_sub now_ns (snd s)), T[i := (0, 0)])
         else (None, T))"

definition tagged_sweep :: "u64 \<Rightarrow> u64 \<Rightarrow> tagged \<Rightarrow> u64 list \<times> tagged" where
  "tagged_sweep now_ns timeout_ns T =
     (map (\<lambda>s. sat_sub now_ns (snd s) div 1000)
        (filter (\<lambda>s. snd s \<noteq> 0 \<and> timeout_ns \<le> sat_sub now_ns (snd s)) T),
      map (\<lambda>s. if snd s \<noteq> 0 \<and> timeout_ns \<le> sat_sub now_ns (snd s) then (0, 0) else s) T)"

definition tagged_drain :: "u64 \<Rightarrow> tagged \<Rightarrow> u64 list \<times> tagged" where
  "tagged_drain now_ns T =
     (map (\<lambda>s. sat_sub now_ns (snd s) div 1000) (filter (\<lambda>s. snd s \<noteq> 0) T),
      map (\<lambda>s. if snd s \<noteq> 0 then (0, 0) else s) T)"

section \<open>The direct-indexed tables satisfy the contract\<close>

lemma unat_u16_in [simp]: "slots_wf T \<Longrightarrow> unat qid < length T" for qid :: u16
  using unat_u16_less [of qid] by (simp add: slots_wf_def)

lemma max_1_neq_0 [simp]: "max t 1 \<noteq> (0 :: u64)"
  by (auto simp: max_def word_le_nat_alt)

lemma max_1_eq: "t \<noteq> 0 \<Longrightarrow> max t 1 = (t :: u64)"
  by (simp add: max_def word_le_nat_alt word_unat_eq_iff)

lemma slots_update_pending:
  assumes "slots_wf T"
  shows "slots_wf (T[unat qid := v])"
    and "slot_pending (T[unat qid := v]) =
      (slot_pending T)(qid := if v = 0 then None else Some v)"
proof -
  show "slots_wf (T[unat qid := v])" using assms by (simp add: slots_wf_def)
  show "slot_pending (T[unat qid := v]) = (slot_pending T)(qid := if v = 0 then None else Some v)"
  proof (rule ext)
    fix j
    show "slot_pending (T[unat qid := v]) j = ((slot_pending T)(qid := if v = 0 then None else Some v)) j"
      using assms by (cases "j = qid") (simp_all add: slot_pending_def word_unat_eq_iff nth_list_update)
  qed
qed

lemma count_slots:
  assumes "slots_wf T" and "\<not> P 0"
  shows "length (filter P T) = card {j. \<exists>s. slot_pending T j = Some s \<and> P s}"
proof -
  have "{i. i < length T \<and> P (T ! i)} = unat ` {j :: u16. \<exists>s. slot_pending T j = Some s \<and> P s}"
  proof (intro set_eqI iffI)
    fix i
    assume "i \<in> {i. i < length T \<and> P (T ! i)}"
    then have i: "i < 65536" "P (T ! i)" using assms(1) by (simp_all add: slots_wf_def)
    then have "unat (of_nat i :: u16) = i" by (simp add: unat_of_nat)
    moreover have "T ! i \<noteq> 0" using i assms(2) by metis
    ultimately have "slot_pending T (of_nat i) = Some (T ! i)" by (simp add: slot_pending_def)
    then show "i \<in> unat ` {j :: u16. \<exists>s. slot_pending T j = Some s \<and> P s}"
      using i \<open>unat (of_nat i) = i\<close> by (intro image_eqI [of _ _ "of_nat i"]) auto
  next
    fix i
    assume "i \<in> unat ` {j :: u16. \<exists>s. slot_pending T j = Some s \<and> P s}"
    then show "i \<in> {i. i < length T \<and> P (T ! i)}"
      using assms(1) by (auto simp: slot_pending_def Let_def split: if_splits)
  qed
  moreover have "card (unat ` {j :: u16. \<exists>s. slot_pending T j = Some s \<and> P s}) =
      card {j :: u16. \<exists>s. slot_pending T j = Some s \<and> P s}"
    by (rule card_image) (simp add: inj_on_def word_unat_eq_iff)
  ultimately show ?thesis by (simp add: length_filter_conv_card)
qed

lemma sweep_slots_pending:
  assumes "slots_wf T"
  shows "slots_wf (map (\<lambda>v. if v \<noteq> 0 \<and> P v then 0 else v) T)"
    and "slot_pending (map (\<lambda>v. if v \<noteq> 0 \<and> P v then 0 else v) T) j =
      (case slot_pending T j of None \<Rightarrow> None | Some s \<Rightarrow> if P s then None else Some s)"
proof -
  show "slots_wf (map (\<lambda>v. if v \<noteq> 0 \<and> P v then 0 else v) T)" using assms by (simp add: slots_wf_def)
  have "unat j < length T" using assms by simp
  then show "slot_pending (map (\<lambda>v. if v \<noteq> 0 \<and> P v then 0 else v) T) j =
      (case slot_pending T j of None \<Rightarrow> None | Some s \<Rightarrow> if P s then None else Some s)"
    by (simp add: slot_pending_def Let_def)
qed

interpretation xdp_table: inflight_table slots_wf slot_pending xdp_insert xdp_take xdp_sweep_expired
  "\<lambda>now s. sat_sub now s div 1000" "\<lambda>now to s. to < sat_sub now s"
proof unfold_locales
  show "fst (xdp_sweep_expired now to T) = card {j. \<exists>s. slot_pending T j = Some s \<and> to < sat_sub now s}"
    if "slots_wf T" for T now to
    using count_slots [OF that, of "\<lambda>v. v \<noteq> 0 \<and> to < sat_sub now v"]
    by (auto simp: xdp_sweep_expired_def slot_pending_def Let_def intro!: arg_cong [of _ _ card])
qed (auto simp: xdp_insert_def xdp_take_def xdp_sweep_expired_def slots_update_pending
    sweep_slots_pending max_1_eq slot_pending_def [of _ qid for qid] Let_def)

interpretation shared_table: inflight_table slots_wf slot_pending shared_insert shared_take shared_sweep
  "\<lambda>now s. sat_sub now s" "\<lambda>now to s. to \<le> sat_sub now s"
proof unfold_locales
  show "fst (shared_sweep now to T) = card {j. \<exists>s. slot_pending T j = Some s \<and> to \<le> sat_sub now s}"
    if "slots_wf T" for T now to
    using count_slots [OF that, of "\<lambda>v. v \<noteq> 0 \<and> to \<le> sat_sub now v"]
    by (auto simp: shared_sweep_def slot_pending_def Let_def intro!: arg_cong [of _ _ card])
qed (auto simp: shared_insert_def shared_take_def shared_sweep_def slots_update_pending
    sweep_slots_pending max_1_eq slot_pending_def [of _ qid for qid] Let_def)

section \<open>The tagged table satisfies the contract\<close>

definition tagged_pending :: "tagged \<Rightarrow> u16 \<Rightarrow> u64 option" where
  "tagged_pending T qid =
     (let s = T ! tagged_index T qid in if snd s \<noteq> 0 \<and> fst s = qid then Some (snd s) else None)"

definition tagged_wf :: "tagged \<Rightarrow> bool" where
  "tagged_wf T \<longleftrightarrow>
     (\<exists>k. length T = 2 ^ k) \<and>
     (\<forall>i < length T. snd (T ! i) \<noteq> 0 \<longrightarrow> tagged_index T (fst (T ! i)) = i)"

lemma tagged_index_less:
  assumes "tagged_wf T"
  shows "tagged_index T qid < length T"
proof -
  obtain k where k: "length T = 2 ^ k" using assms by (auto simp: tagged_wf_def)
  have "unat qid AND (2 ^ k - 1) = take_bit k (unat qid)"
    by (simp add: take_bit_eq_mask mask_eq_exp_minus_1)
  then show ?thesis by (simp add: tagged_index_def k)
qed

lemma tagged_index_update [simp]: "tagged_index (T[i := v]) qid = tagged_index T qid"
  by (simp add: tagged_index_def)

lemma tagged_index_map [simp]: "tagged_index (map f T) qid = tagged_index T qid"
  by (simp add: tagged_index_def)

lemma tagged_new_wf: "tagged_wf (tagged_new n)"
proof -
  have "\<exists>k. max (next_power_of_two n) 256 = 2 ^ k"
  proof (cases "next_power_of_two n \<le> 256")
    case True
    then have "max (next_power_of_two n) 256 = 2 ^ 8" by simp
    then show ?thesis by blast
  next
    case False
    then have "max (next_power_of_two n) 256 = 2 ^ floorlog 2 (n - 1)"
      by (simp add: next_power_of_two_def split: if_splits)
    then show ?thesis by blast
  qed
  then show ?thesis by (auto simp: tagged_wf_def tagged_new_def)
qed

lemma tagged_update_wf:
  assumes "tagged_wf T" and "v = (qid, t) \<or> v = (0, 0)"
  shows "tagged_wf (T[tagged_index T qid := v])"
  using assms tagged_index_less [OF assms(1), of qid]
  by (auto simp: tagged_wf_def nth_list_update)

lemma tagged_insert_pending:
  assumes "tagged_wf T"
  shows "tagged_pending (snd (tagged_insert qid t T)) j =
    (if j = qid then if t = 0 then None else Some t
     else if tagged_index T j = tagged_index T qid then None else tagged_pending T j)"
  using tagged_index_less [OF assms]
  by (auto simp: tagged_insert_def tagged_pending_def nth_list_update Let_def)

lemma tagged_take_pending:
  assumes "tagged_wf T"
  shows "tagged_pending (snd (tagged_take qid now T)) = (tagged_pending T)(qid := None)"
proof (rule ext)
  fix j
  show "tagged_pending (snd (tagged_take qid now T)) j = ((tagged_pending T)(qid := None)) j"
    using tagged_index_less [OF assms]
    by (auto simp: tagged_take_def tagged_pending_def nth_list_update Let_def)
qed

lemma tagged_sweep_pending:
  assumes "tagged_wf T"
  shows "tagged_pending (map (\<lambda>s. if snd s \<noteq> 0 \<and> P (snd s) then (0, 0) else s) T) j =
    (case tagged_pending T j of None \<Rightarrow> None | Some s \<Rightarrow> if P s then None else Some s)"
  using tagged_index_less [OF assms, of j] by (simp add: tagged_pending_def Let_def)

lemma tagged_sweep_wf:
  "tagged_wf T \<Longrightarrow> tagged_wf (map (\<lambda>s. if snd s \<noteq> 0 \<and> P (snd s) then (0, 0) else s) T)"
  by (auto simp: tagged_wf_def)

lemma tagged_pending_iff:
  "tagged_pending T j = Some s \<longleftrightarrow> T ! tagged_index T j = (j, s) \<and> s \<noteq> 0"
  by (cases "T ! tagged_index T j") (auto simp: tagged_pending_def Let_def)

lemma tagged_occupied:
  assumes "tagged_wf T"
  shows "{i. i < length T \<and> snd (T ! i) \<noteq> 0 \<and> P (snd (T ! i))} =
    tagged_index T ` {j. \<exists>s. tagged_pending T j = Some s \<and> P s}" (is "?L = _ ` ?J")
proof (rule equalityI; rule subsetI)
  fix i
  assume "i \<in> ?L"
  then have i: "i < length T" "snd (T ! i) \<noteq> 0" "P (snd (T ! i))" by simp_all
  then have x: "tagged_index T (fst (T ! i)) = i" using assms by (simp add: tagged_wf_def)
  then have "tagged_pending T (fst (T ! i)) = Some (snd (T ! i))"
    using i by (simp add: tagged_pending_iff)
  then have "fst (T ! i) \<in> ?J" using i(3) by blast
  then show "i \<in> tagged_index T ` ?J" using x by (rule rev_image_eqI [OF _ sym])
next
  fix i
  assume "i \<in> tagged_index T ` ?J"
  then obtain j s where "i = tagged_index T j" "tagged_pending T j = Some s" "P s" by blast
  then show "i \<in> ?L" using tagged_index_less [OF assms, of j] by (simp add: tagged_pending_iff)
qed

lemma count_tagged:
  assumes "tagged_wf T"
  shows "length (filter (\<lambda>s. snd s \<noteq> 0 \<and> P (snd s)) T) =
    card {j. \<exists>s. tagged_pending T j = Some s \<and> P s}" (is "_ = card ?J")
proof -
  have "inj_on (tagged_index T) ?J"
  proof (rule inj_onI)
    fix a b
    assume "a \<in> ?J" "b \<in> ?J" and eq: "tagged_index T a = tagged_index T b"
    then obtain s s' where "T ! tagged_index T a = (a, s)" "T ! tagged_index T b = (b, s')"
      unfolding tagged_pending_iff by blast
    then have "(a, s) = (b, s')" unfolding eq by (rule trans [OF sym])
    then show "a = b" by (rule Pair_inject)
  qed
  then have "card (tagged_index T ` ?J) = card ?J" by (rule card_image)
  then show ?thesis unfolding length_filter_conv_card tagged_occupied [OF assms] .
qed

interpretation tagged_table: inflight_table tagged_wf tagged_pending
  "\<lambda>qid t T. snd (tagged_insert qid t T)" tagged_take
  "\<lambda>now to T. map_prod length (\<lambda>T. T) (tagged_sweep now to T)"
  "\<lambda>now s. sat_sub now s" "\<lambda>now to s. to \<le> sat_sub now s"
proof unfold_locales
  fix T qid t now to j
  assume wf: "tagged_wf T"
  show "tagged_wf (snd (tagged_insert qid t T))"
    using tagged_update_wf [OF wf, of "(qid, t)" qid t] by (simp add: tagged_insert_def Let_def)
  show "t \<noteq> 0 \<Longrightarrow> tagged_pending (snd (tagged_insert qid t T)) qid = Some t"
    "j \<noteq> qid \<Longrightarrow> tagged_pending (snd (tagged_insert qid t T)) j \<in> {None, tagged_pending T j}"
    by (simp_all add: tagged_insert_pending [OF wf])
  show "fst (tagged_take qid now T) = map_option (sat_sub now) (tagged_pending T qid)"
    by (simp add: tagged_take_def tagged_pending_def Let_def)
  show "tagged_wf (snd (tagged_take qid now T)) \<and>
      tagged_pending (snd (tagged_take qid now T)) = (tagged_pending T)(qid := None)"
    using tagged_update_wf [OF wf, of "(0, 0)" qid 0] tagged_take_pending [OF wf] wf
    by (simp add: tagged_take_def Let_def)
  show "tagged_wf (snd (map_prod length (\<lambda>T. T) (tagged_sweep now to T))) \<and>
      tagged_pending (snd (map_prod length (\<lambda>T. T) (tagged_sweep now to T))) j =
        (case tagged_pending T j of None \<Rightarrow> None | Some s \<Rightarrow> if to \<le> sat_sub now s then None else Some s)"
    using tagged_sweep_pending [OF wf, of "\<lambda>s. to \<le> sat_sub now s"]
      tagged_sweep_wf [OF wf, of "\<lambda>s. to \<le> sat_sub now s"] by (simp add: tagged_sweep_def)
  show "fst (map_prod length (\<lambda>T. T) (tagged_sweep now to T)) =
      card {j. \<exists>s. tagged_pending T j = Some s \<and> to \<le> sat_sub now s}"
    using count_tagged [OF wf, of "\<lambda>s. to \<le> sat_sub now s"] by (simp add: tagged_sweep_def)
qed

lemma slots_new_wf: "slots_wf slots_new"
  unfolding slots_wf_def slots_new_def by (rule length_replicate)

lemma xdp_drain_pending:
  assumes "slots_wf T"
  shows "fst (xdp_drain_all T) = card {j. slot_pending T j \<noteq> None}"
    and "slot_pending (snd (xdp_drain_all T)) = (\<lambda>j. None)"
proof -
  have "{j. \<exists>s. slot_pending T j = Some s \<and> s \<noteq> 0} = {j. slot_pending T j \<noteq> None}"
    by (auto simp: slot_pending_def Let_def split: if_splits)
  then show "fst (xdp_drain_all T) = card {j. slot_pending T j \<noteq> None}"
    using count_slots [OF assms, of "\<lambda>v. v \<noteq> 0"] by (simp add: xdp_drain_all_def)
  show "slot_pending (snd (xdp_drain_all T)) = (\<lambda>j. None)"
    using assms by (simp add: xdp_drain_all_def slot_pending_def fun_eq_iff Let_def)
qed

section \<open>Properties\<close>

text \<open>The lock-free table of the AF\_XDP path: a reply to a registered id is matched once with the elapsed
  microseconds (a duplicate finds nothing), no other id is disturbed, a sweep frees and counts exactly
  the ids older than the timeout, and the final drain frees and counts everything outstanding.\<close>

theorem xdp_inflight_contract:
  assumes "slots_wf T"
  shows "fst (xdp_take qid now (xdp_insert qid t T)) = Some (sat_sub now (max t 1) div 1000) \<and>
    fst (xdp_take qid now' (snd (xdp_take qid now T))) = None \<and>
    (\<forall>j. j = qid \<or> slot_pending (xdp_insert qid t T) j = slot_pending T j) \<and>
    (let (n, T') = xdp_sweep_expired now timeout T in
       n = card {j. \<exists>s. slot_pending T j = Some s \<and> timeout < sat_sub now s} \<and>
       fst (xdp_drain_all T') + n = card {j. slot_pending T j \<noteq> None})"
proof -
  have ins: "xdp_insert qid t T = xdp_insert qid (max t 1) T" by (simp add: xdp_insert_def)
  have 1: "fst (xdp_take qid now (xdp_insert qid t T)) = Some (sat_sub now (max t 1) div 1000)"
    unfolding ins using xdp_table.ins_tak [OF assms, of "max t 1"] by simp
  have 2: "slot_pending (xdp_insert qid t T) j = slot_pending T j" if "j \<noteq> qid" for j
    using that slots_update_pending(2) [OF assms] by (simp add: xdp_insert_def)
  let ?T = "snd (xdp_sweep_expired now timeout T)"
  define E where "E = {j. \<exists>s. slot_pending T j = Some s \<and> timeout < sat_sub now s}"
  define P where "P = {j. slot_pending T j \<noteq> None}"
  have wf: "slots_wf ?T" using xdp_table.swp_state [OF assms] by blast
  have "{j. slot_pending ?T j \<noteq> None} = P - E"
    using xdp_table.swp_state [OF assms, of now timeout]
    by (auto simp: P_def E_def split: option.splits if_splits)
  moreover have sub: "E \<subseteq> P" by (auto simp: P_def E_def)
  moreover have "finite E" by simp
  ultimately have 3: "fst (xdp_drain_all ?T) + card E = card P"
    using xdp_drain_pending(1) [OF wf] card_Diff_subset [OF _ sub] card_mono [OF _ sub] by simp
  have 4: "fst (xdp_sweep_expired now timeout T) = card E"
    using xdp_table.swp_count [OF assms, of now timeout] by (simp only: E_def)
  show ?thesis
    unfolding E_def [symmetric] P_def [symmetric] split_def Let_def
    using 1 2 3 4 xdp_table.tak_twice [OF assms] by auto
qed

theorem xdp_inflight_contract_witness:
  "fst (xdp_take 7 5000000 (xdp_insert 7 1000000 slots_new)) = Some 4000"
  using xdp_inflight_contract [OF slots_new_wf, of 7 5000000 1000000]
  by (simp add: sat_sub_def max_def word_le_nat_alt)

text \<open>The tagged table of the single-thread UDP worker: an insert reports an eviction exactly when
  another outstanding id is displaced, so the outstanding ids before the insert and the new one are,
  without the displaced id, the outstanding ids after it.\<close>

theorem tagged_insert_accounts_evictions:
  assumes "tagged_wf T" and "t \<noteq> 0" and "tagged_pending T qid = None"
  shows "card {j. tagged_pending (snd (tagged_insert qid t T)) j \<noteq> None} +
      (if fst (tagged_insert qid t T) = None then 0 else 1) =
    card {j. tagged_pending T j \<noteq> None} + 1"
proof -
  let ?i = "tagged_index T qid"
  define P where "P = {j. tagged_pending T j \<noteq> None}"
  define C where "C = {j \<in> P. tagged_index T j = ?i}"
  have q: "qid \<notin> P" using assms(3) by (simp add: P_def)
  have after: "{j. tagged_pending (snd (tagged_insert qid t T)) j \<noteq> None} = insert qid (P - C)"
    using assms(2) q by (auto simp: tagged_insert_pending [OF assms(1)] P_def C_def)
  have "C \<subseteq> {fst (T ! ?i)}" by (auto simp: P_def C_def tagged_pending_def Let_def split: if_splits)
  moreover have "fst (T ! ?i) \<in> C \<longleftrightarrow> snd (T ! ?i) \<noteq> 0"
    using assms(1) tagged_index_less [OF assms(1), of qid]
    by (auto simp: P_def C_def tagged_wf_def tagged_pending_def Let_def)
  ultimately have cC: "card C = (if snd (T ! ?i) \<noteq> 0 then 1 else 0)"
    by (cases "C = {}") (auto simp: subset_singleton_iff)
  have e: "fst (tagged_insert qid t T) = None \<longleftrightarrow> snd (T ! ?i) = 0"
    using assms(3) by (auto simp: tagged_insert_def tagged_pending_def Let_def split: if_splits)
  have sub: "C \<subseteq> P" by (auto simp: C_def)
  have "card (insert qid (P - C)) = Suc (card P - card C)"
    using q card_Diff_subset [OF _ sub] by simp
  moreover have "card C \<le> card P" using card_mono [OF _ sub] by simp
  ultimately have "card (insert qid (P - C)) + card C = card P + 1" by simp
  then show ?thesis unfolding after P_def [symmetric] using cC e
    by (cases "snd (T ! ?i) = 0") simp_all
qed

theorem tagged_insert_accounts_evictions_witness:
  "card {j. tagged_pending (snd (tagged_insert 5 1000 (tagged_new 64))) j \<noteq> None} +
     (if fst (tagged_insert 5 1000 (tagged_new 64)) = None then 0 else 1) =
   card {j. tagged_pending (tagged_new 64) j \<noteq> None} + 1"
proof (rule tagged_insert_accounts_evictions [OF tagged_new_wf])
  show "tagged_pending (tagged_new 64) 5 = None"
    using tagged_index_less [OF tagged_new_wf, of 64 5]
    by (simp add: tagged_pending_def tagged_new_def Let_def)
qed simp

end
