(* ===== verification/Stats.thy ===== *)
theory Stats
  imports Rust_Float
begin

text \<open>
  The statistics collector (\<^verbatim>\<open>src/stats/mod.rs\<close>, \<^verbatim>\<open>src/stats/snapshot.rs\<close>). The atomic
  counters are 64-bit words that wrap; the monotone clock is an argument (nanoseconds since the
  collector was created). The latency histogram is the hdrhistogram package: its operations are a
  record of functions, and what the program relies on is the predicate \<open>hist_laws\<close>. The
  compare-and-swap loop that keeps the in-flight maximum is also given as a step relation of
  interleaved threads.
\<close>

section \<open>The histogram interface\<close>

record 'h hist_ops =
  h_new :: 'h
  h_record :: "u64 \<Rightarrow> 'h \<Rightarrow> 'h"
  h_clear :: "'h \<Rightarrow> 'h"
  h_len :: "'h \<Rightarrow> u64"
  h_min :: "'h \<Rightarrow> u64"
  h_mean :: "'h \<Rightarrow> f64"
  h_max :: "'h \<Rightarrow> u64"
  h_quantile :: "f64 \<Rightarrow> 'h \<Rightarrow> u64"

definition h_is_empty :: "'h hist_ops \<Rightarrow> 'h \<Rightarrow> bool" where
  "h_is_empty H h \<longleftrightarrow> h_len H h = 0"

definition hist_laws :: "'h hist_ops \<Rightarrow> bool" where
  "hist_laws H \<longleftrightarrow>
     h_len H (h_new H) = 0 \<and>
     (\<forall>h. h_len H (h_clear H h) = 0) \<and>
     (\<forall>h v. 1 \<le> v \<longrightarrow> v \<le> 60000000 \<longrightarrow> h_len H (h_record H v h) = h_len H h + 1) \<and>
     (\<forall>h p q. f_le p q \<longrightarrow> h_quantile H p h \<le> h_quantile H q h) \<and>
     (\<forall>h q. h_len H h \<noteq> 0 \<longrightarrow> h_min H h \<le> h_quantile H q h \<and> h_quantile H q h \<le> h_max H h)"

section \<open>The collector\<close>

record 'h stats =
  sent :: u64
  completed :: u64
  timeouts :: u64
  errors :: u64
  rcode_noerror :: u64
  rcode_nxdomain :: u64
  rcode_servfail :: u64
  rcode_refused :: u64
  rcode_other :: u64
  histogram :: 'h
  inflight_sum :: u64
  inflight_count :: u64
  inflight_max :: u64
  last_egress_ns :: u64
  window_start_ns :: u64

definition stats_new :: "'h hist_ops \<Rightarrow> 'h stats" where
  "stats_new H =
     \<lparr>sent = 0, completed = 0, timeouts = 0, errors = 0, rcode_noerror = 0, rcode_nxdomain = 0,
      rcode_servfail = 0, rcode_refused = 0, rcode_other = 0, histogram = h_new H,
      inflight_sum = 0, inflight_count = 0, inflight_max = 0, last_egress_ns = 0,
      window_start_ns = 0\<rparr>"

definition inc_sent :: "'h stats \<Rightarrow> 'h stats" where
  "inc_sent s = s\<lparr>sent := sent s + 1\<rparr>"

definition inc_sent_n :: "u64 \<Rightarrow> nat \<Rightarrow> 'h stats \<Rightarrow> 'h stats" where
  "inc_sent_n now_ns n s = s\<lparr>sent := sent s + of_nat n, last_egress_ns := now_ns\<rparr>"

definition reset_window :: "'h hist_ops \<Rightarrow> u64 \<Rightarrow> 'h stats \<Rightarrow> 'h stats" where
  "reset_window H now_ns s =
     s\<lparr>window_start_ns := now_ns, sent := 0, completed := 0, timeouts := 0, errors := 0,
       rcode_noerror := 0, rcode_nxdomain := 0, rcode_servfail := 0, rcode_refused := 0,
       rcode_other := 0, inflight_sum := 0, inflight_count := 0, inflight_max := 0,
       histogram := h_clear H (histogram s)\<rparr>"

definition inc_timeout :: "'h stats \<Rightarrow> 'h stats" where
  "inc_timeout s = s\<lparr>timeouts := timeouts s + 1\<rparr>"

definition inc_error :: "'h stats \<Rightarrow> 'h stats" where
  "inc_error s = s\<lparr>errors := errors s + 1\<rparr>"

definition record_rcodes :: "u64 \<Rightarrow> u64 \<Rightarrow> u64 \<Rightarrow> u64 \<Rightarrow> u64 \<Rightarrow> 'h stats \<Rightarrow> 'h stats" where
  "record_rcodes noerror nxdomain servfail refused other s =
     (let n = noerror + nxdomain + servfail + refused + other
      in if n = 0 then s
         else
           let s = s\<lparr>completed := completed s + n\<rparr>;
               s = (if 0 < noerror then s\<lparr>rcode_noerror := rcode_noerror s + noerror\<rparr> else s);
               s = (if 0 < nxdomain then s\<lparr>rcode_nxdomain := rcode_nxdomain s + nxdomain\<rparr> else s);
               s = (if 0 < servfail then s\<lparr>rcode_servfail := rcode_servfail s + servfail\<rparr> else s);
               s = (if 0 < refused then s\<lparr>rcode_refused := rcode_refused s + refused\<rparr> else s)
           in if 0 < other then s\<lparr>rcode_other := rcode_other s + other\<rparr> else s)"

text \<open>The uncontended run of the compare-and-swap loop stores the maximum.\<close>

definition record_inflight :: "nat \<Rightarrow> 'h stats \<Rightarrow> 'h stats" where
  "record_inflight current s =
     (let v = of_nat current;
          s = s\<lparr>inflight_sum := inflight_sum s + v, inflight_count := inflight_count s + 1\<rparr>;
          old = inflight_max s
      in if old < v then s\<lparr>inflight_max := v\<rparr> else s)"

definition record_latency_us :: "'h hist_ops \<Rightarrow> u64 \<Rightarrow> 'h stats \<Rightarrow> 'h stats" where
  "record_latency_us H rtt_us s = s\<lparr>histogram := h_record H (max rtt_us 1) (histogram s)\<rparr>"

definition record_response :: "'h hist_ops \<Rightarrow> u8 \<Rightarrow> u64 \<Rightarrow> 'h stats \<Rightarrow> 'h stats" where
  "record_response H rcode rtt_us s =
     (let s = s\<lparr>completed := completed s + 1\<rparr>;
          s = (if rcode = 0 then s\<lparr>rcode_noerror := rcode_noerror s + 1\<rparr>
               else if rcode = 3 then s\<lparr>rcode_nxdomain := rcode_nxdomain s + 1\<rparr>
               else if rcode = 2 then s\<lparr>rcode_servfail := rcode_servfail s + 1\<rparr>
               else if rcode = 5 then s\<lparr>rcode_refused := rcode_refused s + 1\<rparr>
               else s\<lparr>rcode_other := rcode_other s + 1\<rparr>)
      in s\<lparr>histogram := h_record H (max rtt_us 1) (histogram s)\<rparr>)"

definition ramp_step_latency :: "'h hist_ops \<Rightarrow> 'h stats \<Rightarrow> (u64 \<times> u64 \<times> u64 \<times> u64) \<times> 'h stats" where
  "ramp_step_latency H s =
     (let h = histogram s;
          out = (if h_is_empty H h then (0, 0, 0, 0)
                 else (h_quantile H (f_lit (1 / 2)) h, h_quantile H (f_lit (95 / 100)) h,
                       h_quantile H (f_lit (99 / 100)) h, h_len H h))
      in (out, s\<lparr>histogram := h_clear H h\<rparr>))"

section \<open>Snapshots\<close>

record stats_snapshot =
  queries_sent :: u64
  queries_completed :: u64
  queries_lost :: u64
  snap_noerror :: u64
  snap_nxdomain :: u64
  snap_servfail :: u64
  snap_refused :: u64
  snap_other :: u64
  run_time_s :: f64
  send_qps :: f64
  avg_qps :: f64
  min_us :: u64
  avg_us :: f64
  p50_us :: u64
  p95_us :: u64
  p99_us :: u64
  p999_us :: u64
  max_us :: u64
  inflight_mean :: f64
  snap_inflight_max :: u64
  wire_qps :: "f64 option"
  server_rx_qps :: "f64 option"
  server_rx_avg_bytes :: "f64 option"
  link_mbps :: "u64 option"
  ramp_capacity :: "f64 option"

definition snapshot_send_qps :: "'h stats \<Rightarrow> f64 \<Rightarrow> f64" where
  "snapshot_send_qps s elapsed =
     (let last_ns = last_egress_ns s; win0 = window_start_ns s
      in if win0 < last_ns then
           let egress_secs = f_div (f_of_u64 (last_ns - win0)) (Fin 1000000000)
           in if f_lt (f_lit (1 / 10)) egress_secs then f_div (f_of_u64 (sent s)) egress_secs
              else f_div (f_of_u64 (sent s)) elapsed
         else if f_lt (Fin 0) elapsed then f_div (f_of_u64 (sent s)) elapsed else Fin 0)"

definition snapshot :: "'h hist_ops \<Rightarrow> f64 \<Rightarrow> 'h stats \<Rightarrow> stats_snapshot" where
  "snapshot H elapsed s =
     (let h = histogram s;
          (mn, av, p50, p95, p99, p999, mx) =
            (if \<not> h_is_empty H h then
               (h_min H h, h_mean H h, h_quantile H (f_lit (1 / 2)) h,
                h_quantile H (f_lit (95 / 100)) h, h_quantile H (f_lit (99 / 100)) h,
                h_quantile H (f_lit (999 / 1000)) h, h_max H h)
             else (0, Fin 0, 0, 0, 0, 0, 0))
      in \<lparr>queries_sent = sent s, queries_completed = completed s,
          queries_lost = sat_sub (sent s) (completed s),
          snap_noerror = rcode_noerror s, snap_nxdomain = rcode_nxdomain s,
          snap_servfail = rcode_servfail s, snap_refused = rcode_refused s,
          snap_other = rcode_other s, run_time_s = elapsed,
          send_qps = snapshot_send_qps s elapsed,
          avg_qps = (if f_lt (Fin 0) elapsed then f_div (f_of_u64 (completed s)) elapsed else Fin 0),
          min_us = mn, avg_us = av, p50_us = p50, p95_us = p95, p99_us = p99, p999_us = p999,
          max_us = mx,
          inflight_mean = (if 0 < inflight_count s
                           then f_div (f_of_u64 (inflight_sum s)) (f_of_u64 (inflight_count s))
                           else Fin 0),
          snap_inflight_max = inflight_max s, wire_qps = None, server_rx_qps = None,
          server_rx_avg_bytes = None, link_mbps = None, ramp_capacity = None\<rparr>)"

section \<open>The counters agree\<close>

text \<open>Completions are the sum of the response codes, modulo the wrap-around of the counters.\<close>

definition stats_consistent :: "'h stats \<Rightarrow> bool" where
  "stats_consistent s \<longleftrightarrow>
     completed s = rcode_noerror s + rcode_nxdomain s + rcode_servfail s + rcode_refused s + rcode_other s"

named_theorems stats_ops \<open>the operations that write the counters\<close>

lemmas stats_op_defs [stats_ops] =
  inc_sent_def inc_sent_n_def reset_window_def inc_timeout_def inc_error_def
  record_inflight_def record_latency_us_def record_response_def ramp_step_latency_def Let_def

lemma stats_new_consistent [simp]: "stats_consistent (stats_new H)"
  by (simp add: stats_consistent_def stats_new_def)

lemma record_response_consistent [simp]:
  "stats_consistent s \<Longrightarrow> stats_consistent (record_response H rc rtt s)"
  by (simp add: stats_consistent_def record_response_def Let_def algebra_simps)

lemma record_rcodes_eq:
  fixes s :: "'h stats"
  shows "record_rcodes a b c d e s =
     (if a + b + c + d + e = 0 then s
      else s\<lparr>completed := completed s + (a + b + c + d + e), rcode_noerror := rcode_noerror s + a,
             rcode_nxdomain := rcode_nxdomain s + b, rcode_servfail := rcode_servfail s + c,
             rcode_refused := rcode_refused s + d, rcode_other := rcode_other s + e\<rparr>)"
proof -
  have noerror: "(if 0 < x then t\<lparr>rcode_noerror := rcode_noerror t + x\<rparr> else t) =
      t\<lparr>rcode_noerror := rcode_noerror t + x\<rparr>" for t :: "'h stats" and x
    by (cases "x = 0") (simp_all add: word_neq_0_conv [symmetric])
  have nxdomain: "(if 0 < x then t\<lparr>rcode_nxdomain := rcode_nxdomain t + x\<rparr> else t) =
      t\<lparr>rcode_nxdomain := rcode_nxdomain t + x\<rparr>" for t :: "'h stats" and x
    by (cases "x = 0") (simp_all add: word_neq_0_conv [symmetric])
  have servfail: "(if 0 < x then t\<lparr>rcode_servfail := rcode_servfail t + x\<rparr> else t) =
      t\<lparr>rcode_servfail := rcode_servfail t + x\<rparr>" for t :: "'h stats" and x
    by (cases "x = 0") (simp_all add: word_neq_0_conv [symmetric])
  have refused: "(if 0 < x then t\<lparr>rcode_refused := rcode_refused t + x\<rparr> else t) =
      t\<lparr>rcode_refused := rcode_refused t + x\<rparr>" for t :: "'h stats" and x
    by (cases "x = 0") (simp_all add: word_neq_0_conv [symmetric])
  have other: "(if 0 < x then t\<lparr>rcode_other := rcode_other t + x\<rparr> else t) =
      t\<lparr>rcode_other := rcode_other t + x\<rparr>" for t :: "'h stats" and x
    by (cases "x = 0") (simp_all add: word_neq_0_conv [symmetric])
  show ?thesis
    unfolding record_rcodes_def Let_def noerror nxdomain servfail refused other by simp
qed

lemma record_rcodes_consistent [simp]:
  "stats_consistent s \<Longrightarrow> stats_consistent (record_rcodes a b c d e s)"
  by (simp add: stats_consistent_def record_rcodes_eq algebra_simps)

datatype stats_op =
  IncSent | IncSentN nat u64 | ResetWindow u64 | IncTimeout | IncError
  | RecordRcodes u64 u64 u64 u64 u64 | RecordInflight nat | RecordLatency u64
  | RecordResponse u8 u64 | RampStepLatency

fun apply_op :: "'h hist_ops \<Rightarrow> stats_op \<Rightarrow> 'h stats \<Rightarrow> 'h stats" where
  "apply_op H IncSent s = inc_sent s"
| "apply_op H (IncSentN n now_ns) s = inc_sent_n now_ns n s"
| "apply_op H (ResetWindow now_ns) s = reset_window H now_ns s"
| "apply_op H IncTimeout s = inc_timeout s"
| "apply_op H IncError s = inc_error s"
| "apply_op H (RecordRcodes a b c d e) s = record_rcodes a b c d e s"
| "apply_op H (RecordInflight n) s = record_inflight n s"
| "apply_op H (RecordLatency rtt) s = record_latency_us H rtt s"
| "apply_op H (RecordResponse rc rtt) s = record_response H rc rtt s"
| "apply_op H RampStepLatency s = snd (ramp_step_latency H s)"

lemma apply_op_consistent: "stats_consistent s \<Longrightarrow> stats_consistent (apply_op H op s)"
  by (cases op)
    (simp_all add: stats_consistent_def stats_ops record_rcodes_eq algebra_simps
      del: record_response_consistent record_rcodes_consistent)

lemma fold_ops_consistent: "stats_consistent s \<Longrightarrow> stats_consistent (fold (apply_op H) ops s)"
  by (induction ops arbitrary: s) (simp_all add: apply_op_consistent)

section \<open>The percentiles are ordered\<close>

lemma f_lit_le:
  assumes "0 \<le> p" and "p \<le> q" and "q \<le> 1"
  shows "f_le (f_lit p) (f_lit q)"
proof -
  have one: "fl 1 = 1" using fl_nat [of 1] by simp
  have p: "0 \<le> fl p" using fl_mono_nonneg [of 0 p] assms by (simp add: fl_def)
  have pq: "fl p \<le> fl q" using assms by (intro fl_mono_nonneg)
  have q: "fl q \<le> 1" using fl_mono_nonneg [of q 1] one assms by simp
  have "\<bar>fl p\<bar> < 2 ^ 1024" "\<bar>fl q\<bar> < 2 ^ 1024" using p pq q by simp_all
  then show ?thesis using pq by (auto simp: f_lit_def fl64_small f_le_def)
qed

lemma snapshot_percentiles:
  assumes "hist_laws H" and "h_len H (histogram s) \<noteq> 0"
  shows "min_us (snapshot H el s) \<le> p50_us (snapshot H el s) \<and>
    p50_us (snapshot H el s) \<le> p95_us (snapshot H el s) \<and>
    p95_us (snapshot H el s) \<le> p99_us (snapshot H el s) \<and>
    p99_us (snapshot H el s) \<le> p999_us (snapshot H el s) \<and>
    p999_us (snapshot H el s) \<le> max_us (snapshot H el s)"
proof -
  have q: "h_quantile H (f_lit p) h \<le> h_quantile H (f_lit q) h"
    if "0 \<le> p" "p \<le> q" "q \<le> 1" for p q h
    using assms(1) f_lit_le [OF that] by (simp add: hist_laws_def)
  show ?thesis
    using assms q [of "1 / 2" "95 / 100"] q [of "95 / 100" "99 / 100"] q [of "99 / 100" "999 / 1000"]
    by (simp add: snapshot_def h_is_empty_def hist_laws_def Let_def)
qed

section \<open>The in-flight maximum under interleaving\<close>

text \<open>
  Each thread runs the loop of \<^verbatim>\<open>record_inflight\<close>: load the maximum, and while its value is larger
  try to swap it in; a failed exchange (also a spurious one) reloads. A state is the shared
  word and the program point of every thread.
\<close>

datatype max_pc = Load u64 | Try u64 u64 | Done u64

fun pc_value :: "max_pc \<Rightarrow> u64" where
  "pc_value (Load v) = v"
| "pc_value (Try v old) = v"
| "pc_value (Done v) = v"

inductive max_step :: "u64 \<times> max_pc list \<Rightarrow> u64 \<times> max_pc list \<Rightarrow> bool" where
  load: "i < length ts \<Longrightarrow> ts ! i = Load v \<Longrightarrow> max_step (m, ts) (m, ts[i := Try v m])"
| leave: "i < length ts \<Longrightarrow> ts ! i = Try v old \<Longrightarrow> v \<le> old \<Longrightarrow>
    max_step (m, ts) (m, ts[i := Done v])"
| swap: "i < length ts \<Longrightarrow> ts ! i = Try v old \<Longrightarrow> old < v \<Longrightarrow> m = old \<Longrightarrow>
    max_step (m, ts) (v, ts[i := Done v])"
| retry: "i < length ts \<Longrightarrow> ts ! i = Try v old \<Longrightarrow> old < v \<Longrightarrow>
    max_step (m, ts) (m, ts[i := Try v m])"

inductive_cases max_stepE: "max_step (m, ts) (m', ts')"

definition max_inv :: "u64 \<Rightarrow> u64 list \<Rightarrow> u64 \<times> max_pc list \<Rightarrow> bool" where
  "max_inv m0 vs st =
     (case st of (m, ts) \<Rightarrow>
        map pc_value ts = vs \<and> m0 \<le> m \<and> m \<in> insert m0 (set vs) \<and>
        (\<forall>t \<in> set ts. case t of Load v \<Rightarrow> True | Try v old \<Rightarrow> old \<le> m | Done v \<Rightarrow> v \<le> m))"

lemma map_pc_update: "i < length ts \<Longrightarrow> pc_value t = pc_value (ts ! i) \<Longrightarrow> map pc_value (ts[i := t]) = map pc_value ts"
  by (metis list_update_id map_update)

lemma max_inv_update:
  assumes "\<forall>t \<in> set ts. case t of Load v \<Rightarrow> True | Try v old \<Rightarrow> old \<le> m | Done v \<Rightarrow> v \<le> m"
    and "m \<le> m'" and "case t of Load v \<Rightarrow> True | Try v old \<Rightarrow> old \<le> m' | Done v \<Rightarrow> v \<le> m'"
  shows "\<forall>t \<in> set (ts[i := t]). case t of Load v \<Rightarrow> True | Try v old \<Rightarrow> old \<le> m' | Done v \<Rightarrow> v \<le> m'"
proof
  fix u
  assume "u \<in> set (ts[i := t])"
  then have "u = t \<or> u \<in> set ts" using set_update_subset_insert by fastforce
  then show "case u of Load v \<Rightarrow> True | Try v old \<Rightarrow> old \<le> m' | Done v \<Rightarrow> v \<le> m'"
  proof
    assume "u \<in> set ts"
    then have "case u of Load v \<Rightarrow> True | Try v old \<Rightarrow> old \<le> m | Done v \<Rightarrow> v \<le> m" using assms(1) by blast
    then show ?thesis using assms(2) by (cases u) auto
  qed (use assms(3) in simp)
qed

lemma max_step_inv:
  assumes "max_step st st'" and "max_inv m0 vs st"
  shows "max_inv m0 vs st'"
  using assms
proof (induction rule: max_step.induct)
  case (load i ts v m)
  then show ?case
    using max_inv_update [of ts m m "Try v m" i] map_pc_update [of i ts "Try v m"] by (simp add: max_inv_def)
next
  case (leave i ts v old m)
  then have "Try v old \<in> set ts" by (metis nth_mem)
  then have "old \<le> m" using leave.prems by (fastforce simp: max_inv_def)
  then show ?case
    using leave max_inv_update [of ts m m "Done v" i] map_pc_update [of i ts "Done v"] by (simp add: max_inv_def)
next
  case (swap i ts v old m)
  then have "v \<in> set (map pc_value ts)" by (metis nth_mem length_map nth_map pc_value.simps(2))
  then have "v \<in> set vs" using swap.prems by (auto simp: max_inv_def)
  then show ?case
    using swap max_inv_update [of ts m v "Done v" i] map_pc_update [of i ts "Done v"]
    by (auto simp: max_inv_def)
next
  case (retry i ts v old m)
  then show ?case
    using max_inv_update [of ts m m "Try v m" i] map_pc_update [of i ts "Try v m"] by (simp add: max_inv_def)
qed

lemma max_steps_inv: "max_step\<^sup>*\<^sup>* st st' \<Longrightarrow> max_inv m0 vs st \<Longrightarrow> max_inv m0 vs st'"
  by (induction rule: rtranclp_induct) (auto intro: max_step_inv)

lemma max_inv_init: "max_inv m0 vs (m0, map Load vs)"
  by (simp add: max_inv_def comp_def)

section \<open>Properties\<close>

text \<open>Counting is consistent: after any history of operations on a new collector (window resets and bulk
  updates included), the completions are the sum of the five response-code counters.\<close>

theorem stats_completed_is_sum:
  "stats_consistent (fold (apply_op H) ops (stats_new H))"
  by (rule fold_ops_consistent) simp

text \<open>C31: The in-flight maximum is exact under every interleaving: once every thread has left its
  compare-and-swap loop, the shared word is the maximum of the old value and of all recorded depths.\<close>

theorem inflight_max_linearizable:
  assumes "max_step\<^sup>*\<^sup>* (m0, map Load vs) (m, map Done vs)"
  shows "m = Max (insert m0 (set vs))"
proof (rule Max_eqI [symmetric])
  have inv: "max_inv m0 vs (m, map Done vs)" using max_steps_inv [OF assms max_inv_init] .
  then show "m \<in> insert m0 (set vs)" by (simp add: max_inv_def)
  show "y \<le> m" if "y \<in> insert m0 (set vs)" for y
    using that inv by (auto simp: max_inv_def)
qed simp

theorem inflight_max_linearizable_witness:
  "max_step\<^sup>*\<^sup>* (3, map Load [7, 5]) (7, map Done [7, 5]) \<and> (7 :: u64) = Max (insert 3 (set [7, 5]))"
proof -
  have "max_step (3, [Load 7, Load 5]) (3, [Load 7, Try 5 3])" using max_step.load [of 1 "[Load 7, Load 5]" 5 3] by simp
  moreover have "max_step (3, [Load 7, Try 5 3]) (3, [Try 7 3, Try 5 3])"
    using max_step.load [of 0 "[Load 7, Try 5 3]" 7 3] by simp
  moreover have "max_step (3, [Try 7 3, Try 5 3]) (7, [Done 7, Try 5 3])"
    using max_step.swap [of 0 "[Try 7 3, Try 5 3]" 7 3] by simp
  moreover have "max_step (7, [Done 7, Try 5 3]) (7, [Done 7, Try 5 7])"
    using max_step.retry [of 1 "[Done 7, Try 5 3]" 5 3 7] by simp
  moreover have "max_step (7, [Done 7, Try 5 7]) (7, [Done 7, Done 5])"
    using max_step.leave [of 1 "[Done 7, Try 5 7]" 5 7 7] by simp
  ultimately have "max_step\<^sup>*\<^sup>* (3, [Load 7, Load 5]) (7, [Done 7, Done 5])"
    by (meson converse_rtranclp_into_rtranclp rtranclp.rtrancl_refl)
  with inflight_max_linearizable [of 3 "[7, 5]" 7] show ?thesis by simp
qed

text \<open>The percentiles of a report are ordered, min to max, whenever the histogram keeps its documented
  contract and holds a sample.\<close>

theorem snapshot_percentiles_ordered:
  assumes "hist_laws H" and "h_len H (histogram s) \<noteq> 0"
  shows "min_us (snapshot H el s) \<le> p50_us (snapshot H el s) \<and>
    p50_us (snapshot H el s) \<le> p95_us (snapshot H el s) \<and>
    p95_us (snapshot H el s) \<le> p99_us (snapshot H el s) \<and>
    p99_us (snapshot H el s) \<le> p999_us (snapshot H el s) \<and>
    p999_us (snapshot H el s) \<le> max_us (snapshot H el s)"
  using assms by (rule snapshot_percentiles)

text \<open>A histogram that keeps every sample, with nearest-rank quantiles.\<close>

definition rank :: "f64 \<Rightarrow> nat \<Rightarrow> nat" where
  "rank q n = (case q of Fin a \<Rightarrow> min (nat \<lceil>a * of_nat n\<rceil> - 1) (n - 1) | PInf \<Rightarrow> n - 1 | _ \<Rightarrow> 0)"

definition list_hist :: "u64 list hist_ops" where
  "list_hist =
     \<lparr>h_new = [], h_record = (\<lambda>v h. if 1 \<le> v \<and> v \<le> 60000000 then v # h else h),
      h_clear = (\<lambda>h. []), h_len = (\<lambda>h. of_nat (length h)),
      h_min = (\<lambda>h. if h = [] then 0 else sort h ! 0), h_mean = (\<lambda>h. Fin 0),
      h_max = (\<lambda>h. if h = [] then 0 else sort h ! (length h - 1)),
      h_quantile = (\<lambda>q h. if h = [] then 0 else sort h ! rank q (length h))\<rparr>"

lemma rank_mono:
  assumes "f_le p q"
  shows "rank p n \<le> rank q n"
proof -
  have "nat \<lceil>a * of_nat n\<rceil> \<le> nat \<lceil>b * of_nat n\<rceil>" if "a \<le> b" for a b :: rat
    using that by (intro nat_mono ceiling_mono mult_right_mono) simp_all
  then have "min (nat \<lceil>a * of_nat n\<rceil> - 1) (n - 1) \<le> min (nat \<lceil>b * of_nat n\<rceil> - 1) (n - 1)"
    if "a \<le> b" for a b :: rat using that by (meson diff_le_mono min.mono order_refl)
  then show ?thesis using assms by (cases p; cases q) (auto simp: rank_def f_le_def)
qed

lemma rank_le: "rank q n \<le> n - 1"
  by (cases q) (simp_all add: rank_def)

lemma list_hist_laws: "hist_laws list_hist"
proof -
  have len: "rank q (length h) < length h" if "h \<noteq> []" for q and h :: "u64 list"
    using rank_le [of q "length h"] that by (cases h) auto
  have mono: "sort h ! i \<le> sort h ! j" if "i \<le> j" "j < length h" for i j and h :: "u64 list"
    using that by (intro sorted_nth_mono) simp_all
  show ?thesis
    using len mono rank_mono rank_le by (auto simp: hist_laws_def list_hist_def)
qed

theorem snapshot_percentiles_ordered_witness:
  "p50_us (snapshot list_hist (Fin 1) ((stats_new list_hist)\<lparr>histogram := [30, 10, 20]\<rparr>)) \<le>
   p99_us (snapshot list_hist (Fin 1) ((stats_new list_hist)\<lparr>histogram := [30, 10, 20]\<rparr>))"
  using snapshot_percentiles_ordered [OF list_hist_laws, of "(stats_new list_hist)\<lparr>histogram := [30, 10, 20]\<rparr>" "Fin 1"]
  by (simp add: list_hist_def stats_new_def) (meson order_trans)

end
