(* ===== verification/Udp_Workers.thy ===== *)
theory Udp_Workers
  imports Dns_Message Inflight Stats
begin

text \<open>
  The kernel-UDP workers of \<^verbatim>\<open>src/transport/udp.rs\<close>: the closed loop (one thread that fills the
  pipe up to \<^verbatim>\<open>max_outstanding\<close>, drains replies and sweeps timeouts) and the flood pair of a
  transmit and a receive thread. One iteration of each loop is a function of the worker's state and of
  what the iteration reads from outside: clock readings, the shared rate, the result of every system
  call and the datagrams received. Instants are nanoseconds. A panic of the template pool is \<open>None\<close>.
\<close>

section \<open>Pacing\<close>

text \<open>\<^verbatim>\<open>Duration::from_secs_f64(a / b)\<close>, in nanoseconds, rounded to nearest.\<close>

definition ratio_ns :: "nat \<Rightarrow> u64 \<Rightarrow> nat" where
  "ratio_ns a q =
     (case f_div (fl64 (of_nat a)) (f_of_u64 q) of Fin v \<Rightarrow> nat (rne (v * 1000000000)) | _ \<Rightarrow> 0)"

definition pace_ns :: "nat \<Rightarrow> u64 \<Rightarrow> nat" where
  "pace_ns a q = (if 0 < q then ratio_ns a q else 0)"

section \<open>The closed loop\<close>

definition MAX_MSG_SIZE :: nat where "MAX_MSG_SIZE = 512"

definition RX_BATCH :: nat where "RX_BATCH = 256"

definition TIMEOUT_CHECK_INTERVAL :: nat where "TIMEOUT_CHECK_INTERVAL = 10000000"

datatype send_ret = Sent | WouldBlock | SendError

record send_ev =
  se_due :: nat
  se_ns :: u64
  se_ret :: send_ret
  se_now :: nat

record iter_env =
  it_qps :: u64
  it_start :: nat
  it_send :: "nat \<Rightarrow> send_ev"
  it_recv :: "bytes list"
  it_recv_ns :: u64
  it_sweep_at :: nat
  it_sweep_ns :: u64
  it_sweep_done :: nat

record 'h closed_loop =
  cl_slots :: slots
  outstanding :: nat
  cl_next_id :: u16
  cl_tmpl_idx :: u64
  cl_buf :: bytes
  cl_qps :: u64
  cl_step :: nat
  cl_next_send :: nat
  cl_last_sweep :: nat
  cl_stats :: "'h stats"

definition closed_loop_new :: "u16 \<Rightarrow> u64 \<Rightarrow> u64 \<Rightarrow> nat \<Rightarrow> nat \<Rightarrow> 'h stats \<Rightarrow> 'h closed_loop" where
  "closed_loop_new rid ridx qps now now' st =
     \<lparr>cl_slots = slots_new, outstanding = 0, cl_next_id = rid, cl_tmpl_idx = ridx,
      cl_buf = replicate MAX_QUERY 0, cl_qps = qps, cl_step = pace_ns 1 qps, cl_next_send = now,
      cl_last_sweep = now', cl_stats = st\<rparr>"

definition reload_rate :: "bool \<Rightarrow> iter_env \<Rightarrow> 'h closed_loop \<Rightarrow> 'h closed_loop" where
  "reload_rate ramp env s =
     (if ramp \<and> it_qps env \<noteq> cl_qps s
      then s\<lparr>cl_qps := it_qps env, cl_step := pace_ns 1 (it_qps env), cl_next_send := it_start env\<rparr>
      else s)"

definition after_send :: "send_ev \<Rightarrow> u16 \<Rightarrow> 'h closed_loop \<Rightarrow> 'h closed_loop" where
  "after_send e qid s =
     (let s = s\<lparr>cl_slots := (cl_slots s)[unat qid := max (se_ns e) 1],
               outstanding := outstanding s + 1, cl_stats := inc_sent (cl_stats s)\<rparr>
      in if 0 < cl_qps s then
           let ns = cl_next_send s + cl_step s
           in s\<lparr>cl_next_send := if ns + 2000000 < se_now e then se_now e else ns\<rparr>
         else s)"

function send_fill ::
  "wire_query_pool \<Rightarrow> nat \<Rightarrow> (nat \<Rightarrow> send_ev) \<Rightarrow> nat \<Rightarrow> bool \<Rightarrow> 'h closed_loop \<Rightarrow>
   (bool \<times> 'h closed_loop) option" where
  "send_fill pool max_out ev k did s =
     (if outstanding s < max_out then
        let e = ev k
        in if 0 < cl_qps s \<and> se_due e < cl_next_send s then Some (did, s)
           else
             let qid = cl_next_id s;
                 s1 = s\<lparr>cl_next_id := qid + 1\<rparr>
             in (case write_with_index pool (unat (cl_tmpl_idx s1)) qid (cl_buf s1) of
                   None \<Rightarrow> None
                 | Some (len, buf) \<Rightarrow>
                     let s2 = s1\<lparr>cl_tmpl_idx := cl_tmpl_idx s1 + 1, cl_buf := buf\<rparr>
                     in (case se_ret e of
                           WouldBlock \<Rightarrow> Some (did, s2)
                         | SendError \<Rightarrow> Some (did, s2\<lparr>cl_stats := inc_error (cl_stats s2)\<rparr>)
                         | Sent \<Rightarrow> send_fill pool max_out ev (Suc k) True (after_send e qid s2)))
      else Some (did, s))"
  by auto
termination
  by (relation "measure (\<lambda>(pool, max_out, ev, k, did, s). max_out - outstanding s)")
    (auto simp: after_send_def Let_def)

declare send_fill.simps [simp del]

definition count_rcode :: "u8 \<Rightarrow> 'h stats \<Rightarrow> 'h stats" where
  "count_rcode rcode st =
     (if rcode = 0 then record_rcodes 1 0 0 0 0 st
      else if rcode = 3 then record_rcodes 0 1 0 0 0 st
      else if rcode = 2 then record_rcodes 0 0 1 0 0 st
      else if rcode = 5 then record_rcodes 0 0 0 1 0 st
      else record_rcodes 0 0 0 0 1 st)"

definition recv_one :: "'h hist_ops \<Rightarrow> u64 \<Rightarrow> u64 \<Rightarrow> bytes \<Rightarrow> 'h closed_loop \<Rightarrow> 'h closed_loop" where
  "recv_one H timeout_ns recv_ns msg s =
     (let buf = take MAX_MSG_SIZE msg
      in if length buf < 4 then s
         else
           let qid = from_be16 (buf ! 0) (buf ! 1);
               rcode = buf ! 3 AND 0x0F;
               t = cl_slots s ! unat qid
           in if t \<noteq> 0 then
                let s = s\<lparr>cl_slots := (cl_slots s)[unat qid := 0], outstanding := outstanding s - 1\<rparr>;
                    rtt_ns = sat_sub recv_ns t
                in if rtt_ns \<le> timeout_ns
                   then s\<lparr>cl_stats := record_response H rcode (max (rtt_ns div 1000) 1) (cl_stats s)\<rparr>
                   else s\<lparr>cl_stats := count_rcode rcode (cl_stats s)\<rparr>
              else s)"

definition sweep_slots :: "u64 \<Rightarrow> u64 \<Rightarrow> 'h closed_loop \<Rightarrow> 'h closed_loop" where
  "sweep_slots timeout_ns now_ns s =
     (case shared_sweep now_ns timeout_ns (cl_slots s) of
        (freed, slots) \<Rightarrow>
          let s = s\<lparr>cl_slots := slots\<rparr>
          in if 0 < freed
             then s\<lparr>cl_stats := (inc_timeout ^^ freed) (cl_stats s), outstanding := outstanding s - freed\<rparr>
             else s)"

definition closed_loop_iter ::
  "'h hist_ops \<Rightarrow> wire_query_pool \<Rightarrow> nat \<Rightarrow> u64 \<Rightarrow> bool \<Rightarrow> iter_env \<Rightarrow> 'h closed_loop \<Rightarrow>
   'h closed_loop option" where
  "closed_loop_iter H pool max_out timeout_ns ramp env s =
     (case send_fill pool max_out (it_send env) 0 False (reload_rate ramp env s) of
        None \<Rightarrow> None
      | Some (did_send, s) \<Rightarrow>
          let s = fold (recv_one H timeout_ns (it_recv_ns env)) (take RX_BATCH (it_recv env)) s
          in Some (if TIMEOUT_CHECK_INTERVAL \<le> it_sweep_at env - cl_last_sweep s
                   then (sweep_slots timeout_ns (it_sweep_ns env) s)\<lparr>cl_last_sweep := it_sweep_done env\<rparr>
                   else s))"

fun closed_loop_run ::
  "'h hist_ops \<Rightarrow> wire_query_pool \<Rightarrow> nat \<Rightarrow> u64 \<Rightarrow> bool \<Rightarrow> iter_env list \<Rightarrow> 'h closed_loop \<Rightarrow>
   'h closed_loop option" where
  "closed_loop_run H pool max_out timeout_ns ramp [] s = Some s"
| "closed_loop_run H pool max_out timeout_ns ramp (e # es) s =
     (case closed_loop_iter H pool max_out timeout_ns ramp e s of
        None \<Rightarrow> None
      | Some s' \<Rightarrow> closed_loop_run H pool max_out timeout_ns ramp es s')"

section \<open>Occupied slots\<close>

definition occupied :: "slots \<Rightarrow> nat" where
  "occupied T = length (filter (\<lambda>v. v \<noteq> 0) T)"

lemma occupied_update:
  "i < length T \<Longrightarrow>
     occupied (T[i := v]) + (if T ! i \<noteq> 0 then 1 else 0) = occupied T + (if v \<noteq> 0 then 1 else 0)"
  unfolding occupied_def by (rule length_filter_update)

lemma occupied_set: "i < length T \<Longrightarrow> v \<noteq> 0 \<Longrightarrow>
    occupied (T[i := v]) = (if T ! i = 0 then occupied T + 1 else occupied T)"
  using occupied_update [of i T v] by (auto split: if_splits)

lemma occupied_pos: "i < length T \<Longrightarrow> T ! i \<noteq> 0 \<Longrightarrow> 0 < occupied T"
  by (auto simp: occupied_def filter_empty_conv)

lemma occupied_clear: "i < length T \<Longrightarrow> T ! i \<noteq> 0 \<Longrightarrow> Suc (occupied (T[i := 0])) = occupied T"
  using occupied_update [of i T 0] by simp

lemma occupied_shared_sweep:
  "fst (shared_sweep now to T) + occupied (snd (shared_sweep now to T)) = occupied T"
  unfolding occupied_def shared_sweep_def by (induction T) auto

lemma occupied_new: "occupied slots_new = 0"
  unfolding occupied_def slots_new_def by (simp only: filter_replicate if_False list.size simp_thms)

section \<open>The invariant of the closed loop\<close>

text \<open>
  The gate counter covers the occupied slots (and \<open>lost\<close> more: positions of the gate whose slot was
  overwritten, which nothing gives back), never exceeds \<^verbatim>\<open>max_outstanding\<close>, and is never full with
  an empty table; and every query sent is completed, timed out or still counted by the gate.
\<close>

definition cl_inv :: "nat \<Rightarrow> nat \<Rightarrow> 'h closed_loop \<Rightarrow> bool" where
  "cl_inv max_out lost s \<longleftrightarrow>
     slots_wf (cl_slots s) \<and> lost + occupied (cl_slots s) \<le> outstanding s \<and> outstanding s \<le> max_out \<and>
     outstanding s < max_out + occupied (cl_slots s) \<and>
     sent (cl_stats s) = completed (cl_stats s) + timeouts (cl_stats s) + of_nat (outstanding s) \<and>
     length (cl_buf s) = MAX_QUERY"

lemma inc_timeout_pow:
  "sent ((inc_timeout ^^ n) st) = sent st" "completed ((inc_timeout ^^ n) st) = completed st"
  "timeouts ((inc_timeout ^^ n) st) = timeouts st + of_nat n"
  by (induction n) (simp_all add: inc_timeout_def algebra_simps)

lemma record_response_counts [simp]:
  "completed (record_response H rc rtt st) = completed st + 1"
  "sent (record_response H rc rtt st) = sent st" "timeouts (record_response H rc rtt st) = timeouts st"
  by (simp_all add: record_response_def Let_def)

lemma count_rcode_counts [simp]:
  "completed (count_rcode rc st) = completed st + 1"
  "sent (count_rcode rc st) = sent st" "timeouts (count_rcode rc st) = timeouts st"
  by (simp_all add: count_rcode_def record_rcodes_eq)

lemma cl_inv_new:
  assumes "0 < max_out" and "sent st = completed st + timeouts st"
  shows "cl_inv max_out 0 (closed_loop_new rid ridx qps now now' st)"
  unfolding cl_inv_def closed_loop_new_def using assms occupied_new slots_new_wf by simp

lemma reload_rate_inv [simp]: "cl_inv max_out lost (reload_rate ramp env s) = cl_inv max_out lost s"
  by (simp add: cl_inv_def reload_rate_def)

lemma unat_slot: "slots_wf T \<Longrightarrow> unat (qid :: u16) < length T"
  using unat_u16_less [of qid] by (simp add: slots_wf_def)

lemma after_send_inv:
  assumes inv: "cl_inv max_out lost s" and room: "outstanding s < max_out"
  shows "cl_inv max_out lost (after_send e qid s)"
proof -
  have i: "unat qid < length (cl_slots s)" using inv by (simp add: cl_inv_def unat_slot)
  have nz: "max (se_ns e) 1 \<noteq> 0" by (auto simp: max_def word_le_nat_alt)
  show ?thesis
    using inv room occupied_set [OF i nz] occupied_pos [OF i]
    by (auto simp: cl_inv_def after_send_def Let_def slots_wf_def inc_sent_def algebra_simps)
qed

definition pool_fits :: "wire_query_pool \<Rightarrow> bool" where
  "pool_fits pool \<longleftrightarrow> (\<forall>i qid buf. MAX_QUERY \<le> length buf \<longrightarrow>
     (\<exists>n buf'. write_with_index pool i qid buf = Some (n, buf') \<and> n \<le> MAX_QUERY \<and> length buf' = length buf))"

lemma pool_fitsE:
  assumes "pool_fits pool" and "MAX_QUERY \<le> length buf"
  obtains n buf' where "write_with_index pool i qid buf = Some (n, buf')" "n \<le> MAX_QUERY" "length buf' = length buf"
  using assms unfolding pool_fits_def by blast

lemma pool_fitsI:
  "from_pairs entries = Some pool \<Longrightarrow> \<forall>(name, qtype) \<in> set entries. length name \<le> 494 \<Longrightarrow> pool_fits pool"
  unfolding pool_fits_def using write_with_index_fits by blast

lemma after_send_reuse:
  assumes inv: "cl_inv max_out lost s" and room: "outstanding s < max_out"
    and busy: "cl_slots s ! unat qid \<noteq> 0"
  shows "cl_inv max_out (Suc lost) (after_send e qid s)"
proof -
  have i: "unat qid < length (cl_slots s)" using inv by (simp add: cl_inv_def unat_slot)
  have nz: "max (se_ns e) 1 \<noteq> 0" by (rule max_1_neq_0)
  show ?thesis
    using inv room busy occupied_set [OF i nz] occupied_pos [OF i]
    by (auto simp: cl_inv_def after_send_def Let_def slots_wf_def inc_sent_def algebra_simps)
qed

lemma send_fill_inv:
  "pool_fits pool \<Longrightarrow> cl_inv max_out lost s \<Longrightarrow>
    \<exists>did' s'. send_fill pool max_out ev k did s = Some (did', s') \<and> cl_inv max_out lost s'"
proof (induction pool max_out ev k did s rule: send_fill.induct)
  case (1 pool max_out ev k did s)
  let ?due = "outstanding s < max_out \<and> \<not> (0 < cl_qps s \<and> se_due (ev k) < cl_next_send s)"
  let ?s1 = "s\<lparr>cl_next_id := cl_next_id s + 1\<rparr>"
  have bl: "length (cl_buf s) = MAX_QUERY" using "1.prems"(2) by (simp add: cl_inv_def)
  then obtain n buf' where w: "write_with_index pool (unat (cl_tmpl_idx s)) (cl_next_id s) (cl_buf s) = Some (n, buf')"
    and len: "length buf' = MAX_QUERY"
    using pool_fitsE [OF "1.prems"(1), of "cl_buf s"] by (metis order_refl)
  define s2 where "s2 = ?s1\<lparr>cl_tmpl_idx := cl_tmpl_idx s + 1, cl_buf := buf'\<rparr>"
  have inv2: "cl_inv max_out lost s2" and out2: "outstanding s2 = outstanding s"
    using "1.prems"(2) len by (simp_all add: cl_inv_def s2_def)
  have err: "cl_inv max_out lost (s2\<lparr>cl_stats := inc_error (cl_stats s2)\<rparr>)"
    using inv2 by (simp add: cl_inv_def inc_error_def)
  have unfold: "send_fill pool max_out ev k did s =
      (if ?due then (case se_ret (ev k) of
           WouldBlock \<Rightarrow> Some (did, s2)
         | SendError \<Rightarrow> Some (did, s2\<lparr>cl_stats := inc_error (cl_stats s2)\<rparr>)
         | Sent \<Rightarrow> send_fill pool max_out ev (Suc k) True (after_send (ev k) (cl_next_id s) s2))
       else Some (did, s))"
    by (subst send_fill.simps) (simp add: Let_def w s2_def split: send_ret.split)
  have rec: "\<exists>did' s'. send_fill pool max_out ev (Suc k) True (after_send (ev k) (cl_next_id s) s2) =
      Some (did', s') \<and> cl_inv max_out lost s'" if ?due "se_ret (ev k) = Sent"
    using "1.IH" [OF _ refl _ refl refl _ refl refl that(2) "1.prems"(1)] that w
      after_send_inv [OF inv2, of "ev k" "cl_next_id s"] out2
    by (simp add: s2_def)
  show ?case
    using rec inv2 err "1.prems"(2) unfolding unfold by (cases "se_ret (ev k)") auto
qed

lemma recv_one_inv: "cl_inv max_out lost s \<Longrightarrow> cl_inv max_out lost (recv_one H timeout_ns recv_ns msg s)"
proof -
  assume inv: "cl_inv max_out lost s"
  define buf qid where "buf = take MAX_MSG_SIZE msg" and "qid = from_be16 (buf ! 0) (buf ! 1)"
  define t where "t = cl_slots s ! unat qid"
  have i: "unat qid < length (cl_slots s)" using inv by (simp add: cl_inv_def unat_slot)
  show ?thesis
  proof (cases "length buf < 4 \<or> t = 0")
    case True
    then show ?thesis using inv by (auto simp: recv_one_def buf_def qid_def t_def Let_def)
  next
    case False
    then have o: "Suc (occupied ((cl_slots s)[unat qid := 0])) = occupied (cl_slots s)"
      using occupied_clear [OF i] by (simp add: t_def)
    with inv have "of_nat (outstanding s) = 1 + (of_nat (outstanding s - 1) :: u64)"
      by (simp add: cl_inv_def)
    with False o inv show ?thesis
      unfolding cl_inv_def recv_one_def buf_def [symmetric] Let_def qid_def [symmetric] t_def [symmetric]
      by (auto simp: slots_wf_def algebra_simps)
  qed
qed

lemma sweep_slots_inv: "cl_inv max_out lost s \<Longrightarrow> cl_inv max_out lost (sweep_slots timeout_ns now_ns s)"
proof -
  assume inv: "cl_inv max_out lost s"
  obtain freed T where sw: "shared_sweep now_ns timeout_ns (cl_slots s) = (freed, T)" by fastforce
  have o: "freed + occupied T = occupied (cl_slots s)"
    using occupied_shared_sweep [of now_ns timeout_ns "cl_slots s"] by (simp add: sw)
  have l: "length T = length (cl_slots s)" using sw by (auto simp: shared_sweep_def)
  have "of_nat (outstanding s) = of_nat freed + (of_nat (outstanding s - freed) :: u64)"
    using inv o by (simp add: cl_inv_def flip: of_nat_add)
  then show ?thesis
    using inv o l by (auto simp: cl_inv_def sweep_slots_def sw slots_wf_def Let_def inc_timeout_pow algebra_simps)
qed

lemma fold_recv_inv:
  "cl_inv max_out lost s \<Longrightarrow> cl_inv max_out lost (fold (recv_one H timeout_ns recv_ns) msgs s)"
  by (induction msgs arbitrary: s) (simp_all add: recv_one_inv)

lemma last_sweep_inv [simp]: "cl_inv max_out lost (s\<lparr>cl_last_sweep := t\<rparr>) = cl_inv max_out lost s"
  by (simp add: cl_inv_def)

lemma closed_loop_iter_inv:
  assumes "pool_fits pool" and "cl_inv max_out lost s"
  shows "\<exists>s'. closed_loop_iter H pool max_out timeout_ns ramp env s = Some s' \<and> cl_inv max_out lost s'"
  using send_fill_inv [OF assms(1), of max_out lost "reload_rate ramp env s" "it_send env" 0 False] assms(2)
  by (auto simp: closed_loop_iter_def Let_def fold_recv_inv sweep_slots_inv)

lemma closed_loop_run_inv:
  assumes "pool_fits pool"
  shows "cl_inv max_out lost s \<Longrightarrow>
    \<exists>s'. closed_loop_run H pool max_out timeout_ns ramp envs s = Some s' \<and> cl_inv max_out lost s'"
  proof (induction envs arbitrary: s)
  case (Cons e es)
  from closed_loop_iter_inv [OF assms Cons.prems, of H timeout_ns ramp e]
  obtain s1 where "closed_loop_iter H pool max_out timeout_ns ramp e s = Some s1" "cl_inv max_out lost s1"
    by blast
  with Cons.IH [of s1] show ?case by simp
qed simp

lemma slots_new_pending: "slot_pending slots_new qid = None"
  unfolding slot_pending_def slots_new_def Let_def
  using unat_u16_less [of qid] by (subst nth_replicate) simp_all

lemma slot_pending_in_set:
  "slots_wf T \<Longrightarrow> v \<in> set T \<Longrightarrow> v \<noteq> 0 \<Longrightarrow> \<exists>qid. slot_pending T qid = Some v"
proof -
  assume wf: "slots_wf T" and "v \<in> set T" and nz: "v \<noteq> 0"
  then obtain i where i: "i < length T" "T ! i = v" by (auto simp: in_set_conv_nth)
  then have "unat (of_nat i :: u16) = i" using wf by (simp add: slots_wf_def unat_of_nat)
  with i nz have "slot_pending T (of_nat i) = Some v" by (simp add: slot_pending_def Let_def)
  then show ?thesis ..
qed

lemma recv_one_slots: "set (cl_slots (recv_one H to ns msg s)) \<subseteq> insert 0 (set (cl_slots s))"
  unfolding recv_one_def Let_def by (auto simp: set_update_subset_insert [THEN subsetD] dest!: set_update_subset_insert [THEN subsetD])

lemma fold_recv_slots: "set (cl_slots (fold (recv_one H to ns) msgs s)) \<subseteq> insert 0 (set (cl_slots s))"
proof (induction msgs arbitrary: s)
  case (Cons m ms)
  then show ?case using recv_one_slots [of H to ns m s] by fastforce
qed auto

lemma fold_recv_last_sweep: "cl_last_sweep (fold (recv_one H to ns) msgs s) = cl_last_sweep s"
  by (induction msgs arbitrary: s) (simp_all add: recv_one_def Let_def)

lemma sweep_reopens:
  assumes inv: "cl_inv max_out lost s"
    and old: "\<forall>v \<in> set (cl_slots s). v \<noteq> 0 \<longrightarrow> timeout_ns \<le> sat_sub now_ns v"
  shows "outstanding (sweep_slots timeout_ns now_ns s) < max_out"
proof -
  have "fst (shared_sweep now_ns timeout_ns (cl_slots s)) = occupied (cl_slots s)"
    using old unfolding shared_sweep_def occupied_def fst_conv
    by (intro arg_cong [of _ _ length] filter_cong refl) auto
  then show ?thesis using inv by (auto simp: sweep_slots_def cl_inv_def Let_def split: prod.split)
qed

lemma occupied_pending: "slots_wf T \<Longrightarrow> 0 < occupied T \<Longrightarrow> \<exists>qid. slot_pending T qid \<noteq> None"
  using slot_pending_in_set [of T] by (fastforce simp: occupied_def filter_empty_conv)

section \<open>Properties of the closed loop\<close>

text \<open>C2: The closed loop accounts for every query. Whatever the clock reads, the system calls return and
  the network delivers, and for any number of iterations, the loop does not panic, every query it sent is
  completed, timed out or still held by the gate, the gate never exceeds \<^verbatim>\<open>max_outstanding\<close>, and when it
  is closed some query is in flight, so a reply or the timeout sweep reopens it.\<close>

theorem closed_loop_accounts_every_query:
  assumes "from_pairs entries = Some pool" and "\<forall>(name, qtype) \<in> set entries. length name \<le> 494"
    and "0 < max_out"
  shows "\<exists>s. closed_loop_run H pool max_out timeout_ns ramp envs
               (closed_loop_new rid ridx qps now now' (stats_new H)) = Some s \<and>
    sent (cl_stats s) = completed (cl_stats s) + timeouts (cl_stats s) + of_nat (outstanding s) \<and>
    outstanding s \<le> max_out \<and>
    (outstanding s = max_out \<longrightarrow> (\<exists>qid. slot_pending (cl_slots s) qid \<noteq> None))"
proof -
  have "cl_inv max_out 0 (closed_loop_new rid ridx qps now now' (stats_new H))"
    using assms(3) by (rule cl_inv_new) (simp add: stats_new_def)
  from closed_loop_run_inv [OF pool_fitsI [OF assms(1,2)] this, of H timeout_ns ramp envs]
  show ?thesis by (auto simp: cl_inv_def dest!: occupied_pending)
qed

theorem closed_loop_accounts_every_query_witness:
  "\<exists>pool s. from_pairs [(''a.com'', 1)] = Some pool \<and>
     closed_loop_run list_hist pool 2 5000000000 False
       [\<lparr>it_qps = 0, it_start = 0, it_send = (\<lambda>_. \<lparr>se_due = 0, se_ns = 7, se_ret = Sent, se_now = 0\<rparr>),
         it_recv = [], it_recv_ns = 0, it_sweep_at = 0, it_sweep_ns = 0, it_sweep_done = 0\<rparr>]
       (closed_loop_new 9 0 0 0 0 (stats_new list_hist)) = Some s \<and> outstanding s \<le> 2"
proof -
  obtain pool where p: "from_pairs [(''a.com'', 1)] = Some pool" by (simp add: from_pairs_def)
  from closed_loop_accounts_every_query [OF p, of 2 list_hist 5000000000 False _ 9 0 0 0 0] p
  show ?thesis by fastforce
qed

text \<open>C40: When the 16-bit id wraps onto a query that is still unanswered, the slot is overwritten but the gate
  counts both: from then on at least one more position of the gate is lost, in every continuation of the
  run, since no reply and no sweep gives it back.\<close>

theorem id_reuse_shrinks_gate:
  assumes "from_pairs entries = Some pool" and "\<forall>(name, qtype) \<in> set entries. length name \<le> 494"
    and "cl_inv max_out lost s" and "outstanding s < max_out" and "cl_slots s ! unat qid \<noteq> 0"
  shows "\<exists>s'. closed_loop_run H pool max_out timeout_ns ramp envs (after_send e qid s) = Some s' \<and>
    Suc lost + occupied (cl_slots s') \<le> outstanding s'"
  using closed_loop_run_inv [OF pool_fitsI [OF assms(1,2)] after_send_reuse [OF assms(3,4,5)], of H timeout_ns ramp envs e]
  by (auto simp: cl_inv_def)

theorem id_reuse_shrinks_gate_witness:
  "\<exists>pool s'. from_pairs [(''a.com'', 1)] = Some pool \<and>
     closed_loop_run list_hist pool 2 5000000000 False []
       (after_send \<lparr>se_due = 0, se_ns = 8, se_ret = Sent, se_now = 0\<rparr> 9
         (after_send \<lparr>se_due = 0, se_ns = 7, se_ret = Sent, se_now = 0\<rparr> 9
           (closed_loop_new 9 0 0 0 0 (stats_new list_hist)))) = Some s' \<and>
     1 + occupied (cl_slots s') \<le> outstanding s'"
proof -
  obtain pool where p: "from_pairs [(''a.com'', 1)] = Some pool" by (simp add: from_pairs_def)
  let ?init = "closed_loop_new 9 0 0 0 0 (stats_new list_hist)"
  let ?s = "after_send \<lparr>se_due = 0, se_ns = 7, se_ret = Sent, se_now = 0\<rparr> 9 ?init"
  have i0: "cl_inv 2 0 ?init" by (rule cl_inv_new) (simp_all add: stats_new_def)
  have i: "cl_inv 2 0 ?s"
    by (rule after_send_inv [OF i0]) (simp add: closed_loop_new_def)
  have o: "outstanding ?s < 2" by (simp add: after_send_def closed_loop_new_def Let_def)
  have len: "length (cl_slots ?init) = 65536" using i0 by (simp add: cl_inv_def slots_wf_def)
  have b: "cl_slots ?s ! unat (9 :: u16) \<noteq> 0"
    using len by (simp add: after_send_def Let_def)
  from id_reuse_shrinks_gate [OF p _ i o b, of list_hist 5000000000 False "[]" ] p show ?thesis by fastforce
qed

text \<open>C32: The gate always reopens: when it is closed, an iteration whose sweep is due and whose clock is past
  the timeout of every query in flight leaves the gate open, whatever replies arrive meanwhile.\<close>

theorem closed_gate_reopens:
  assumes "cl_inv max_out lost s" and "outstanding s = max_out"
    and "\<forall>qid t. slot_pending (cl_slots s) qid = Some t \<longrightarrow> timeout_ns \<le> sat_sub (it_sweep_ns env) t"
    and "TIMEOUT_CHECK_INTERVAL \<le> it_sweep_at env - cl_last_sweep s"
  shows "\<exists>s'. closed_loop_iter H pool max_out timeout_ns ramp env s = Some s' \<and> outstanding s' < max_out"
proof -
  let ?s = "reload_rate ramp env s"
  have keep: "outstanding ?s = max_out" "cl_slots ?s = cl_slots s" "cl_last_sweep ?s = cl_last_sweep s"
    using assms(2) by (simp_all add: reload_rate_def)
  let ?r = "fold (recv_one H timeout_ns (it_recv_ns env)) (take RX_BATCH (it_recv env)) ?s"
  have inv: "cl_inv max_out lost ?r" using assms(1) by (simp add: fold_recv_inv)
  have "\<forall>v \<in> set (cl_slots s). v \<noteq> 0 \<longrightarrow> timeout_ns \<le> sat_sub (it_sweep_ns env) v"
    using assms(1,3) by (auto simp: cl_inv_def dest: slot_pending_in_set)
  then have "\<forall>v \<in> set (cl_slots ?r). v \<noteq> 0 \<longrightarrow> timeout_ns \<le> sat_sub (it_sweep_ns env) v"
    using fold_recv_slots [of H timeout_ns "it_recv_ns env" "take RX_BATCH (it_recv env)" ?s] keep(2) by auto
  then have "outstanding (sweep_slots timeout_ns (it_sweep_ns env) ?r) < max_out"
    by (rule sweep_reopens [OF inv])
  then show ?thesis
    using assms(4) keep by (simp add: closed_loop_iter_def send_fill.simps Let_def fold_recv_last_sweep)
qed

theorem closed_gate_reopens_witness:
  "\<exists>s'. closed_loop_iter list_hist \<lparr>templates = []\<rparr> 1 1000 False
      \<lparr>it_qps = 0, it_start = 0, it_send = (\<lambda>_. \<lparr>se_due = 0, se_ns = 7, se_ret = Sent, se_now = 0\<rparr>),
        it_recv = [], it_recv_ns = 0, it_sweep_at = 10000000, it_sweep_ns = 1007, it_sweep_done = 0\<rparr>
      (after_send \<lparr>se_due = 0, se_ns = 7, se_ret = Sent, se_now = 0\<rparr> 9
        (closed_loop_new 9 0 0 0 0 (stats_new list_hist))) = Some s' \<and> outstanding s' < 1"
proof (rule closed_gate_reopens)
  let ?init = "closed_loop_new 9 0 0 0 0 (stats_new list_hist)"
  let ?s = "after_send \<lparr>se_due = 0, se_ns = 7, se_ret = Sent, se_now = 0\<rparr> 9 ?init"
  have i: "cl_inv 1 0 ?init" by (rule cl_inv_new) (simp_all add: stats_new_def)
  then show "cl_inv 1 0 ?s" by (rule after_send_inv) (simp add: closed_loop_new_def)
  have "slot_pending (cl_slots ?s) = (slot_pending slots_new)(9 := Some 7)"
    using slots_update_pending(2) [OF slots_new_wf, of 9 7]
    by (simp add: after_send_def closed_loop_new_def Let_def max_1_eq)
  then show "\<forall>qid t. slot_pending (cl_slots ?s) qid = Some t \<longrightarrow> 1000 \<le> sat_sub (it_sweep_ns
      \<lparr>it_qps = 0, it_start = 0, it_send = (\<lambda>_. \<lparr>se_due = 0, se_ns = 7, se_ret = Sent, se_now = 0\<rparr>),
        it_recv = [], it_recv_ns = 0, it_sweep_at = 10000000, it_sweep_ns = 1007, it_sweep_done = 0\<rparr>) t"
    by (simp add: sat_sub_def slots_new_pending)
qed (simp_all add: after_send_def closed_loop_new_def Let_def TIMEOUT_CHECK_INTERVAL_def)

end
