(* ===== verification/Udp_Legacy.thy ===== *)
theory Udp_Legacy
  imports Udp_Workers
begin

text \<open>
  The single-thread worker of \<^verbatim>\<open>src/transport/udp.rs\<close> that uses the tagged table
  (\<^verbatim>\<open>unified_udp_worker\<close>): one send, a wait, a drain and a sweep per iteration. The file keeps it beside the
  closed loop that superseded it. Its accounting is exact because ids are drawn in sequence, so a slot
  never holds the id that is about to be inserted.
\<close>

section \<open>The worker\<close>

definition RECV_BATCH :: nat where "RECV_BATCH = 64"

record legacy_env =
  le_qps :: u64
  le_now :: nat
  le_send_ns :: u64
  le_ret :: send_ret
  le_peek :: "bytes option"
  le_peek_ns :: u64
  le_msgs :: "bytes list"
  le_recv_ns :: u64
  le_sweep_ns :: u64

record 'h legacy =
  lg_table :: tagged
  lg_local :: nat
  lg_global :: u64
  lg_next_id :: u16
  lg_tmpl_idx :: u64
  lg_buf :: bytes
  lg_last_qps :: u64
  lg_interval :: nat
  lg_next_send :: nat
  lg_last_check :: nat
  lg_stats :: "'h stats"

definition legacy_new :: "nat \<Rightarrow> u64 \<Rightarrow> u16 \<Rightarrow> u64 \<Rightarrow> nat \<Rightarrow> nat \<Rightarrow> 'h stats \<Rightarrow> 'h legacy" where
  "legacy_new max_out global rid ridx now now' st =
     \<lparr>lg_table = tagged_new (max max_out 1024), lg_local = 0, lg_global = global, lg_next_id = rid,
      lg_tmpl_idx = ridx, lg_buf = replicate MAX_QUERY 0, lg_last_qps = 0, lg_interval = 0,
      lg_next_send = now, lg_last_check = now', lg_stats = st\<rparr>"

definition legacy_rate :: "legacy_env \<Rightarrow> 'h legacy \<Rightarrow> 'h legacy" where
  "legacy_rate e s =
     (if le_qps e \<noteq> lg_last_qps s
      then s\<lparr>lg_interval := pace_ns 1 (le_qps e), lg_next_send := le_now e, lg_last_qps := le_qps e\<rparr>
      else s)"

text \<open>Bookkeeping of a query the kernel accepted.\<close>

definition legacy_sent :: "legacy_env \<Rightarrow> 'h legacy \<Rightarrow> 'h legacy" where
  "legacy_sent e s =
     (case tagged_insert (lg_next_id s) (le_send_ns e) (lg_table s) of
        (evicted, T) \<Rightarrow>
          let s = s\<lparr>lg_table := T\<rparr>;
              s = (if evicted \<noteq> None
                   then s\<lparr>lg_stats := inc_timeout (lg_stats s), lg_global := lg_global s - 1, lg_local := lg_local s - 1\<rparr>
                   else s);
              s = s\<lparr>lg_global := lg_global s + 1, lg_local := lg_local s + 1, lg_stats := inc_sent (lg_stats s),
                    lg_next_id := lg_next_id s + 1\<rparr>
          in if 0 < le_qps e then
               let ns = lg_next_send s + lg_interval s
               in s\<lparr>lg_next_send := if ns < le_now e then le_now e + lg_interval s else ns\<rparr>
             else s)"

definition legacy_send :: "wire_query_pool \<Rightarrow> nat \<Rightarrow> legacy_env \<Rightarrow> 'h legacy \<Rightarrow> 'h legacy option" where
  "legacy_send pool max_out e s =
     (if (0 < max_out \<longrightarrow> lg_local s < max_out) \<and> (le_qps e = 0 \<or> lg_next_send s \<le> le_now e) then
        (case write_with_index pool (unat (lg_tmpl_idx s)) (lg_next_id s) (lg_buf s) of
           None \<Rightarrow> None
         | Some (qlen, buf) \<Rightarrow>
             let s = s\<lparr>lg_tmpl_idx := lg_tmpl_idx s + 1, lg_buf := buf\<rparr>
             in (case le_ret e of
                   Sent \<Rightarrow> Some (legacy_sent e s)
                 | WouldBlock \<Rightarrow> Some s
                 | SendError \<Rightarrow> Some (s\<lparr>lg_stats := inc_error (lg_stats s)\<rparr>)))
      else Some s)"

definition legacy_recv :: "'h hist_ops \<Rightarrow> u64 \<Rightarrow> bytes \<Rightarrow> 'h legacy \<Rightarrow> 'h legacy" where
  "legacy_recv H recv_ns msg s =
     (let buf = take MAX_MSG_SIZE msg; len = length buf
      in if len < 2 then s
         else
           let qid = from_be16 (buf ! 0) (buf ! 1);
               rcode = (if 4 \<le> len then buf ! 3 AND 0x0F else 0)
           in (case tagged_take qid recv_ns (lg_table s) of
                 (Some rtt_ns, T) \<Rightarrow>
                   s\<lparr>lg_table := T, lg_stats := record_response H rcode (max (rtt_ns div 1000) 1) (lg_stats s),
                     lg_global := lg_global s - 1, lg_local := lg_local s - 1\<rparr>
               | (None, T) \<Rightarrow> s\<lparr>lg_table := T\<rparr>))"

text \<open>
  The wait until the next send: only a wait of less than a millisecond reads the socket, at most
  one datagram.
\<close>

definition legacy_wait :: "'h hist_ops \<Rightarrow> legacy_env \<Rightarrow> 'h legacy \<Rightarrow> 'h legacy" where
  "legacy_wait H e s =
     (let poll_us = (if 0 < le_qps e \<and> le_now e < lg_next_send s then (lg_next_send s - le_now e) div 1000 else 0)
      in if 1000 \<le> poll_us then s
         else if 0 < poll_us then
           (case le_peek e of None \<Rightarrow> s | Some msg \<Rightarrow> legacy_recv H (le_peek_ns e) msg s)
         else s)"

definition legacy_lost :: "nat \<Rightarrow> 'h legacy \<Rightarrow> 'h legacy" where
  "legacy_lost n s =
     (let s = s\<lparr>lg_stats := (inc_timeout ^^ n) (lg_stats s)\<rparr>
      in if 0 < n then s\<lparr>lg_global := sat_sub (lg_global s) (of_nat n), lg_local := lg_local s - n\<rparr> else s)"

definition legacy_sweep :: "u64 \<Rightarrow> legacy_env \<Rightarrow> 'h legacy \<Rightarrow> 'h legacy" where
  "legacy_sweep timeout_ns e s =
     (if TIMEOUT_CHECK_INTERVAL \<le> le_now e - lg_last_check s then
        (case tagged_sweep (le_sweep_ns e) timeout_ns (lg_table s) of
           (expired, T) \<Rightarrow> (legacy_lost (length expired) (s\<lparr>lg_table := T\<rparr>))\<lparr>lg_last_check := le_now e\<rparr>)
      else s)"

definition legacy_iter ::
  "'h hist_ops \<Rightarrow> wire_query_pool \<Rightarrow> nat \<Rightarrow> u64 \<Rightarrow> legacy_env \<Rightarrow> 'h legacy \<Rightarrow> 'h legacy option" where
  "legacy_iter H pool max_out timeout_ns e s =
     (case legacy_send pool max_out e (legacy_rate e s) of
        None \<Rightarrow> None
      | Some s \<Rightarrow>
          Some (legacy_sweep timeout_ns e
            (fold (legacy_recv H (le_recv_ns e)) (take RECV_BATCH (le_msgs e)) (legacy_wait H e s))))"

definition legacy_finish :: "u64 \<Rightarrow> 'h legacy \<Rightarrow> 'h legacy" where
  "legacy_finish now_ns s =
     (case tagged_drain now_ns (lg_table s) of
        (remaining, T) \<Rightarrow> legacy_lost (length remaining) (s\<lparr>lg_table := T\<rparr>))"

fun legacy_run ::
  "'h hist_ops \<Rightarrow> wire_query_pool \<Rightarrow> nat \<Rightarrow> u64 \<Rightarrow> u64 \<Rightarrow> legacy_env list \<Rightarrow> 'h legacy \<Rightarrow> 'h legacy option" where
  "legacy_run H pool max_out timeout_ns end_ns [] s = Some (legacy_finish end_ns s)"
| "legacy_run H pool max_out timeout_ns end_ns (e # es) s =
     (case legacy_iter H pool max_out timeout_ns e s of
        None \<Rightarrow> None
      | Some s' \<Rightarrow> legacy_run H pool max_out timeout_ns end_ns es s')"

section \<open>Sequential ids\<close>

definition tagged_occupied_count :: "tagged \<Rightarrow> nat" where
  "tagged_occupied_count T = length (filter (\<lambda>s. snd s \<noteq> 0) T)"

text \<open>Every id in the table was drawn at most a table length ago.\<close>

definition recent :: "u16 \<Rightarrow> tagged \<Rightarrow> bool" where
  "recent next_id T \<longleftrightarrow>
     (\<forall>i < length T. snd (T ! i) \<noteq> 0 \<longrightarrow>
        0 < unat (next_id - fst (T ! i)) \<and> unat (next_id - fst (T ! i)) \<le> length T)"

lemma tagged_index_mod: "length T = 2 ^ k \<Longrightarrow> tagged_index T qid = unat qid mod 2 ^ k"
  unfolding tagged_index_def take_bit_eq_mod [symmetric] by (simp add: take_bit_eq_mask mask_eq_exp_minus_1)

lemma tagged_index_wrap:
  assumes "length T = 2 ^ k" and "k < 16" and "unat (next_id - qid) = length T"
  shows "tagged_index T qid = tagged_index T next_id"
proof -
  have "unat next_id = unat (qid + (next_id - qid))" by simp
  also have "\<dots> = (unat qid + 2 ^ k) mod 2 ^ 16"
    unfolding unat_word_ariths(1) assms(3) assms(1) by simp
  finally have "unat next_id mod 2 ^ k = (unat qid + 2 ^ k) mod 2 ^ 16 mod 2 ^ k" by simp
  also have "\<dots> = (unat qid + 2 ^ k) mod 2 ^ k"
    using assms(2) by (intro mod_mod_cancel le_imp_power_dvd) simp
  finally have "unat next_id mod 2 ^ k = unat qid mod 2 ^ k" by simp
  then show ?thesis by (simp add: tagged_index_mod [OF assms(1)])
qed

lemma recent_clear:
  assumes "recent next_id T"
  shows "recent next_id (T[i := (0, 0)])"
  unfolding recent_def
proof (intro allI impI)
  fix j
  assume "j < length (T[i := (0, 0)])" "snd (T[i := (0, 0)] ! j) \<noteq> 0"
  then show "0 < unat (next_id - fst (T[i := (0, 0)] ! j)) \<and>
      unat (next_id - fst (T[i := (0, 0)] ! j)) \<le> length (T[i := (0, 0)])"
    using assms by (cases "j = i") (simp_all add: recent_def)
qed

lemma recent_map_clear:
  "recent next_id T \<Longrightarrow> recent next_id (map (\<lambda>s. if P s then (0, 0) else s) T)"
  by (auto simp: recent_def)

lemma recent_insert:
  assumes wf: "tagged_wf T" and len: "length T < 65536" and r: "recent next_id T"
  shows "recent (next_id + 1) (T[tagged_index T next_id := (next_id, t)])"
  unfolding recent_def
proof (intro allI impI)
  let ?T = "T[tagged_index T next_id := (next_id, t)]"
  fix i
  assume i: "i < length ?T" and occ: "snd (?T ! i) \<noteq> 0"
  obtain k where k: "length T = 2 ^ k" using wf by (auto simp: tagged_wf_def)
  with len have k16: "k < 16" using power_increasing_iff [of "2 :: nat" 16 k] by (auto simp: not_less [symmetric])
  show "0 < unat (next_id + 1 - fst (?T ! i)) \<and> unat (next_id + 1 - fst (?T ! i)) \<le> length ?T"
  proof (cases "i = tagged_index T next_id")
    case True
    then show ?thesis using tagged_index_less [OF wf, of next_id] k by simp
  next
    case False
    let ?d = "next_id - fst (T ! i)"
    from False i occ r have d: "0 < unat ?d" "unat ?d \<le> length T" and o: "snd (T ! i) \<noteq> 0"
      by (simp_all add: recent_def)
    have "tagged_index T (fst (T ! i)) = i" using wf i o by (simp add: tagged_wf_def)
    with False have ne: "unat ?d \<noteq> length T" using tagged_index_wrap [OF k k16] by metis
    with d len have "Suc (unat ?d) < 65536" by simp
    then have "unat (?d + 1) = unat ?d + 1" by (simp add: unat_word_ariths)
    with ne show ?thesis using False d by (simp add: algebra_simps)
  qed
qed

section \<open>The invariant\<close>

definition legacy_inv :: "'h legacy \<Rightarrow> bool" where
  "legacy_inv s \<longleftrightarrow>
     tagged_wf (lg_table s) \<and> length (lg_table s) < 65536 \<and> recent (lg_next_id s) (lg_table s) \<and>
     lg_local s = tagged_occupied_count (lg_table s) \<and> lg_global s = of_nat (lg_local s) \<and>
     sent (lg_stats s) = completed (lg_stats s) + timeouts (lg_stats s) + of_nat (lg_local s) \<and>
     length (lg_buf s) = MAX_QUERY"

lemma tagged_count_update:
  "i < length T \<Longrightarrow>
     tagged_occupied_count (T[i := v]) + (if snd (T ! i) \<noteq> 0 then 1 else 0) =
     tagged_occupied_count T + (if snd v \<noteq> 0 then 1 else 0)"
  unfolding tagged_occupied_count_def by (rule length_filter_update)

lemma legacy_sent_inv:
  assumes inv: "legacy_inv s" and ns: "le_send_ns e \<noteq> 0"
  shows "legacy_inv (legacy_sent e s)"
proof -
  let ?T = "lg_table s" and ?q = "lg_next_id s"
  let ?i = "tagged_index ?T ?q"
  let ?T' = "?T[?i := (?q, le_send_ns e)]"
  have wf: "tagged_wf ?T" and len: "length ?T < 65536" and r: "recent ?q ?T" using inv by (simp_all add: legacy_inv_def)
  have i: "?i < length ?T" by (rule tagged_index_less [OF wf])
  have wf': "tagged_wf ?T'" using tagged_update_wf [OF wf, of "(?q, le_send_ns e)" ?q "le_send_ns e"] by simp
  have r': "recent (?q + 1) ?T'" by (rule recent_insert [OF wf len r])
  have cnt: "tagged_occupied_count ?T' + (if snd (?T ! ?i) \<noteq> 0 then 1 else 0) = tagged_occupied_count ?T + 1"
    using tagged_count_update [OF i, of "(?q, le_send_ns e)"] ns by simp
  have ev: "tagged_insert ?q (le_send_ns e) ?T =
      (if snd (?T ! ?i) \<noteq> 0 then Some (sat_sub (le_send_ns e) (snd (?T ! ?i)) div 1000) else None, ?T')"
    using r i by (auto simp: tagged_insert_def recent_def Let_def)
  have pos: "snd (?T ! ?i) \<noteq> 0 \<Longrightarrow> 0 < tagged_occupied_count ?T"
    using i by (auto simp: tagged_occupied_count_def filter_empty_conv)
  show ?thesis
    using inv wf' r' cnt pos
    by (auto simp: legacy_sent_def ev legacy_inv_def Let_def inc_sent_def inc_timeout_def algebra_simps of_nat_diff)
qed

lemma legacy_recv_inv: "legacy_inv s \<Longrightarrow> legacy_inv (legacy_recv H ns msg s)"
proof -
  assume inv: "legacy_inv s"
  let ?T = "lg_table s"
  define qid where "qid = from_be16 (take MAX_MSG_SIZE msg ! 0) (take MAX_MSG_SIZE msg ! 1)"
  let ?i = "tagged_index ?T qid"
  have wf: "tagged_wf ?T" and r: "recent (lg_next_id s) ?T" using inv by (simp_all add: legacy_inv_def)
  have i: "?i < length ?T" by (rule tagged_index_less [OF wf])
  have wf': "tagged_wf (?T[?i := (0, 0)])" using tagged_update_wf [OF wf, of "(0, 0)" qid 0] by simp
  have r': "recent (lg_next_id s) (?T[?i := (0, 0)])" by (rule recent_clear [OF r])
  have cnt: "snd (?T ! ?i) \<noteq> 0 \<Longrightarrow> Suc (tagged_occupied_count (?T[?i := (0, 0)])) = tagged_occupied_count ?T"
    using tagged_count_update [OF i, of "(0, 0)"] by simp
  show ?thesis
    unfolding legacy_recv_def Let_def qid_def [symmetric] tagged_take_def
    using inv wf' r' cnt by (auto simp: legacy_inv_def algebra_simps)
qed

lemma tagged_count_clear:
  "length (filter (\<lambda>p. snd p \<noteq> 0 \<and> P (snd p)) T) +
     tagged_occupied_count (map (\<lambda>p. if snd p \<noteq> 0 \<and> P (snd p) then (0, 0) else p) T) = tagged_occupied_count T"
  unfolding tagged_occupied_count_def by (induction T) auto

lemma legacy_lost_inv:
  assumes inv: "legacy_inv s"
    and T: "T = map (\<lambda>p. if snd p \<noteq> 0 \<and> P (snd p) then (0, 0) else p) (lg_table s)"
    and n: "n = length (filter (\<lambda>p. snd p \<noteq> 0 \<and> P (snd p)) (lg_table s))"
  shows "legacy_inv (legacy_lost n (s\<lparr>lg_table := T\<rparr>))"
proof -
  have cnt: "n + tagged_occupied_count T = lg_local s"
    using tagged_count_clear [of P "lg_table s"] inv unfolding n T by (simp add: legacy_inv_def)
  have le: "lg_local s < 65536"
    using inv length_filter_le [of "\<lambda>p. snd p \<noteq> 0" "lg_table s"]
    unfolding legacy_inv_def tagged_occupied_count_def by linarith
  have g: "sat_sub (of_nat (lg_local s)) (of_nat n) = (of_nat (lg_local s - n) :: u64)"
    using cnt le by (simp add: word_unat_eq_iff unat_of_nat del: of_nat_diff)
  have "of_nat (lg_local s) = of_nat n + (of_nat (lg_local s - n) :: u64)"
    using cnt by (simp flip: of_nat_add)
  moreover have "lg_local s - n = tagged_occupied_count T" using cnt by simp
  moreover have "tagged_wf T" "recent (lg_next_id s) T" "length T = length (lg_table s)"
    using inv tagged_sweep_wf [of "lg_table s" P] recent_map_clear [of "lg_next_id s" "lg_table s"]
    by (simp_all add: T legacy_inv_def)
  ultimately show ?thesis
    using inv g unfolding legacy_inv_def legacy_lost_def Let_def
    by (cases "n = 0") (simp_all add: inc_timeout_pow add.assoc)
qed

lemma legacy_send_inv:
  assumes "pool_fits pool" and "legacy_inv s" and "le_send_ns e \<noteq> 0"
  shows "\<exists>s'. legacy_send pool max_out e s = Some s' \<and> legacy_inv s'"
proof -
  have "length (lg_buf s) = MAX_QUERY" using assms(2) by (simp add: legacy_inv_def)
  then obtain n buf where w: "write_with_index pool (unat (lg_tmpl_idx s)) (lg_next_id s) (lg_buf s) = Some (n, buf)"
    and len: "length buf = MAX_QUERY"
    using pool_fitsE [OF assms(1), of "lg_buf s"] by (metis order_refl)
  let ?s = "s\<lparr>lg_tmpl_idx := lg_tmpl_idx s + 1, lg_buf := buf\<rparr>"
  have inv: "legacy_inv ?s" using assms(2) len by (simp add: legacy_inv_def)
  then have "legacy_inv (?s\<lparr>lg_stats := inc_error (lg_stats ?s)\<rparr>)"
    by (simp add: legacy_inv_def inc_error_def)
  with inv legacy_sent_inv [OF inv assms(3)] assms(2) show ?thesis
    by (auto simp: legacy_send_def w Let_def split: send_ret.split)
qed

lemma legacy_fold_recv_inv: "legacy_inv s \<Longrightarrow> legacy_inv (fold (legacy_recv H ns) msgs s)"
  by (induction msgs arbitrary: s) (simp_all add: legacy_recv_inv)

lemma legacy_wait_inv: "legacy_inv s \<Longrightarrow> legacy_inv (legacy_wait H e s)"
  by (simp add: legacy_wait_def Let_def legacy_recv_inv split: option.split)

lemma legacy_sweep_inv: "legacy_inv s \<Longrightarrow> legacy_inv (legacy_sweep timeout_ns e s)"
  using legacy_lost_inv [of s _ "\<lambda>t. timeout_ns \<le> sat_sub (le_sweep_ns e) t"]
  by (simp add: legacy_sweep_def tagged_sweep_def legacy_inv_def)

lemma legacy_rate_inv: "legacy_inv s \<Longrightarrow> legacy_inv (legacy_rate e s)"
  by (simp add: legacy_rate_def legacy_inv_def)

lemma legacy_iter_inv:
  assumes "pool_fits pool" and "legacy_inv s" and "le_send_ns e \<noteq> 0"
  shows "\<exists>s'. legacy_iter H pool max_out timeout_ns e s = Some s' \<and> legacy_inv s'"
  using legacy_send_inv [OF assms(1) legacy_rate_inv [OF assms(2)] assms(3), where max_out = max_out and e1 = e]
  by (auto simp: legacy_iter_def legacy_sweep_inv legacy_fold_recv_inv legacy_wait_inv)

lemma legacy_finish_inv:
  assumes "legacy_inv s"
  shows "legacy_inv (legacy_finish now_ns s)" "lg_local (legacy_finish now_ns s) = 0"
proof -
  show inv: "legacy_inv (legacy_finish now_ns s)"
    using legacy_lost_inv [OF assms, of _ "\<lambda>t. True"] by (simp add: legacy_finish_def tagged_drain_def)
  have "lg_table (legacy_finish now_ns s) = map (\<lambda>p. if snd p \<noteq> 0 then (0, 0) else p) (lg_table s)"
    by (simp add: legacy_finish_def tagged_drain_def legacy_lost_def Let_def)
  with inv show "lg_local (legacy_finish now_ns s) = 0"
    by (auto simp: legacy_inv_def tagged_occupied_count_def filter_empty_conv)
qed

lemma legacy_run_inv:
  assumes "pool_fits pool"
  shows "legacy_inv s \<Longrightarrow> \<forall>e \<in> set envs. le_send_ns e \<noteq> 0 \<Longrightarrow>
    \<exists>s'. legacy_run H pool max_out timeout_ns end_ns envs s = Some s' \<and> legacy_inv s' \<and> lg_local s' = 0"
proof (induction envs arbitrary: s)
  case (Cons e es)
  from legacy_iter_inv [OF assms Cons.prems(1), of e H max_out timeout_ns] Cons.prems(2)
  obtain s1 where "legacy_iter H pool max_out timeout_ns e s = Some s1" "legacy_inv s1" by auto
  with Cons.IH [of s1] Cons.prems(2) show ?case by simp
qed (simp add: legacy_finish_inv)

lemma tagged_new_length: "n \<le> 32768 \<Longrightarrow> length (tagged_new n) < 65536"
proof -
  assume "n \<le> 32768"
  then have "n - 1 < 2 ^ 15" by simp
  then have "floorlog 2 (n - 1) \<le> 15" by (intro floorlog_leI) simp_all
  then have "(2 :: nat) ^ floorlog 2 (n - 1) \<le> 2 ^ 15" by (intro power_increasing) simp_all
  then show ?thesis by (simp add: tagged_new_def next_power_of_two_def)
qed

lemma legacy_new_inv:
  assumes "max_out \<le> 32768"
  shows "legacy_inv (legacy_new max_out 0 rid ridx now now' (stats_new H))"
  using tagged_new_wf [of "max max_out 1024"] tagged_new_length [of "max max_out 1024"] assms
  by (auto simp: legacy_inv_def legacy_new_def stats_new_def recent_def tagged_occupied_count_def tagged_new_def)

section \<open>Property\<close>

text \<open>The single-thread worker loses no query: with a gate of at most 32768 and a clock past its origin, in
  every run the number of queries sent is, after the final drain, exactly the completed ones plus the
  timeouts, where evicted, expired and undrained queries are the timeouts, and the shared in-flight
  count is back to zero.\<close>

theorem legacy_worker_accounts_exactly:
  assumes "from_pairs entries = Some pool" and "\<forall>(name, qtype) \<in> set entries. length name \<le> 494"
    and "max_out \<le> 32768" and "\<forall>e \<in> set envs. le_send_ns e \<noteq> 0"
  shows "\<exists>s. legacy_run H pool max_out timeout_ns end_ns envs
               (legacy_new max_out 0 rid ridx now now' (stats_new H)) = Some s \<and>
    sent (lg_stats s) = completed (lg_stats s) + timeouts (lg_stats s) \<and> lg_global s = 0"
  using legacy_run_inv [OF pool_fitsI [OF assms(1,2)] legacy_new_inv [OF assms(3)] assms(4)]
  by (fastforce simp: legacy_inv_def)

theorem legacy_worker_accounts_exactly_witness:
  "\<exists>pool s. from_pairs [(''a.com'', 1)] = Some pool \<and>
     legacy_run list_hist pool 100 5000000000 77
       [\<lparr>le_qps = 0, le_now = 0, le_send_ns = 5, le_ret = Sent, le_peek = None, le_peek_ns = 0,
         le_msgs = [[0, 9, 128, 0]], le_recv_ns = 20, le_sweep_ns = 30\<rparr>]
       (legacy_new 100 0 9 0 0 0 (stats_new list_hist)) = Some s \<and>
     sent (lg_stats s) = completed (lg_stats s) + timeouts (lg_stats s)"
proof -
  obtain pool where p: "from_pairs [(''a.com'', 1)] = Some pool" by (simp add: from_pairs_def)
  from legacy_worker_accounts_exactly [OF p, of 100 "[\<lparr>le_qps = 0, le_now = 0, le_send_ns = 5, le_ret = Sent,
    le_peek = None, le_peek_ns = 0, le_msgs = [[0, 9, 128, 0]], le_recv_ns = 20, le_sweep_ns = 30\<rparr>]"
    list_hist 5000000000 77 9 0 0 0] p
  show ?thesis by fastforce
qed

end
