(* ===== verification/Udp_Flood.thy ===== *)
theory Udp_Flood
  imports Udp_Workers
begin

text \<open>
  The flood pair of \<^verbatim>\<open>src/transport/udp.rs\<close>: a transmit thread that sends batches of 64 queries with one
  \<^verbatim>\<open>sendmmsg\<close> (\<^verbatim>\<open>throughput_udp_tx\<close>) and a receive thread that drains replies
  (\<^verbatim>\<open>throughput_udp_rx\<close>). They share the in-flight table and the collector and keep their counts in
  locals that they flush every 16 batches. A run is an arbitrary interleaving of their iterations.
\<close>

section \<open>The transmit thread\<close>

definition TX_BATCH :: nat where "TX_BATCH = 64"

definition FLUSH_STATS :: nat where "FLUSH_STATS = 16"

record flood_tx =
  ft_bufs :: "bytes list"
  ft_local_sent :: u64
  ft_next_id :: u16
  ft_tmpl_idx :: u64
  ft_batch_ctr :: nat
  ft_next_batch :: nat
  ft_last_qps :: u64
  ft_interval :: nat

definition flood_tx_new :: "u16 \<Rightarrow> u64 \<Rightarrow> nat \<Rightarrow> flood_tx" where
  "flood_tx_new rid ridx now =
     \<lparr>ft_bufs = replicate TX_BATCH (replicate MAX_QUERY 0), ft_local_sent = 0, ft_next_id = rid,
      ft_tmpl_idx = ridx, ft_batch_ctr = 0, ft_next_batch = now, ft_last_qps = 0, ft_interval = 0\<rparr>"

text \<open>What an iteration reads: the shared rate, the clock, the result of \<^verbatim>\<open>sendmmsg\<close>.\<close>

record tx_env =
  te_qps :: u64
  te_changed :: nat
  te_due :: nat
  te_send_ns :: u64
  te_ret :: int
  te_now :: nat
  te_egress_ns :: u64

text \<open>The packets handed to the kernel, and the buffers they live in.\<close>

fun fill_batch :: "wire_query_pool \<Rightarrow> bytes list \<Rightarrow> u64 \<Rightarrow> u16 \<Rightarrow> (bytes list \<times> bytes list \<times> u64 \<times> u16) option" where
  "fill_batch pool [] tmpl_idx next_id = Some ([], [], tmpl_idx, next_id)"
| "fill_batch pool (slot # slots) tmpl_idx next_id =
     (case write_with_index pool (unat tmpl_idx) next_id slot of
        None \<Rightarrow> None
      | Some (qlen, slot') \<Rightarrow>
          (case fill_batch pool slots (tmpl_idx + 1) (next_id + 1) of
             None \<Rightarrow> None
           | Some (packets, slots', t, i) \<Rightarrow> Some (take qlen slot' # packets, slot' # slots', t, i)))"

fun insert_batch :: "nat \<Rightarrow> u16 \<Rightarrow> u64 \<Rightarrow> slots \<Rightarrow> slots" where
  "insert_batch 0 qid send_ns T = T"
| "insert_batch (Suc n) qid send_ns T = insert_batch n (qid + 1) send_ns (shared_insert qid send_ns T)"

definition tx_rate :: "bool \<Rightarrow> tx_env \<Rightarrow> flood_tx \<Rightarrow> flood_tx" where
  "tx_rate track e t =
     (if track \<and> te_qps e \<noteq> ft_last_qps t
      then t\<lparr>ft_interval := pace_ns TX_BATCH (te_qps e), ft_next_batch := te_changed e,
             ft_last_qps := te_qps e\<rparr>
      else t)"

definition tx_is_due :: "bool \<Rightarrow> tx_env \<Rightarrow> flood_tx \<Rightarrow> bool" where
  "tx_is_due track e t \<longleftrightarrow> \<not> track \<or> te_qps e = 0 \<or> ft_next_batch t \<le> te_due e"

text \<open>One \<^verbatim>\<open>sendmmsg\<close> of a full batch.\<close>

definition tx_batch :: "wire_query_pool \<Rightarrow> bool \<Rightarrow> tx_env \<Rightarrow> flood_tx \<Rightarrow> slots \<Rightarrow> (flood_tx \<times> slots) option" where
  "tx_batch pool track e t T =
     (let batch_start_id = ft_next_id t
      in case fill_batch pool (ft_bufs t) (ft_tmpl_idx t) (ft_next_id t) of
           None \<Rightarrow> None
         | Some (packets, bufs, tmpl, next_id) \<Rightarrow>
             let t = t\<lparr>ft_bufs := bufs, ft_tmpl_idx := tmpl, ft_next_id := next_id\<rparr>;
                 send_ns = (if track then te_send_ns e else 0);
                 (t, T) = (if 0 < te_ret e
                           then (t\<lparr>ft_local_sent := ft_local_sent t + of_int (te_ret e)\<rparr>,
                                 if track then insert_batch (nat (te_ret e)) batch_start_id send_ns T else T)
                           else (t, T));
                 t = t\<lparr>ft_batch_ctr := ft_batch_ctr t + 1\<rparr>;
                 t = (if track \<and> 0 < ft_last_qps t
                      then t\<lparr>ft_next_batch := max (ft_next_batch t + ft_interval t) (te_now e)\<rparr>
                      else t)
             in Some (t, T))"

definition tx_flush :: "tx_env \<Rightarrow> flood_tx \<Rightarrow> 'h stats \<Rightarrow> flood_tx \<times> 'h stats" where
  "tx_flush e t st =
     (if ft_batch_ctr t mod FLUSH_STATS = 0 \<and> 0 < ft_local_sent t
      then (t\<lparr>ft_local_sent := 0\<rparr>, inc_sent_n (te_egress_ns e) (unat (ft_local_sent t)) st)
      else (t, st))"

definition tx_iter ::
  "wire_query_pool \<Rightarrow> bool \<Rightarrow> tx_env \<Rightarrow> flood_tx \<Rightarrow> slots \<Rightarrow> 'h stats \<Rightarrow> (flood_tx \<times> slots \<times> 'h stats) option" where
  "tx_iter pool track e t T st =
     (let t = tx_rate track e t
      in case (if tx_is_due track e t then tx_batch pool track e t T else Some (t, T)) of
           None \<Rightarrow> None
         | Some (t, T) \<Rightarrow> (case tx_flush e t st of (t, st) \<Rightarrow> Some (t, T, st)))"

definition tx_finish :: "u64 \<Rightarrow> flood_tx \<Rightarrow> 'h stats \<Rightarrow> 'h stats" where
  "tx_finish egress_ns t st =
     (if 0 < ft_local_sent t then inc_sent_n egress_ns (unat (ft_local_sent t)) st else st)"

section \<open>The receive thread\<close>

record flood_rx =
  fr_rc :: "u64 list"
  fr_since_flush :: nat
  fr_last_sweep :: nat

definition flood_rx_new :: "nat \<Rightarrow> flood_rx" where
  "flood_rx_new now = \<lparr>fr_rc = replicate 5 0, fr_since_flush = 0, fr_last_sweep = now\<rparr>"

record rx_env =
  re_sweep_at :: nat
  re_sweep_ns :: u64
  re_sweep_done :: nat
  re_poll :: bool
  re_msgs :: "bytes list"
  re_recv_ns :: "nat \<Rightarrow> u64"

definition rcode_class :: "u8 \<Rightarrow> nat" where
  "rcode_class rcode =
     (if rcode = 0 then 0 else if rcode = 3 then 1 else if rcode = 2 then 2 else if rcode = 5 then 3 else 4)"

definition rcode_index :: "bytes \<Rightarrow> nat" where
  "rcode_index buf = (case map_option resp_rcode (parse_response buf) of Some rcode \<Rightarrow> rcode_class rcode | None \<Rightarrow> 4)"

definition lat_horizon :: "u64 \<Rightarrow> u64" where
  "lat_horizon timeout_ns = min timeout_ns 200000000"

text \<open>One datagram.\<close>

definition rx_one ::
  "'h hist_ops \<Rightarrow> bool \<Rightarrow> u64 \<Rightarrow> u64 \<Rightarrow> bytes \<Rightarrow> u64 list \<times> slots \<times> 'h stats \<Rightarrow> u64 list \<times> slots \<times> 'h stats" where
  "rx_one H track horizon recv_ns msg = (\<lambda>(rc, T, st).
     let buf = take MAX_MSG_SIZE msg;
         idx = rcode_index buf;
         rc = rc[idx := rc ! idx + 1]
     in if track \<and> 2 \<le> length buf then
          (case shared_take (from_be16 (buf ! 0) (buf ! 1)) recv_ns T of
             (Some rtt_ns, T) \<Rightarrow>
               if rtt_ns \<le> horizon
               then (rc, T, record_latency_us H (max (rtt_ns div 1000) 1) st)
               else (rc, T, inc_timeout st)
           | (None, T) \<Rightarrow> (rc, T, st))
        else (rc, T, st))"

fun rx_all ::
  "'h hist_ops \<Rightarrow> bool \<Rightarrow> u64 \<Rightarrow> (nat \<Rightarrow> u64) \<Rightarrow> nat \<Rightarrow> bytes list \<Rightarrow>
   u64 list \<times> slots \<times> 'h stats \<Rightarrow> u64 list \<times> slots \<times> 'h stats" where
  "rx_all H track horizon clock i [] x = x"
| "rx_all H track horizon clock i (m # ms) x =
     rx_all H track horizon clock (Suc i) ms (rx_one H track horizon (clock i) m x)"

definition rx_record :: "u64 list \<Rightarrow> 'h stats \<Rightarrow> 'h stats" where
  "rx_record rc = record_rcodes (rc ! 0) (rc ! 1) (rc ! 2) (rc ! 3) (rc ! 4)"

definition rx_sweep :: "bool \<Rightarrow> u64 \<Rightarrow> rx_env \<Rightarrow> flood_rx \<Rightarrow> slots \<Rightarrow> 'h stats \<Rightarrow> flood_rx \<times> slots \<times> 'h stats" where
  "rx_sweep track horizon e r T st =
     (if track \<and> TIMEOUT_CHECK_INTERVAL \<le> re_sweep_at e - fr_last_sweep r
      then (case shared_sweep (re_sweep_ns e) horizon T of
              (expired, T) \<Rightarrow> (r\<lparr>fr_last_sweep := re_sweep_done e\<rparr>, T, (inc_timeout ^^ expired) st))
      else (r, T, st))"

definition rx_iter ::
  "'h hist_ops \<Rightarrow> bool \<Rightarrow> u64 \<Rightarrow> rx_env \<Rightarrow> flood_rx \<Rightarrow> slots \<Rightarrow> 'h stats \<Rightarrow> flood_rx \<times> slots \<times> 'h stats" where
  "rx_iter H track timeout_ns e r T st =
     (let horizon = lat_horizon timeout_ns
      in case rx_sweep track horizon e r T st of
           (r, T, st) \<Rightarrow>
             let msgs = take RX_BATCH (re_msgs e)
             in if \<not> re_poll e \<or> msgs = [] then (r, T, st)
                else
                  (case rx_all H track horizon (re_recv_ns e) 0 msgs (fr_rc r, T, st) of
                     (rc, T, st) \<Rightarrow>
                       let r = r\<lparr>fr_rc := rc, fr_since_flush := fr_since_flush r + 1\<rparr>
                       in if FLUSH_STATS \<le> fr_since_flush r
                          then (r\<lparr>fr_rc := replicate 5 0, fr_since_flush := 0\<rparr>, T, rx_record rc st)
                          else (r, T, st)))"

definition rx_finish :: "flood_rx \<Rightarrow> 'h stats \<Rightarrow> 'h stats" where
  "rx_finish r st = (if \<exists>x \<in> set (fr_rc r). 0 < x then rx_record (fr_rc r) st else st)"

section \<open>Interleaved runs\<close>

record 'h flood =
  fl_tx :: flood_tx
  fl_rx :: flood_rx
  fl_slots :: slots
  fl_stats :: "'h stats"

datatype flood_ev = TxIter tx_env | RxIter rx_env

definition flood_new :: "u16 \<Rightarrow> u64 \<Rightarrow> nat \<Rightarrow> nat \<Rightarrow> 'h stats \<Rightarrow> 'h flood" where
  "flood_new rid ridx now now' st =
     \<lparr>fl_tx = flood_tx_new rid ridx now, fl_rx = flood_rx_new now', fl_slots = slots_new, fl_stats = st\<rparr>"

fun flood_step :: "'h hist_ops \<Rightarrow> wire_query_pool \<Rightarrow> bool \<Rightarrow> u64 \<Rightarrow> flood_ev \<Rightarrow> 'h flood \<Rightarrow> 'h flood option" where
  "flood_step H pool track timeout_ns (TxIter e) f =
     (case tx_iter pool track e (fl_tx f) (fl_slots f) (fl_stats f) of
        None \<Rightarrow> None
      | Some (t, T, st) \<Rightarrow> Some (f\<lparr>fl_tx := t, fl_slots := T, fl_stats := st\<rparr>))"
| "flood_step H pool track timeout_ns (RxIter e) f =
     (case rx_iter H track timeout_ns e (fl_rx f) (fl_slots f) (fl_stats f) of
        (r, T, st) \<Rightarrow> Some (f\<lparr>fl_rx := r, fl_slots := T, fl_stats := st\<rparr>))"

fun flood_run :: "'h hist_ops \<Rightarrow> wire_query_pool \<Rightarrow> bool \<Rightarrow> u64 \<Rightarrow> flood_ev list \<Rightarrow> 'h flood \<Rightarrow> 'h flood option" where
  "flood_run H pool track timeout_ns [] f = Some f"
| "flood_run H pool track timeout_ns (e # es) f =
     (case flood_step H pool track timeout_ns e f of
        None \<Rightarrow> None
      | Some f' \<Rightarrow> flood_run H pool track timeout_ns es f')"

text \<open>Both threads leave their loop and flush what they hold.\<close>

definition flood_finish :: "u64 \<Rightarrow> 'h flood \<Rightarrow> 'h stats" where
  "flood_finish egress_ns f = rx_finish (fl_rx f) (tx_finish egress_ns (fl_tx f) (fl_stats f))"

section \<open>The worker\<close>

text \<open>
  What a worker meets: whether the socket can be bound and connected, the random starting points, the
  clock at the start and the events of its loops until shutdown.
\<close>

record udp_world =
  uw_bind :: bool
  uw_connect :: bool
  uw_id :: u16
  uw_tmpl :: u64
  uw_now :: nat
  uw_now' :: nat
  uw_qps :: u64
  uw_flood :: "flood_ev list"
  uw_egress :: u64
  uw_closed :: "iter_env list"

definition run_udp_worker ::
  "'h hist_ops \<Rightarrow> wire_query_pool \<Rightarrow> u64 \<Rightarrow> nat \<Rightarrow> bool \<Rightarrow> udp_world \<Rightarrow> 'h stats \<Rightarrow> 'h stats option" where
  "run_udp_worker H pool timeout_ms max_outstanding ramp w st =
     (if \<not> uw_bind w then Some st
      else if \<not> uw_connect w then Some st
      else
        let timeout_ns = timeout_ms * 1000000
        in if max_outstanding = 0 then
             map_option (flood_finish (uw_egress w))
               (flood_run H pool ramp timeout_ns (uw_flood w)
                 (flood_new (uw_id w) (uw_tmpl w) (uw_now w) (uw_now' w) st))
           else
             map_option cl_stats
               (closed_loop_run H pool max_outstanding timeout_ns ramp (uw_closed w)
                 (closed_loop_new (uw_id w) (uw_tmpl w) (uw_qps w) (uw_now w) (uw_now' w) st)))"

section \<open>What a run should count\<close>

text \<open>The datagrams the receive thread reads, and those of them in each response-code class.\<close>

fun delivered :: "flood_ev list \<Rightarrow> bytes list" where
  "delivered [] = []"
| "delivered (TxIter e # es) = delivered es"
| "delivered (RxIter e # es) = (if re_poll e then take RX_BATCH (re_msgs e) else []) @ delivered es"

definition class_count :: "nat \<Rightarrow> bytes list \<Rightarrow> nat" where
  "class_count k ms = length (filter (\<lambda>m. rcode_index (take MAX_MSG_SIZE m) = k) ms)"

text \<open>The queries the kernel accepted: the positive results of \<^verbatim>\<open>sendmmsg\<close> on the batches that were due.\<close>

definition accepted_by :: "bool \<Rightarrow> tx_env \<Rightarrow> flood_tx \<Rightarrow> u64" where
  "accepted_by track e t = (if tx_is_due track e (tx_rate track e t) \<and> 0 < te_ret e then of_int (te_ret e) else 0)"

fun accepted :: "'h hist_ops \<Rightarrow> wire_query_pool \<Rightarrow> bool \<Rightarrow> u64 \<Rightarrow> flood_ev list \<Rightarrow> 'h flood \<Rightarrow> u64" where
  "accepted H pool track timeout_ns [] f = 0"
| "accepted H pool track timeout_ns (e # es) f =
     (case e of TxIter te \<Rightarrow> accepted_by track te (fl_tx f) | RxIter re \<Rightarrow> 0) +
     (case flood_step H pool track timeout_ns e f of
        None \<Rightarrow> 0 | Some f' \<Rightarrow> accepted H pool track timeout_ns es f')"

definition classes :: "'h stats \<Rightarrow> u64 list" where
  "classes st = [rcode_noerror st, rcode_nxdomain st, rcode_servfail st, rcode_refused st, rcode_other st]"

section \<open>Facts about the receive thread\<close>

lemma rcode_class_less: "rcode_class rcode < 5"
  by (simp add: rcode_class_def)

lemma rcode_index_less: "rcode_index buf < 5"
  by (simp add: rcode_index_def rcode_class_less split: option.split)

lemma length_class_counts: "(\<Sum>k<5. class_count k ms) = length ms"
proof (induction ms)
  case (Cons m ms)
  have "(\<Sum>k<5. class_count k (m # ms)) =
      (\<Sum>k<5. class_count k ms + (if k = rcode_index (take MAX_MSG_SIZE m) then 1 else 0))"
    by (intro sum.cong) (auto simp: class_count_def)
  also have "\<dots> = length ms + 1"
    using Cons by (simp add: sum.distrib rcode_index_less)
  finally show ?case by simp
qed (simp add: class_count_def)

lemma list5: "length xs = 5 \<Longrightarrow> xs = [xs ! 0, xs ! 1, xs ! 2, xs ! 3, xs ! 4]"
  by (rule nth_equalityI) (auto simp: less_Suc_eq numeral_eq_Suc)

text \<open>The parts of the collector that neither the sweep nor a latency sample touches.\<close>

definition counts :: "'h stats \<Rightarrow> u64 \<times> u64 \<times> u64 list" where
  "counts st = (sent st, completed st, classes st)"

lemma counts_neutral [simp]:
  "counts (inc_timeout st) = counts st" "counts (record_latency_us H v st) = counts st"
  by (simp_all add: counts_def classes_def inc_timeout_def record_latency_us_def)

lemma counts_inc_timeout_pow [simp]: "counts ((inc_timeout ^^ n) st) = counts st"
  by (induction n) simp_all

definition bump_at :: "nat \<Rightarrow> nat list \<Rightarrow> nat list" where
  "bump_at i cs = cs[i := cs ! i + 1]"

lemma bump_at_facts:
  assumes "length cs = 5" and "i < 5"
  shows "length (bump_at i cs) = 5" "sum_list (bump_at i cs) = sum_list cs + 1"
    "k < 5 \<Longrightarrow> bump_at i cs ! k = cs ! k + (if i = k then 1 else 0)"
    "(map of_nat cs)[i := map of_nat cs ! i + 1] = (map of_nat (bump_at i cs) :: u64 list)"
  using assms by (simp_all add: bump_at_def sum_list_update nth_list_update member_le_sum_list map_update add.commute)

abbreviation bump :: "bytes \<Rightarrow> nat list \<Rightarrow> nat list" where
  "bump m \<equiv> bump_at (rcode_index (take MAX_MSG_SIZE m))"

lemmas bump_facts = bump_at_facts [OF _ rcode_index_less]

lemma rx_one_counts:
  assumes "length cs = 5"
  shows "\<exists>T' st'. rx_one H track horizon ns m (map of_nat cs, T, st) = (map of_nat (bump m cs), T', st') \<and>
    counts st' = counts st"
  using bump_facts(4) [OF assms, of "take MAX_MSG_SIZE m"]
  by (auto simp: rx_one_def Let_def split: prod.split option.split)

lemma rx_all_counts:
  assumes "length cs = 5"
  shows "\<exists>cs' T' st'. rx_all H track horizon clock i ms (map of_nat cs, T, st) = (map of_nat cs', T', st') \<and>
    counts st' = counts st \<and> length cs' = 5 \<and> sum_list cs' = sum_list cs + length ms \<and>
    (\<forall>k<5. cs' ! k = cs ! k + class_count k ms)"
  using assms
proof (induction ms arbitrary: i cs T st)
  case (Cons m ms)
  from rx_one_counts [OF Cons.prems, of H track horizon "clock i" m T st]
  obtain T1 st1 where one: "rx_one H track horizon (clock i) m (map of_nat cs, T, st) = (map of_nat (bump m cs), T1, st1)"
    and c1: "counts st1 = counts st" by blast
  have l: "length (bump m cs) = 5" by (rule bump_facts(1) [OF Cons.prems])
  from Cons.IH [OF l, of "Suc i" T1 st1] obtain cs' T' st' where
    all: "rx_all H track horizon clock (Suc i) ms (map of_nat (bump m cs), T1, st1) = (map of_nat cs', T', st')"
    and c2: "counts st' = counts st1" "length cs' = 5" "sum_list cs' = sum_list (bump m cs) + length ms"
      "\<forall>k<5. cs' ! k = bump m cs ! k + class_count k ms" by blast
  show ?case
    using one c1 all c2 bump_facts [OF Cons.prems, where buf = "take MAX_MSG_SIZE m"]
    by (intro exI [of _ cs'] exI [of _ T'] exI [of _ st']) (simp add: class_count_def)
qed (auto simp: class_count_def)

lemma rx_record_counts:
  assumes l: "length cs = 5" and b: "sum_list cs < 2 ^ 64"
  shows "sent (rx_record (map of_nat cs) st) = sent st"
    "completed (rx_record (map of_nat cs) st) = completed st + of_nat (sum_list cs)"
    "k < 5 \<Longrightarrow> classes (rx_record (map of_nat cs) st) ! k = classes st ! k + of_nat (cs ! k)"
proof -
  obtain a b c d e where cs: "cs = [a, b, c, d, e]" using list5 [OF l] by metis
  have s: "of_nat (a + b + c + d + e) = (0 :: u64) \<longleftrightarrow> a = 0 \<and> b = 0 \<and> c = 0 \<and> d = 0 \<and> e = 0"
    using assms(2) by (simp add: cs word_unat_eq_iff unat_of_nat del: of_nat_add) 
  show "sent (rx_record (map of_nat cs) st) = sent st"
    "completed (rx_record (map of_nat cs) st) = completed st + of_nat (sum_list cs)"
    "k < 5 \<Longrightarrow> classes (rx_record (map of_nat cs) st) ! k = classes st ! k + of_nat (cs ! k)"
    using s by (auto simp: cs rx_record_def record_rcodes_eq classes_def nth_Cons numeral_eq_Suc less_Suc_eq
      split: nat.split)
qed

section \<open>The invariant of a run\<close>

definition rx_inv :: "bytes list \<Rightarrow> flood_rx \<Rightarrow> 'h stats \<Rightarrow> bool" where
  "rx_inv ms r st \<longleftrightarrow>
     fr_since_flush r < FLUSH_STATS \<and>
     (\<exists>cs. fr_rc r = map of_nat cs \<and> length cs = 5 \<and> sum_list cs \<le> RX_BATCH * fr_since_flush r \<and>
        completed st + of_nat (sum_list cs) = of_nat (length ms) \<and>
        (\<forall>k<5. classes st ! k + of_nat (cs ! k) = of_nat (class_count k ms)))"

definition flood_inv :: "u64 \<Rightarrow> bytes list \<Rightarrow> 'h flood \<Rightarrow> bool" where
  "flood_inv acc ms f \<longleftrightarrow>
     sent (fl_stats f) + ft_local_sent (fl_tx f) = acc \<and>
     list_all (\<lambda>b. length b = MAX_QUERY) (ft_bufs (fl_tx f)) \<and> rx_inv ms (fl_rx f) (fl_stats f)"

lemma fill_batch_fits:
  assumes "pool_fits pool"
  shows "list_all (\<lambda>b. length b = MAX_QUERY) bufs \<Longrightarrow>
    \<exists>packets bufs' t i. fill_batch pool bufs tmpl qid = Some (packets, bufs', t, i) \<and>
      list_all (\<lambda>b. length b = MAX_QUERY) bufs'"
proof (induction bufs arbitrary: tmpl qid)
  case (Cons b bs)
  then have "length b = MAX_QUERY" by simp
  then obtain n b' where "write_with_index pool (unat tmpl) qid b = Some (n, b')" "length b' = MAX_QUERY"
    using pool_fitsE [OF assms, of b] by (metis order_refl)
  with Cons.IH [of "tmpl + 1" "qid + 1"] Cons.prems show ?case by auto
qed simp

lemma tx_batch_facts:
  assumes "pool_fits pool" and "list_all (\<lambda>b. length b = MAX_QUERY) (ft_bufs t)"
  shows "\<exists>t' T'. tx_batch pool track e t T = Some (t', T') \<and>
    ft_local_sent t' = ft_local_sent t + (if 0 < te_ret e then of_int (te_ret e) else 0) \<and>
    list_all (\<lambda>b. length b = MAX_QUERY) (ft_bufs t')"
  using fill_batch_fits [OF assms, of "ft_tmpl_idx t" "ft_next_id t"]
  by (auto simp: tx_batch_def Let_def)

lemma tx_iter_facts:
  assumes "pool_fits pool" and "list_all (\<lambda>b. length b = MAX_QUERY) (ft_bufs t)"
  shows "\<exists>t' T' st'. tx_iter pool track e t T st = Some (t', T', st') \<and>
    sent st' + ft_local_sent t' = sent st + ft_local_sent t + accepted_by track e t \<and>
    completed st' = completed st \<and> classes st' = classes st \<and>
    list_all (\<lambda>b. length b = MAX_QUERY) (ft_bufs t')"
proof -
  have r: "ft_local_sent (tx_rate track e t) = ft_local_sent t" "ft_bufs (tx_rate track e t) = ft_bufs t"
    by (simp_all add: tx_rate_def)
  obtain t1 T1 where b: "(if tx_is_due track e (tx_rate track e t) then tx_batch pool track e (tx_rate track e t) T
        else Some (tx_rate track e t, T)) = Some (t1, T1)"
    and s: "ft_local_sent t1 = ft_local_sent t + accepted_by track e t"
    and l: "list_all (\<lambda>b. length b = MAX_QUERY) (ft_bufs t1)"
    using tx_batch_facts [OF assms(1), of "tx_rate track e t" track e T] assms(2) r that
    unfolding accepted_by_def by (cases "tx_is_due track e (tx_rate track e t)") force+
  show ?thesis
    unfolding tx_iter_def Let_def b using s l
    by (auto simp: tx_flush_def inc_sent_n_def classes_def)
qed

lemma class_count_append: "class_count k (ms @ ns) = class_count k ms + class_count k ns"
  by (simp add: class_count_def)

lemma rx_sweep_counts:
  assumes "rx_sweep track horizon e r T st = (r', T', st')"
  shows "counts st' = counts st" "fr_rc r' = fr_rc r" "fr_since_flush r' = fr_since_flush r"
  using assms by (auto simp: rx_sweep_def split: if_splits prod.splits)

lemma counts_simps: "counts st' = counts st \<longleftrightarrow>
    sent st' = sent st \<and> completed st' = completed st \<and> classes st' = classes st"
  by (auto simp: counts_def)

lemma rx_inv_cong:
  "rx_inv ms r st \<Longrightarrow> counts st' = counts st \<Longrightarrow> fr_rc r' = fr_rc r \<Longrightarrow> fr_since_flush r' = fr_since_flush r \<Longrightarrow>
    rx_inv ms r' st'"
  by (simp add: rx_inv_def counts_simps)

lemma rx_drain_inv:
  assumes inv: "rx_inv ms r st" and n: "length ns \<le> RX_BATCH"
    and all: "rx_all H track horizon clock 0 ns (fr_rc r, T, st) = (rc, T', st')"
  shows "if FLUSH_STATS \<le> fr_since_flush r + 1
    then rx_inv (ms @ ns) (r\<lparr>fr_rc := replicate 5 0, fr_since_flush := 0\<rparr>) (rx_record rc st') \<and>
         sent (rx_record rc st') = sent st
    else rx_inv (ms @ ns) (r\<lparr>fr_rc := rc, fr_since_flush := fr_since_flush r + 1\<rparr>) st' \<and> sent st' = sent st"
proof -
  from inv obtain cs where cs: "fr_rc r = map of_nat cs" "length cs = 5"
    "sum_list cs \<le> RX_BATCH * fr_since_flush r" "completed st + of_nat (sum_list cs) = of_nat (length ms)"
    "\<forall>k<5. classes st ! k + of_nat (cs ! k) = of_nat (class_count k ms)" and f: "fr_since_flush r < FLUSH_STATS"
    unfolding rx_inv_def by blast
  from rx_all_counts [OF cs(2), of H track horizon clock 0 ns T st] all cs(1) obtain cs' where
    c: "rc = map of_nat cs'" "counts st' = counts st" "length cs' = 5" "sum_list cs' = sum_list cs + length ns"
      "\<forall>k<5. cs' ! k = cs ! k + class_count k ns" by auto
  have b: "sum_list cs' \<le> RX_BATCH * (fr_since_flush r + 1)" using c(4) cs(3) n by simp
  have b64: "sum_list cs' < 2 ^ 64" using b f by (simp add: RX_BATCH_def FLUSH_STATS_def)
  have tot: "completed st' + of_nat (sum_list cs') = of_nat (length (ms @ ns))"
    using c(2,4) cs(4) by (simp add: counts_simps flip: add.assoc)
  have cls: "\<forall>k<5. classes st' ! k + of_nat (cs' ! k) = of_nat (class_count k (ms @ ns))"
    using c(2,5) cs(5) by (simp add: counts_simps class_count_append flip: add.assoc)
  have "rx_inv (ms @ ns) (r\<lparr>fr_rc := replicate 5 0, fr_since_flush := 0\<rparr>) (rx_record rc st')"
    unfolding rx_inv_def c(1) using rx_record_counts(2) [OF c(3) b64, of st'] rx_record_counts(3) [OF c(3) b64, of _ st'] tot cls
    by (intro conjI exI [of _ "replicate 5 0"]) (simp_all add: FLUSH_STATS_def sum_list_replicate)
  moreover have "rx_inv (ms @ ns) (r\<lparr>fr_rc := rc, fr_since_flush := fr_since_flush r + 1\<rparr>) st'"
    if "\<not> FLUSH_STATS \<le> fr_since_flush r + 1"
    unfolding rx_inv_def c(1) using that c(3) b tot cls by (intro conjI exI [of _ cs']) simp_all
  ultimately show ?thesis
    using rx_record_counts(1) [OF c(3) b64, of st'] c(1,2) by (simp add: counts_simps)
qed

lemma rx_iter_inv:
  assumes inv: "flood_inv acc ms f"
    and it: "rx_iter H track timeout_ns e (fl_rx f) (fl_slots f) (fl_stats f) = (r, T, st)"
  shows "flood_inv acc (ms @ (if re_poll e then take RX_BATCH (re_msgs e) else []))
    (f\<lparr>fl_rx := r, fl_slots := T, fl_stats := st\<rparr>)"
proof -
  let ?ms = "take RX_BATCH (re_msgs e)" and ?h = "lat_horizon timeout_ns"
  obtain r1 T1 st1 where sw: "rx_sweep track ?h e (fl_rx f) (fl_slots f) (fl_stats f) = (r1, T1, st1)"
    by (metis prod_cases3)
  note c1 = rx_sweep_counts [OF sw]
  have inv1: "rx_inv ms r1 st1" and s1: "sent st1 = sent (fl_stats f)"
    using inv c1 rx_inv_cong [of ms "fl_rx f" "fl_stats f" st1 r1] by (simp_all add: flood_inv_def counts_simps)
  obtain rc T2 st2 where all: "rx_all H track ?h (re_recv_ns e) 0 ?ms (fr_rc r1, T1, st1) = (rc, T2, st2)"
    by (metis prod_cases3)
  show ?thesis
  proof (cases "re_poll e \<and> ?ms \<noteq> []")
    case False
    then have "r = r1" "st = st1" "(if re_poll e then ?ms else []) = []"
      using it sw by (auto simp: rx_iter_def Let_def split: if_splits)
    then show ?thesis using inv inv1 s1 by (simp add: flood_inv_def)
  next
    case True
    with rx_drain_inv [OF inv1 _ all] it sw all inv s1 show ?thesis
      by (auto simp: rx_iter_def Let_def flood_inv_def split: if_splits)
  qed
qed

lemma flood_step_inv:
  assumes "pool_fits pool" and "flood_inv acc ms f"
  shows "\<exists>f'. flood_step H pool track timeout_ns e f = Some f' \<and>
    flood_inv (acc + (case e of TxIter te \<Rightarrow> accepted_by track te (fl_tx f) | RxIter re \<Rightarrow> 0))
      (ms @ delivered [e]) f'"
proof (cases e)
  case (TxIter te)
  from assms(2) have l: "list_all (\<lambda>b. length b = MAX_QUERY) (ft_bufs (fl_tx f))" by (simp add: flood_inv_def)
  from tx_iter_facts [OF assms(1) l, of track te "fl_slots f" "fl_stats f"] assms(2)
  show ?thesis by (auto simp: TxIter flood_inv_def rx_inv_def)
next
  case (RxIter re)
  obtain r T st where it: "rx_iter H track timeout_ns re (fl_rx f) (fl_slots f) (fl_stats f) = (r, T, st)"
    by (metis prod_cases3)
  from rx_iter_inv [OF assms(2) it] show ?thesis by (simp add: RxIter it)
qed

lemma delivered_Cons: "delivered (e # es) = delivered [e] @ delivered es"
  by (cases e) simp_all

lemma flood_run_inv:
  assumes "pool_fits pool"
  shows "flood_inv acc ms f \<Longrightarrow> \<exists>f'. flood_run H pool track timeout_ns evs f = Some f' \<and>
    flood_inv (acc + accepted H pool track timeout_ns evs f) (ms @ delivered evs) f'"
proof (induction evs arbitrary: acc ms f)
  case (Cons e es)
  let ?d = "case e of TxIter te \<Rightarrow> accepted_by track te (fl_tx f) | RxIter re \<Rightarrow> 0"
  from flood_step_inv [OF assms Cons.prems, of H track timeout_ns e] obtain f1 where
    st: "flood_step H pool track timeout_ns e f = Some f1" "flood_inv (acc + ?d) (ms @ delivered [e]) f1" by blast
  from Cons.IH [OF st(2)] show ?case
    unfolding delivered_Cons [of e es] by (simp add: st(1) add.assoc)
qed simp

lemma rx_record_zero:
  assumes "length rc = 5" and "\<not> (\<exists>x \<in> set rc. 0 < x)"
  shows "rx_record rc st = st"
proof -
  have "rc ! k = 0" if "k < 5" for k using assms that nth_mem [of k rc] by (auto simp: word_neq_0_conv [symmetric])
  then show ?thesis by (simp add: rx_record_def record_rcodes_def)
qed

lemma flood_finish_counts:
  assumes "flood_inv acc ms f"
  shows "sent (flood_finish ns f) = acc" "completed (flood_finish ns f) = of_nat (length ms)"
    "k < 5 \<Longrightarrow> classes (flood_finish ns f) ! k = of_nat (class_count k ms)"
proof -
  let ?st = "tx_finish ns (fl_tx f) (fl_stats f)"
  have tx: "sent ?st = acc" "completed ?st = completed (fl_stats f)" "classes ?st = classes (fl_stats f)"
    using assms by (auto simp: tx_finish_def inc_sent_n_def flood_inv_def classes_def word_neq_0_conv [symmetric])
  from assms obtain cs where cs: "fr_rc (fl_rx f) = map of_nat cs" "length cs = 5"
    "sum_list cs \<le> RX_BATCH * fr_since_flush (fl_rx f)" "fr_since_flush (fl_rx f) < FLUSH_STATS"
    "completed ?st + of_nat (sum_list cs) = of_nat (length ms)"
    "\<forall>k<5. classes ?st ! k + of_nat (cs ! k) = of_nat (class_count k ms)"
    unfolding flood_inv_def rx_inv_def tx by blast
  have b: "sum_list cs < 2 ^ 64" using cs(3,4) by (simp add: RX_BATCH_def FLUSH_STATS_def)
  have "flood_finish ns f = rx_record (map of_nat cs) ?st"
    using rx_record_zero [of "map of_nat cs" ?st] cs(1,2) by (auto simp: flood_finish_def rx_finish_def)
  then show "sent (flood_finish ns f) = acc" "completed (flood_finish ns f) = of_nat (length ms)"
    "k < 5 \<Longrightarrow> classes (flood_finish ns f) ! k = of_nat (class_count k ms)"
    using rx_record_counts [OF cs(2) b, where st = ?st] tx cs(5,6) by simp_all
qed

lemma flood_new_inv:
  "flood_inv 0 [] (flood_new rid ridx now now' (stats_new H))"
proof -
  have "rx_inv [] (flood_rx_new now') (stats_new H)"
    unfolding rx_inv_def by (intro conjI exI [of _ "replicate 5 0"])
      (auto simp: flood_rx_new_def FLUSH_STATS_def stats_new_def class_count_def classes_def less_Suc_eq numeral_eq_Suc)
  then show ?thesis
    by (simp add: flood_inv_def flood_new_def flood_tx_new_def stats_new_def list_all_length)
qed

section \<open>Properties of the flood pair\<close>

text \<open>C3: The flood pair counts exactly. For every interleaving of the two threads, every clock and every
  result of the system calls, neither thread panics, and once both have flushed, the reported sent
  count is the number of queries the kernel accepted, the completed count is the number of datagrams
  received, and each response-code counter is the number of datagrams of its class: batching the
  counters in thread locals loses and invents nothing.\<close>

theorem flood_pair_counts_exactly:
  assumes "from_pairs entries = Some pool" and "\<forall>(name, qtype) \<in> set entries. length name \<le> 494"
  shows "\<exists>f. flood_run H pool track timeout_ns evs (flood_new rid ridx now now' (stats_new H)) = Some f \<and>
    (let st = flood_finish egress_ns f; ms = delivered evs
     in sent st = accepted H pool track timeout_ns evs (flood_new rid ridx now now' (stats_new H)) \<and>
        completed st = of_nat (length ms) \<and>
        rcode_noerror st = of_nat (class_count 0 ms) \<and> rcode_nxdomain st = of_nat (class_count 1 ms) \<and>
        rcode_servfail st = of_nat (class_count 2 ms) \<and> rcode_refused st = of_nat (class_count 3 ms) \<and>
        rcode_other st = of_nat (class_count 4 ms))"
proof -
  from flood_run_inv [OF pool_fitsI [OF assms] flood_new_inv [of rid ridx now now' H], of H track timeout_ns evs]
  obtain f where run: "flood_run H pool track timeout_ns evs (flood_new rid ridx now now' (stats_new H)) = Some f"
    and inv: "flood_inv (accepted H pool track timeout_ns evs (flood_new rid ridx now now' (stats_new H))) (delivered evs) f"
    by auto
  note c = flood_finish_counts [OF inv, where ns = egress_ns]
  show ?thesis
    using run c(1,2) c(3) [of 0] c(3) [of 1] c(3) [of 2] c(3) [of 3] c(3) [of 4]
    by (simp add: Let_def classes_def)
qed

theorem flood_pair_counts_exactly_witness:
  "\<exists>pool f. from_pairs [(''a.com'', 1)] = Some pool \<and>
     flood_run list_hist pool False 5000000000
       [TxIter \<lparr>te_qps = 0, te_changed = 0, te_due = 0, te_send_ns = 1, te_ret = 40, te_now = 0, te_egress_ns = 9\<rparr>,
        RxIter \<lparr>re_sweep_at = 0, re_sweep_ns = 0, re_sweep_done = 0, re_poll = True,
          re_msgs = [[0, 7, 128, 3, 0, 1, 0, 0, 0, 0, 0, 0]], re_recv_ns = (\<lambda>_. 5)\<rparr>]
       (flood_new 3 0 0 0 (stats_new list_hist)) = Some f \<and>
     sent (flood_finish 10 f) = 40 \<and> completed (flood_finish 10 f) = 1 \<and> rcode_nxdomain (flood_finish 10 f) = 1"
proof -
  let ?tx = "\<lparr>te_qps = 0, te_changed = 0, te_due = 0, te_send_ns = 1, te_ret = 40, te_now = 0, te_egress_ns = 9\<rparr>"
  let ?rx = "\<lparr>re_sweep_at = 0, re_sweep_ns = 0, re_sweep_done = 0, re_poll = True,
    re_msgs = [[0, 7, 128, 3, 0, 1, 0, 0, 0, 0, 0, 0]], re_recv_ns = (\<lambda>_. 5)\<rparr>"
  let ?evs = "[TxIter ?tx, RxIter ?rx]" and ?f = "flood_new 3 0 0 0 (stats_new list_hist)"
  obtain pool where p: "from_pairs [(''a.com'', 1)] = Some pool" by (simp add: from_pairs_def)
  from flood_pair_counts_exactly [OF p, of list_hist False 5000000000 ?evs 3 0 0 0 10]
  obtain f where f: "flood_run list_hist pool False 5000000000 ?evs ?f = Some f"
    "sent (flood_finish 10 f) = accepted list_hist pool False 5000000000 ?evs ?f"
    "completed (flood_finish 10 f) = of_nat (length (delivered ?evs))"
    "rcode_nxdomain (flood_finish 10 f) = of_nat (class_count 1 (delivered ?evs))"
    by (auto simp: Let_def simp del: delivered.simps accepted.simps flood_run.simps)
  have "accepted list_hist pool False 5000000000 ?evs ?f = 40"
    using f(1) by (simp add: accepted_by_def tx_is_due_def split: option.splits)
  moreover have "length (delivered ?evs) = 1" "class_count 1 (delivered ?evs) = 1"
    by (simp_all add: RX_BATCH_def class_count_def rcode_index_def rcode_class_def parse_response_def from_be16_def MAX_MSG_SIZE_def)
  ultimately show ?thesis using p f by fastforce
qed

end
