(* ===== verification/Xdp_Worker.thy ===== *)
theory Xdp_Worker
  imports Frame Umem_Rings Udp_Flood
begin

text \<open>
  The AF\_XDP worker of \<^verbatim>\<open>src/transport/xdp/receiver.rs\<close> (\<^verbatim>\<open>xdp_unified_worker\<close>): one thread per NIC
  queue that reclaims matched frames, decides how many queries to send (token bucket, gate), writes
  them into UMEM frames, submits them, drains the receive ring and sweeps timeouts. The UMEM area is a
  byte list, the rings are those of \<open>Umem_Rings\<close>. The clock, the shared rate and what the kernel does to
  the rings between iterations are arguments.
\<close>

section \<open>Configuration and state\<close>

definition LAT_SAMPLE_MASK :: u16 where "LAT_SAMPLE_MASK = 0x3F"
definition FLUSH_N :: nat where "FLUSH_N = 1024"
definition RC_FLUSH :: nat where "RC_FLUSH = 4096"
definition SPORT_BASE :: u16 where "SPORT_BASE = 10000"
definition SPORT_SPREAD :: nat where "SPORT_SPREAD = 2048"

record worker_cfg =
  wc_hdr :: frame_header
  wc_pool :: wire_query_pool
  wc_id :: nat
  wc_workers :: nat
  wc_max_out :: nat
  wc_timeout :: u64
  wc_firehose :: bool
  wc_track :: bool

record 'h xdp_worker =
  xw_sock :: xsk_socket
  xw_area :: bytes
  xw_id_ctr :: nat
  xw_tmpl_idx :: nat
  xw_sport_ctr :: nat
  xw_egress :: nat
  xw_sub_acc :: nat
  xw_stall_sub :: nat
  xw_stall_egr :: nat
  xw_stall_warned :: bool
  xw_stall_window :: nat
  xw_rc :: "u64 list"
  xw_rc_acc :: nat
  xw_tokens :: f64
  xw_last_refill :: nat
  xw_last_timeout :: nat
  xw_slots :: slots
  xw_global :: u64
  xw_stats :: "'h stats"

definition xdp_worker_new ::
  "worker_cfg \<Rightarrow> nat \<Rightarrow> xsk_socket \<Rightarrow> bytes \<Rightarrow> slots \<Rightarrow> u64 \<Rightarrow> 'h stats \<Rightarrow> 'h xdp_worker" where
  "xdp_worker_new c now sock area slots global st =
     \<lparr>xw_sock = sock, xw_area = area, xw_id_ctr = 0, xw_tmpl_idx = wc_id c, xw_sport_ctr = wc_id c * 257,
      xw_egress = 0, xw_sub_acc = 0, xw_stall_sub = 0, xw_stall_egr = 0, xw_stall_warned = False,
      xw_stall_window = now, xw_rc = replicate 5 0, xw_rc_acc = 0, xw_tokens = Fin 0, xw_last_refill = now,
      xw_last_timeout = now, xw_slots = slots, xw_global = global, xw_stats = st\<rparr>"

record xdp_env =
  xe_stall_now :: nat
  xe_stall_done :: nat
  xe_qps :: u64
  xe_refill :: nat
  xe_ins_ns :: "nat \<Rightarrow> u64"
  xe_egress_ns :: u64
  xe_rx_ns :: "nat \<Rightarrow> u64"
  xe_now :: nat
  xe_sweep_ns :: u64

section \<open>Query ids\<close>

definition id_span :: "nat \<Rightarrow> nat" where
  "id_span num_workers = max (65536 div max num_workers 1) 1"

definition id_base :: "nat \<Rightarrow> nat \<Rightarrow> u16" where
  "id_base worker_id num_workers = of_nat ((worker_id mod max num_workers 1) * id_span num_workers)"

definition worker_query_id :: "worker_cfg \<Rightarrow> nat \<Rightarrow> u16" where
  "worker_query_id c ctr = id_base (wc_id c) (wc_workers c) + of_nat (ctr mod id_span (wc_workers c))"

section \<open>One iteration\<close>

subsection \<open>Completions and the stall warning\<close>

definition xdp_reclaim :: "'h xdp_worker \<Rightarrow> 'h xdp_worker" where
  "xdp_reclaim s =
     (case dequeue_all (comp (xsk_umem (xw_sock s))) of
        (done, comp') \<Rightarrow>
          let sock = (xw_sock s)\<lparr>xsk_umem := (xsk_umem (xw_sock s))\<lparr>comp := comp'\<rparr>\<rparr>;
              s = s\<lparr>xw_sock := sock\<rparr>
          in if done = [] then s
             else
               let n = length done;
                   egress = xw_egress s + n
               in s\<lparr>xw_sock := sock\<lparr>xsk_tx_pool := xsk_tx_pool sock @ done\<rparr>,
                    xw_egress := if FLUSH_N \<le> egress then 0 else egress,
                    xw_stall_egr := xw_stall_egr s + n\<rparr>)"

text \<open>The warning that is printed: submitted, egressed, and the percentage.\<close>

definition stall_check :: "xdp_env \<Rightarrow> 'h xdp_worker \<Rightarrow> (nat \<times> nat \<times> nat) option \<times> 'h xdp_worker" where
  "stall_check e s =
     (if 2 \<le> (xe_stall_now e - xw_stall_window s) div 1000000000 then
        let warn = \<not> xw_stall_warned s \<and> 1024 \<le> xw_stall_sub s \<and> xw_stall_egr s < xw_stall_sub s div 5;
            pct = xw_stall_egr s * 100 div max (xw_stall_sub s) 1
        in (if warn then Some (xw_stall_sub s, xw_stall_egr s, pct) else None,
            s\<lparr>xw_stall_warned := xw_stall_warned s \<or> warn, xw_stall_sub := 0, xw_stall_egr := 0,
              xw_stall_window := xe_stall_done e\<rparr>)
      else (None, s))"

subsection \<open>How many to send\<close>

text \<open>\<^verbatim>\<open>Duration::as_secs_f64\<close>.\<close>

definition secs_f64 :: "nat \<Rightarrow> f64" where
  "secs_f64 ns = f_add (fl64 (of_nat (ns div 1000000000)))
                       (f_div (fl64 (of_nat (ns mod 1000000000))) (fl64 1000000000))"

fun f_floor :: "f64 \<Rightarrow> f64" where
  "f_floor (Fin a) = Fin (of_int \<lfloor>a\<rfloor>)"
| "f_floor x = x"

definition refill :: "f64 \<Rightarrow> nat \<Rightarrow> u64 \<Rightarrow> f64 \<times> nat" where
  "refill tokens elapsed qps =
     (let tokens = f_min (f_add tokens (f_mul (secs_f64 elapsed) (f_of_u64 qps))) (fl64 (of_nat TX_BATCH));
          n = f_floor tokens
      in (f_sub tokens n, unat (f_to_u64 n)))"

definition xdp_headroom :: "worker_cfg \<Rightarrow> xdp_env \<Rightarrow> 'h xdp_worker \<Rightarrow> nat \<times> 'h xdp_worker" where
  "xdp_headroom c e s =
     (let (h, s) =
        (if 0 < xe_qps e then
           (case refill (xw_tokens s) (xe_refill e - xw_last_refill s) (xe_qps e) of
              (tokens, n) \<Rightarrow> (n, s\<lparr>xw_tokens := tokens, xw_last_refill := xe_refill e\<rparr>))
         else (TX_BATCH, s))
      in (if 0 < wc_max_out c then min h (wc_max_out c - unat (xw_global s)) else h, s))"

subsection \<open>Transmit\<close>

definition frame_at :: "bytes \<Rightarrow> u64 \<Rightarrow> nat \<Rightarrow> bytes" where
  "frame_at area addr n = take n (drop (unat addr) area)"

definition put_frame :: "u64 \<Rightarrow> bytes \<Rightarrow> bytes \<Rightarrow> bytes" where
  "put_frame addr buf area = take (unat addr) area @ buf @ drop (unat addr + length buf) area"

text \<open>The query and its headers, written in place.\<close>

definition stamp_query :: "frame_header \<Rightarrow> wire_query_pool \<Rightarrow> nat \<Rightarrow> u16 \<Rightarrow> u16 \<Rightarrow> bytes \<Rightarrow> (nat \<times> bytes) option" where
  "stamp_query hdr pool tmpl qid sport buf =
     (case write_with_index pool tmpl qid (drop (outer hdr) buf) of
        None \<Rightarrow> None
      | Some (dns_len, payload) \<Rightarrow>
          (case write_header hdr (take (outer hdr) buf @ payload) dns_len of
             None \<Rightarrow> None
           | Some (frame_len, buf) \<Rightarrow>
               (case set_src_port hdr buf sport of None \<Rightarrow> None | Some buf \<Rightarrow> Some (frame_len, buf))))"

fun tx_fill :: "worker_cfg \<Rightarrow> nat \<Rightarrow> 'h xdp_worker \<Rightarrow> xdp_desc list \<Rightarrow> u16 list \<Rightarrow>
    ('h xdp_worker \<times> xdp_desc list \<times> u16 list) option" where
  "tx_fill c 0 s ds ids = Some (s, ds, ids)"
| "tx_fill c (Suc n) s ds ids =
     (let pool = xsk_tx_pool (xw_sock s)
      in if pool = [] then tx_fill c n s ds ids
         else
           let addr = last pool;
               qid = worker_query_id c (xw_id_ctr s);
               sport = SPORT_BASE + of_nat (xw_sport_ctr s mod SPORT_SPREAD)
           in (case stamp_query (wc_hdr c) (wc_pool c) (xw_tmpl_idx s) qid sport
                      (frame_at (xw_area s) addr (unat FRAME_SIZE)) of
                 None \<Rightarrow> None
               | Some (frame_len, buf) \<Rightarrow>
                   tx_fill c n
                     (s\<lparr>xw_sock := (xw_sock s)\<lparr>xsk_tx_pool := butlast pool\<rparr>,
                        xw_area := put_frame addr buf (xw_area s), xw_id_ctr := xw_id_ctr s + 1,
                        xw_tmpl_idx := xw_tmpl_idx s + 1, xw_sport_ctr := xw_sport_ctr s + 1\<rparr>)
                     (ds @ [\<lparr>d_addr = addr, d_len = of_nat frame_len, d_options = 0\<rparr>]) (ids @ [qid])))"

fun insert_ids :: "(nat \<Rightarrow> u64) \<Rightarrow> nat \<Rightarrow> u16 list \<Rightarrow> slots \<Rightarrow> slots" where
  "insert_ids clock i [] T = T"
| "insert_ids clock i (qid # qids) T = insert_ids clock (Suc i) qids (xdp_insert qid (clock i) T)"

text \<open>Bookkeeping of the descriptors the ring accepted.\<close>

definition register_sent :: "worker_cfg \<Rightarrow> xdp_env \<Rightarrow> nat \<Rightarrow> u16 list \<Rightarrow> 'h xdp_worker \<Rightarrow> 'h xdp_worker" where
  "register_sent c e enq ids s =
     (let s =
        (if \<not> wc_firehose c then
           let s = s\<lparr>xw_slots := insert_ids (xe_ins_ns e) 0 (take enq ids) (xw_slots s)\<rparr>
           in if 0 < wc_max_out c then
                let cur = xw_global s + of_nat enq
                in s\<lparr>xw_global := cur, xw_stats := record_inflight (unat cur) (xw_stats s)\<rparr>
              else s
         else if wc_track c then
           s\<lparr>xw_slots := insert_ids (xe_ins_ns e) 0
               (filter (\<lambda>qid. qid AND LAT_SAMPLE_MASK = 0) (take enq ids)) (xw_slots s)\<rparr>
         else s);
          acc = xw_sub_acc s + enq;
          s = s\<lparr>xw_stall_sub := xw_stall_sub s + enq, xw_sub_acc := acc\<rparr>
      in if FLUSH_N \<le> acc
         then s\<lparr>xw_stats := inc_sent_n (xe_egress_ns e) acc (xw_stats s), xw_sub_acc := 0\<rparr>
         else s)"

definition xdp_transmit :: "worker_cfg \<Rightarrow> xdp_env \<Rightarrow> nat \<Rightarrow> 'h xdp_worker \<Rightarrow> 'h xdp_worker option" where
  "xdp_transmit c e headroom s =
     (if headroom = 0 then Some s
      else
        case tx_fill c (min headroom (length (xsk_tx_pool (xw_sock s)))) s [] [] of
          None \<Rightarrow> None
        | Some (s, ds, ids) \<Rightarrow>
            if ds = [] then Some s
            else
              (case produce_tx (xsk_tx (xw_sock s)) ds of
                 (enq, tx) \<Rightarrow>
                   let sock = (xw_sock s)\<lparr>xsk_tx := tx,
                         xsk_tx_pool := xsk_tx_pool (xw_sock s) @ map d_addr (drop enq ds)\<rparr>;
                       s = s\<lparr>xw_sock := sock\<rparr>
                   in Some (if 0 < enq then register_sent c e enq ids s else s)))"

subsection \<open>Receive\<close>

definition xdp_rx_one ::
  "'h hist_ops \<Rightarrow> worker_cfg \<Rightarrow> u64 \<Rightarrow> xdp_desc \<Rightarrow> 'h xdp_worker \<times> nat \<Rightarrow> ('h xdp_worker \<times> nat) option" where
  "xdp_rx_one H c now_ns d = (\<lambda>(s, matched).
     case parse_dns_from_frame (frame_at (xw_area s) (d_addr d) (unat (d_len d))) of
       None \<Rightarrow> None
     | Some None \<Rightarrow> Some (s, matched)
     | Some (Some (qid, rcode)) \<Rightarrow>
         if wc_firehose c then
           let i = rcode_class rcode;
               s = s\<lparr>xw_rc := (xw_rc s)[i := xw_rc s ! i + 1], xw_rc_acc := xw_rc_acc s + 1\<rparr>
           in if wc_track c \<and> qid AND LAT_SAMPLE_MASK = 0 then
                (case xdp_take qid now_ns (xw_slots s) of
                   (Some rtt_us, T) \<Rightarrow>
                     Some (s\<lparr>xw_slots := T, xw_stats := record_latency_us H rtt_us (xw_stats s)\<rparr>, matched)
                 | (None, T) \<Rightarrow> Some (s\<lparr>xw_slots := T\<rparr>, matched))
              else Some (s, matched)
         else
           (case xdp_take qid now_ns (xw_slots s) of
              (Some rtt_us, T) \<Rightarrow>
                Some (s\<lparr>xw_slots := T, xw_stats := record_response H rcode rtt_us (xw_stats s)\<rparr>, matched + 1)
            | (None, T) \<Rightarrow> Some (s\<lparr>xw_slots := T\<rparr>, matched)))"

fun xdp_rx_all ::
  "'h hist_ops \<Rightarrow> worker_cfg \<Rightarrow> (nat \<Rightarrow> u64) \<Rightarrow> nat \<Rightarrow> xdp_desc list \<Rightarrow> 'h xdp_worker \<times> nat \<Rightarrow>
   ('h xdp_worker \<times> nat) option" where
  "xdp_rx_all H c clock i [] x = Some x"
| "xdp_rx_all H c clock i (d # ds) x =
     (case xdp_rx_one H c (clock i) d x of None \<Rightarrow> None | Some x \<Rightarrow> xdp_rx_all H c clock (Suc i) ds x)"

definition xdp_receive :: "'h hist_ops \<Rightarrow> worker_cfg \<Rightarrow> xdp_env \<Rightarrow> 'h xdp_worker \<Rightarrow> 'h xdp_worker option" where
  "xdp_receive H c e s =
     (case consume_rx (xsk_rx (xw_sock s)) of
        (ds, rx) \<Rightarrow>
          let s = s\<lparr>xw_sock := (xw_sock s)\<lparr>xsk_rx := rx\<rparr>\<rparr>
          in if ds = [] then Some s
             else
               (case xdp_rx_all H c (xe_rx_ns e) 0 ds (s, 0) of
                  None \<Rightarrow> None
                | Some (s, matched) \<Rightarrow>
                    let u = xsk_umem (xw_sock s);
                        s = s\<lparr>xw_sock := (xw_sock s)\<lparr>xsk_umem := u\<lparr>fill := snd (enqueue_batch (fill u) (map d_addr ds))\<rparr>\<rparr>\<rparr>
                    in Some
                      (if wc_firehose c then
                         if RC_FLUSH \<le> xw_rc_acc s
                         then s\<lparr>xw_stats := rx_record (xw_rc s) (xw_stats s), xw_rc := replicate 5 0, xw_rc_acc := 0\<rparr>
                         else s
                       else if 0 < matched \<and> 0 < wc_max_out c
                       then s\<lparr>xw_global := sat_sub (xw_global s) (of_nat matched)\<rparr>
                       else s)))"

subsection \<open>Timeouts\<close>

definition xdp_timeouts :: "worker_cfg \<Rightarrow> xdp_env \<Rightarrow> 'h xdp_worker \<Rightarrow> 'h xdp_worker" where
  "xdp_timeouts c e s =
     (if wc_id c = 0 \<and> 10000000 \<le> xe_now e - xw_last_timeout s then
        (case xdp_sweep_expired (xe_sweep_ns e) (wc_timeout c) (xw_slots s) of
           (expired, T) \<Rightarrow>
             let s = s\<lparr>xw_slots := T, xw_last_timeout := xe_now e\<rparr>
             in if 0 < expired then
                  let s = s\<lparr>xw_stats := (inc_timeout ^^ expired) (xw_stats s)\<rparr>
                  in if 0 < wc_max_out c then s\<lparr>xw_global := sat_sub (xw_global s) (of_nat expired)\<rparr> else s
                else s)
      else s)"

definition xdp_iter :: "'h hist_ops \<Rightarrow> worker_cfg \<Rightarrow> xdp_env \<Rightarrow> 'h xdp_worker \<Rightarrow> 'h xdp_worker option" where
  "xdp_iter H c e s =
     (case xdp_headroom c e (snd (stall_check e (xdp_reclaim s))) of
        (headroom, s) \<Rightarrow>
          (case xdp_transmit c e headroom s of
             None \<Rightarrow> None
           | Some s \<Rightarrow>
               (case xdp_receive H c e s of None \<Rightarrow> None | Some s \<Rightarrow> Some (xdp_timeouts c e s))))"

definition xdp_finish :: "worker_cfg \<Rightarrow> u64 \<Rightarrow> 'h xdp_worker \<Rightarrow> 'h xdp_worker" where
  "xdp_finish c egress_ns s =
     (let s = (if wc_id c = 0 then
                 (case xdp_drain_all (xw_slots s) of
                    (remaining, T) \<Rightarrow> s\<lparr>xw_slots := T, xw_stats := (inc_timeout ^^ remaining) (xw_stats s)\<rparr>)
               else s);
          s = (if 0 < xw_sub_acc s then s\<lparr>xw_stats := inc_sent_n egress_ns (xw_sub_acc s) (xw_stats s)\<rparr> else s)
      in if 0 < xw_rc_acc s then s\<lparr>xw_stats := rx_record (xw_rc s) (xw_stats s)\<rparr> else s)"

end
