(* ===== verification/Xdp_Frames.thy ===== *)
theory Xdp_Frames
  imports Xdp_Worker "HOL-Library.Multiset"
begin

text \<open>
  Who owns which UMEM frame. The worker and the kernel pass frames through four rings; the kernel is a
  step relation that may do anything the AF\_XDP interface documents: take transmit descriptors, complete
  frames it has taken, take fill addresses, deliver received frames it was given. The invariant is that
  no step creates or loses a frame, which gives that the worker only ever writes frames that nobody
  else holds.
\<close>

section \<open>Frames of the worker\<close>

abbreviation sock_of :: "'h xdp_worker \<Rightarrow> xsk_socket" where "sock_of s \<equiv> xw_sock s"
abbreviation tx_ring :: "'h xdp_worker \<Rightarrow> xdp_desc ring" where "tx_ring s \<equiv> xsk_tx (xw_sock s)"
abbreviation rx_ring :: "'h xdp_worker \<Rightarrow> xdp_desc ring" where "rx_ring s \<equiv> xsk_rx (xw_sock s)"
abbreviation comp_ring :: "'h xdp_worker \<Rightarrow> u64 ring" where "comp_ring s \<equiv> comp (xsk_umem (xw_sock s))"
abbreviation fill_ring :: "'h xdp_worker \<Rightarrow> u64 ring" where "fill_ring s \<equiv> fill (xsk_umem (xw_sock s))"
abbreviation free_pool :: "'h xdp_worker \<Rightarrow> u64 list" where "free_pool s \<equiv> xsk_tx_pool (xw_sock s)"

text \<open>The frame an address lies in: the kernel may deliver at an offset into the frame.\<close>

definition frame_of :: "u64 \<Rightarrow> u64" where
  "frame_of addr = addr AND NOT 2047"

definition rings_wf :: "xsk_socket \<Rightarrow> bool" where
  "rings_wf k \<longleftrightarrow> ring_wf (xsk_tx k) \<and> ring_wf (xsk_rx k) \<and> ring_wf (comp (xsk_umem k)) \<and> ring_wf (fill (xsk_umem k))"

definition tx_frames :: "'h xdp_worker \<Rightarrow> u64 multiset" where
  "tx_frames s = mset (free_pool s) + mset (map d_addr (ring_contents (tx_ring s))) + mset (ring_contents (comp_ring s))"

definition rx_frames :: "'h xdp_worker \<Rightarrow> u64 multiset" where
  "rx_frames s = mset (map frame_of (ring_contents (fill_ring s))) + mset (map (frame_of \<circ> d_addr) (ring_contents (rx_ring s)))"

section \<open>What an iteration does to the socket\<close>

lemma reclaim_frames:
  assumes "rings_wf (xw_sock s)"
  shows "rings_wf (xw_sock (xdp_reclaim s))" "tx_frames (xdp_reclaim s) = tx_frames s"
    "rx_frames (xdp_reclaim s) = rx_frames s" "fill_ring (xdp_reclaim s) = fill_ring s"
    "xw_area (xdp_reclaim s) = xw_area s" "tx_ring (xdp_reclaim s) = tx_ring s"
proof -
  obtain out comp' where d: "dequeue_all (comp_ring s) = (out, comp')" by fastforce
  have law: "out = ring_contents (comp_ring s) \<and> ring_wf comp' \<and> ring_contents comp' = []"
    using addr_fifo.pop_law [OF _ d] assms by (simp add: rings_wf_def)
  show "rings_wf (xw_sock (xdp_reclaim s))" "tx_frames (xdp_reclaim s) = tx_frames s"
    "rx_frames (xdp_reclaim s) = rx_frames s" "fill_ring (xdp_reclaim s) = fill_ring s"
    "xw_area (xdp_reclaim s) = xw_area s" "tx_ring (xdp_reclaim s) = tx_ring s"
    using assms law by (simp_all add: xdp_reclaim_def d rings_wf_def tx_frames_def rx_frames_def Let_def)
qed

lemma quiet_steps [simp]:
  "xw_sock (snd (stall_check e s)) = xw_sock s" "xw_area (snd (stall_check e s)) = xw_area s"
  "xw_sock (snd (xdp_headroom c e s)) = xw_sock s" "xw_area (snd (xdp_headroom c e s)) = xw_area s"
  "xw_sock (xdp_timeouts c e s) = xw_sock s" "xw_area (xdp_timeouts c e s) = xw_area s"
  "xw_sock (register_sent c e n ids s) = xw_sock s" "xw_area (register_sent c e n ids s) = xw_area s"
  by (simp_all add: stall_check_def xdp_headroom_def xdp_timeouts_def register_sent_def Let_def split: prod.split)

lemma tx_fill_frames:
  "tx_fill c n s ds ids = Some (s', ds', ids') \<Longrightarrow>
     tx_ring s' = tx_ring s \<and> rx_ring s' = rx_ring s \<and> comp_ring s' = comp_ring s \<and> fill_ring s' = fill_ring s \<and>
     mset (free_pool s') + mset (map d_addr ds') = mset (free_pool s) + mset (map d_addr ds) \<and>
     set (free_pool s') \<subseteq> set (free_pool s)"
proof (induction n arbitrary: s ds ids)
  case (Suc n)
  show ?case
  proof (cases "free_pool s = []")
    case True
    then have "tx_fill c n s ds ids = Some (s', ds', ids')" using Suc.prems by simp
    from Suc.IH [OF this] show ?thesis .
  next
    case False
    then have split: "free_pool s = butlast (free_pool s) @ [last (free_pool s)]" by simp
    then have m: "mset (free_pool s) = mset (butlast (free_pool s)) + {#last (free_pool s)#}"
      by (metis mset.simps mset_append)
    have sub: "set (butlast (free_pool s)) \<subseteq> set (free_pool s)" by (auto dest: in_set_butlastD)
    from Suc.prems False obtain len buf s1 where
      f: "tx_fill c n s1 (ds @ [\<lparr>d_addr = last (free_pool s), d_len = of_nat len, d_options = 0\<rparr>])
             (ids @ [worker_query_id c (xw_id_ctr s)]) = Some (s', ds', ids')"
      and s1: "s1 = s\<lparr>xw_sock := (xw_sock s)\<lparr>xsk_tx_pool := butlast (free_pool s)\<rparr>,
        xw_area := put_frame (last (free_pool s)) buf (xw_area s), xw_id_ctr := xw_id_ctr s + 1,
        xw_tmpl_idx := xw_tmpl_idx s + 1, xw_sport_ctr := xw_sport_ctr s + 1\<rparr>"
      by (auto simp: Let_def split: option.splits prod.splits)
    from Suc.IH [OF f] s1 m sub show ?thesis by auto
  qed
qed auto

lemma transmit_frames:
  assumes wf: "rings_wf (xw_sock s)" and t: "xdp_transmit c e n s = Some s'"
  shows "rings_wf (xw_sock s') \<and> tx_frames s' = tx_frames s \<and> rx_frames s' = rx_frames s \<and> fill_ring s' = fill_ring s"
proof (cases "n = 0")
  case True
  then show ?thesis using wf t by (simp add: xdp_transmit_def)
next
  case False
  then obtain s1 ds ids where f: "tx_fill c (min n (length (free_pool s))) s [] [] = Some (s1, ds, ids)"
    using t by (auto simp: xdp_transmit_def split: option.splits)
  note facts = tx_fill_frames [OF f]
  obtain enq tx where p: "produce_tx (tx_ring s1) ds = (enq, tx)" by fastforce
  have wf1: "ring_wf (tx_ring s1)" using wf facts by (simp add: rings_wf_def)
  note law = desc_fifo.push_law [OF wf1 p]
  have d: "mset (map d_addr ds) = mset (map d_addr (take enq ds)) + mset (map d_addr (drop enq ds))"
    by (metis append_take_drop_id map_append mset_append)
  show ?thesis
    using t False f p facts law wf d
    by (auto simp: xdp_transmit_def rings_wf_def tx_frames_def rx_frames_def Let_def algebra_simps split: if_splits)
qed

lemma rx_one_sock:
  "xdp_rx_one H c ns d (s, k) = Some (s', k') \<Longrightarrow> xw_sock s' = xw_sock s \<and> xw_area s' = xw_area s"
  by (auto simp: xdp_rx_one_def Let_def split: option.splits if_splits prod.splits)

lemma rx_all_sock:
  "xdp_rx_all H c clock i ds (s, k) = Some (s', k') \<Longrightarrow> xw_sock s' = xw_sock s \<and> xw_area s' = xw_area s"
proof (induction ds arbitrary: i s k)
  case (Cons d ds)
  then obtain s1 k1 where one: "xdp_rx_one H c (clock i) d (s, k) = Some (s1, k1)"
    and "xdp_rx_all H c clock (Suc i) ds (s1, k1) = Some (s', k')"
    by (auto split: option.splits)
  with Cons.IH rx_one_sock [OF one] show ?case by metis
qed simp

lemma receive_frames:
  assumes wf: "rings_wf (xw_sock s)" and r: "xdp_receive H c e s = Some s'"
    and room: "size (rx_frames s) \<le> ring_capacity (fill_ring s)"
  shows "rings_wf (xw_sock s') \<and> tx_frames s' = tx_frames s \<and> rx_frames s' = rx_frames s \<and>
    ring_capacity (fill_ring s') = ring_capacity (fill_ring s) \<and> xw_area s' = xw_area s"
proof -
  obtain ds rx where d: "consume_rx (rx_ring s) = (ds, rx)" by fastforce
  have law: "ds = ring_contents (rx_ring s) \<and> ring_wf rx \<and> ring_contents rx = []"
    using desc_fifo.pop_law [OF _ d] wf by (simp add: rings_wf_def)
  obtain n fl where q: "enqueue_batch (fill_ring s) (map d_addr ds) = (n, fl)" by fastforce
  have "length ds \<le> ring_capacity (fill_ring s) - length (ring_contents (fill_ring s))"
    using room law by (simp add: rx_frames_def)
  then have fl: "ring_wf fl \<and> ring_capacity fl = ring_capacity (fill_ring s) \<and>
      ring_contents fl = ring_contents (fill_ring s) @ map d_addr ds"
    using addr_fifo.push_law [OF _ q] wf by (simp add: rings_wf_def)
  show ?thesis
  proof (cases "ds = []")
    case True
    then show ?thesis using r d law wf by (auto simp: xdp_receive_def rings_wf_def tx_frames_def rx_frames_def)
  next
    case False
    then obtain s1 k where a: "xdp_rx_all H c (xe_rx_ns e) 0 ds (s\<lparr>xw_sock := (xw_sock s)\<lparr>xsk_rx := rx\<rparr>\<rparr>, 0) = Some (s1, k)"
      using r d by (auto simp: xdp_receive_def split: option.splits)
    from rx_all_sock [OF a] have "xw_sock s1 = (xw_sock s)\<lparr>xsk_rx := rx\<rparr>" "xw_area s1 = xw_area s" by simp_all
    then show ?thesis
      using r d False a q fl law wf
      by (auto simp: xdp_receive_def rings_wf_def tx_frames_def rx_frames_def multiset.map_comp Let_def split: if_splits)
  qed
qed

lemma iter_frames:
  assumes wf: "rings_wf (xw_sock s)" and room: "size (rx_frames s) \<le> ring_capacity (fill_ring s)"
    and it: "xdp_iter H c e s = Some s'"
  shows "rings_wf (xw_sock s') \<and> tx_frames s' = tx_frames s \<and> rx_frames s' = rx_frames s \<and>
    ring_capacity (fill_ring s') = ring_capacity (fill_ring s)"
proof -
  let ?s0 = "snd (stall_check e (xdp_reclaim s))"
  obtain h s1 where h: "xdp_headroom c e ?s0 = (h, s1)" by fastforce
  then have k1: "xw_sock s1 = xw_sock (xdp_reclaim s)" using quiet_steps(3) [of c e ?s0] by simp
  note rc = reclaim_frames [OF wf]
  have f1: "rings_wf (xw_sock s1)" "tx_frames s1 = tx_frames s" "rx_frames s1 = rx_frames s" "fill_ring s1 = fill_ring s"
    using rc by (simp_all add: k1 tx_frames_def rx_frames_def)
  from it h obtain s2 s3 where t: "xdp_transmit c e h s1 = Some s2" and r: "xdp_receive H c e s2 = Some s3"
    and s': "s' = xdp_timeouts c e s3"
    by (auto simp: xdp_iter_def split: option.splits prod.splits)
  from transmit_frames [OF f1(1) t] f1 room
  have f2: "rings_wf (xw_sock s2)" "tx_frames s2 = tx_frames s" "rx_frames s2 = rx_frames s" "fill_ring s2 = fill_ring s"
    by simp_all
  have "tx_frames s' = tx_frames s3" "rx_frames s' = rx_frames s3" by (simp_all add: s' tx_frames_def rx_frames_def)
  with receive_frames [OF f2(1) r] f2 room show ?thesis by (simp add: s')
qed

section \<open>The kernel\<close>

record 'h xdp_system =
  sys :: "'h xdp_worker"
  k_tx :: "u64 list"
  k_rx :: "u64 list"

abbreviation set_sock :: "(xsk_socket \<Rightarrow> xsk_socket) \<Rightarrow> 'h xdp_system \<Rightarrow> 'h xdp_system" where
  "set_sock f S \<equiv> S\<lparr>sys := (sys S)\<lparr>xw_sock := f (xw_sock (sys S))\<rparr>\<rparr>"

text \<open>
  \<open>k_tx\<close> are the frames the kernel has taken from the transmit ring and not completed, \<open>k_rx\<close> those it has
  taken from the fill ring and not delivered.
\<close>

inductive kernel_step :: "'h xdp_system \<Rightarrow> 'h xdp_system \<Rightarrow> bool" where
  k_take: "ring_wf tx \<Longrightarrow> ring_contents (tx_ring (sys S)) = ds @ ring_contents tx \<Longrightarrow>
    kernel_step S (set_sock (\<lambda>k. k\<lparr>xsk_tx := tx\<rparr>) S\<lparr>k_tx := k_tx S @ map d_addr ds\<rparr>)"
| k_complete: "ring_wf cq \<Longrightarrow> ring_contents cq = ring_contents (comp_ring (sys S)) @ as \<Longrightarrow>
    mset (k_tx S) = mset as + mset rest \<Longrightarrow>
    kernel_step S (set_sock (\<lambda>k. k\<lparr>xsk_umem := (xsk_umem k)\<lparr>comp := cq\<rparr>\<rparr>) S\<lparr>k_tx := rest\<rparr>)"
| k_refill: "ring_wf fq \<Longrightarrow> ring_capacity fq = ring_capacity (fill_ring (sys S)) \<Longrightarrow>
    ring_contents (fill_ring (sys S)) = as @ ring_contents fq \<Longrightarrow>
    kernel_step S (set_sock (\<lambda>k. k\<lparr>xsk_umem := (xsk_umem k)\<lparr>fill := fq\<rparr>\<rparr>) S\<lparr>k_rx := k_rx S @ map frame_of as\<rparr>)"
| k_deliver: "ring_wf rx \<Longrightarrow> ring_contents rx = ring_contents (rx_ring (sys S)) @ ds \<Longrightarrow>
    mset (k_rx S) = mset (map (frame_of \<circ> d_addr) ds) + mset rest \<Longrightarrow> length area = length (xw_area (sys S)) \<Longrightarrow>
    kernel_step S (set_sock (\<lambda>k. k\<lparr>xsk_rx := rx\<rparr>) (S\<lparr>sys := (sys S)\<lparr>xw_area := area\<rparr>\<rparr>)\<lparr>k_rx := rest\<rparr>)"

inductive_cases kernel_stepE: "kernel_step S S'"

inductive system_step :: "'h hist_ops \<Rightarrow> worker_cfg \<Rightarrow> 'h xdp_system \<Rightarrow> 'h xdp_system \<Rightarrow> bool" for H c where
  sys_worker: "xdp_iter H c e (sys S) = Some s \<Longrightarrow> system_step H c S (S\<lparr>sys := s\<rparr>)"
| sys_kernel: "kernel_step S S' \<Longrightarrow> system_step H c S S'"

definition frames_inv :: "u64 multiset \<Rightarrow> u64 multiset \<Rightarrow> 'h xdp_system \<Rightarrow> bool" where
  "frames_inv txs rxs S \<longleftrightarrow>
     rings_wf (xw_sock (sys S)) \<and> tx_frames (sys S) + mset (k_tx S) = txs \<and>
     rx_frames (sys S) + mset (k_rx S) = rxs \<and> size rxs \<le> ring_capacity (fill_ring (sys S))"

lemma kernel_step_inv:
  assumes "kernel_step S S'" and inv: "frames_inv txs rxs S"
  shows "frames_inv txs rxs S'"
  using assms(1)
proof (cases rule: kernel_step.cases)
  case (k_take tx ds)
  then show ?thesis using inv by (auto simp: frames_inv_def rings_wf_def tx_frames_def rx_frames_def)
next
  case (k_complete cq as rest)
  then show ?thesis using inv by (auto simp: frames_inv_def rings_wf_def tx_frames_def rx_frames_def)
next
  case (k_refill fq as)
  then show ?thesis using inv by (auto simp: frames_inv_def rings_wf_def tx_frames_def rx_frames_def)
next
  case (k_deliver rx ds rest area)
  then show ?thesis using inv by (auto simp: frames_inv_def rings_wf_def tx_frames_def rx_frames_def)
qed

lemma system_step_inv:
  assumes "system_step H c S S'" and "frames_inv txs rxs S"
  shows "frames_inv txs rxs S'"
  using assms(1)
proof (cases rule: system_step.cases)
  case (sys_worker e s)
  have "size (rx_frames (sys S)) \<le> ring_capacity (fill_ring (sys S))"
    using assms(2) by (auto simp: frames_inv_def)
  then show ?thesis
    using iter_frames [OF _ _ sys_worker(2)] assms(2) sys_worker(1) by (simp add: frames_inv_def)
next
  case sys_kernel
  then show ?thesis using kernel_step_inv assms(2) by blast
qed

lemma reachable_inv:
  "(system_step H c)\<^sup>*\<^sup>* S S' \<Longrightarrow> frames_inv txs rxs S \<Longrightarrow> frames_inv txs rxs S'"
  by (induction rule: rtranclp_induct) (auto intro: system_step_inv)

section \<open>What an iteration writes\<close>

text \<open>An address of a whole frame inside the area.\<close>

definition frame_ok :: "bytes \<Rightarrow> u64 \<Rightarrow> bool" where
  "frame_ok area a \<longleftrightarrow> 2048 dvd unat a \<and> unat a + 2048 \<le> length area"

lemma put_frame_length: "unat a + length buf \<le> length area \<Longrightarrow> length (put_frame a buf area) = length area"
  by (simp add: put_frame_def)

lemma frame_at_put_other:
  assumes "frame_ok area a" and "frame_ok area b" and "a \<noteq> b" and "length buf = 2048"
  shows "frame_at (put_frame a buf area) b 2048 = frame_at area b 2048"
proof -
  obtain i j where ij: "unat a = 2048 * i" "unat b = 2048 * j" using assms(1,2) by (auto simp: frame_ok_def dvd_def)
  then have "i \<noteq> j" using assms(3) by (auto simp: word_unat_eq_iff)
  then have "unat b + 2048 \<le> unat a \<or> unat a + 2048 \<le> unat b" using ij by (cases "i < j") auto
  then show ?thesis
    using assms by (auto simp: frame_at_def put_frame_def frame_ok_def drop_take min_def)
qed

lemma stamp_query_ok:
  assumes h: "new_with_vlan sm dm src dst sport0 dport vlan = Some hdr" and p: "pool_fits pool" and l: "length buf = 2048"
  shows "\<exists>n buf'. stamp_query hdr pool tmpl qid sport buf = Some (n, buf') \<and> length buf' = 2048 \<and> n \<le> 2048"
proof -
  have o: "outer hdr \<le> 46" "l2 hdr + 28 = outer hdr" using header_offsets [OF h] by auto
  then have "MAX_QUERY \<le> length (drop (outer hdr) buf)" using l by (simp add: MAX_QUERY_def)
  then obtain n pl where w: "write_with_index pool tmpl qid (drop (outer hdr) buf) = Some (n, pl)"
    "n \<le> MAX_QUERY" "length pl = length (drop (outer hdr) buf)" by (rule pool_fitsE [OF p])
  let ?b = "take (outer hdr) buf @ pl"
  have lb: "length ?b = 2048" "outer hdr \<le> length ?b" using w(3) o l by simp_all
  note wh = write_header_eq [OF h lb(2), of n]
  let ?b' = "stamped sm dm src dst sport0 dport vlan n @ drop (outer hdr) ?b"
  have lb': "length ?b' = 2048" using lb header_offsets [OF h] by (simp add: length_stamped)
  then obtain b where "set_src_port hdr ?b' sport = Some b" "length b = 2048"
    using o by (simp add: set_src_port_def IPV4_HDR_def)
  then show ?thesis using w wh o by (simp add: stamp_query_def MAX_QUERY_def)
qed

lemma tx_fill_writes:
  assumes h: "new_with_vlan sm dm src dst sport0 dport vlan = Some (wc_hdr c)" and p: "pool_fits (wc_pool c)"
  shows "\<forall>a \<in> set (free_pool s). frame_ok (xw_area s) a \<Longrightarrow>
    \<exists>s' ds' ids'. tx_fill c n s ds ids = Some (s', ds', ids') \<and> length (xw_area s') = length (xw_area s) \<and>
      (\<forall>b. frame_ok (xw_area s) b \<longrightarrow> b \<notin> set (free_pool s) \<longrightarrow>
         frame_at (xw_area s') b 2048 = frame_at (xw_area s) b 2048)"
proof (induction n arbitrary: s ds ids)
  case (Suc n)
  show ?case
  proof (cases "free_pool s = []")
    case True
    then show ?thesis using Suc.IH [of s ds ids] Suc.prems by simp
  next
    case False
    let ?a = "last (free_pool s)" and ?pool = "free_pool s"
    have a: "frame_ok (xw_area s) ?a" using Suc.prems False by simp
    then have l: "length (frame_at (xw_area s) ?a (unat FRAME_SIZE)) = 2048"
      by (auto simp: frame_at_def frame_ok_def FRAME_SIZE_def)
    obtain m buf where st: "stamp_query (wc_hdr c) (wc_pool c) (xw_tmpl_idx s) (worker_query_id c (xw_id_ctr s))
        (SPORT_BASE + of_nat (xw_sport_ctr s mod SPORT_SPREAD)) (frame_at (xw_area s) ?a (unat FRAME_SIZE)) = Some (m, buf)"
      and lb: "length buf = 2048" using stamp_query_ok [OF h p l] by blast
    define s1 where "s1 = s\<lparr>xw_sock := (xw_sock s)\<lparr>xsk_tx_pool := butlast ?pool\<rparr>,
      xw_area := put_frame ?a buf (xw_area s), xw_id_ctr := xw_id_ctr s + 1,
      xw_tmpl_idx := xw_tmpl_idx s + 1, xw_sport_ctr := xw_sport_ctr s + 1\<rparr>"
    have la: "length (xw_area s1) = length (xw_area s)"
      using a lb by (simp add: s1_def frame_ok_def put_frame_length)
    have sub: "set (free_pool s1) \<subseteq> set ?pool" by (auto simp: s1_def dest: in_set_butlastD)
    have ok: "frame_ok (xw_area s1) = frame_ok (xw_area s)" using la by (simp add: frame_ok_def fun_eq_iff)
    have "\<forall>b \<in> set (free_pool s1). frame_ok (xw_area s1) b" using sub Suc.prems ok by auto
    from Suc.IH [OF this, of "ds @ [\<lparr>d_addr = ?a, d_len = of_nat m, d_options = 0\<rparr>]"
      "ids @ [worker_query_id c (xw_id_ctr s)]"]
    obtain s' ds' ids' where f: "tx_fill c n s1 (ds @ [\<lparr>d_addr = ?a, d_len = of_nat m, d_options = 0\<rparr>])
        (ids @ [worker_query_id c (xw_id_ctr s)]) = Some (s', ds', ids')" "length (xw_area s') = length (xw_area s1)"
      and other: "\<forall>b. frame_ok (xw_area s) b \<longrightarrow> b \<notin> set (free_pool s1) \<longrightarrow>
         frame_at (xw_area s') b 2048 = frame_at (xw_area s1) b 2048" unfolding ok by blast
    have "tx_fill c (Suc n) s ds ids = Some (s', ds', ids')" using False st f(1) by (simp add: s1_def Let_def)
    moreover have "frame_at (xw_area s') b 2048 = frame_at (xw_area s) b 2048"
      if "frame_ok (xw_area s) b" "b \<notin> set ?pool" for b
    proof -
      have "b \<noteq> ?a" using that(2) False by auto
      with frame_at_put_other [OF a that(1) _ lb] have "frame_at (xw_area s1) b 2048 = frame_at (xw_area s) b 2048"
        by (auto simp: s1_def)
      then show ?thesis using other that sub by auto
    qed
    ultimately show ?thesis using f(2) la by auto
  qed
qed simp

section \<open>The invariant of the system\<close>

definition sys_inv :: "'h xdp_system \<Rightarrow> bool" where
  "sys_inv S \<longleftrightarrow>
     frames_inv (mset (frame_addrs 4096 16384)) (mset (frame_addrs 0 4096)) S \<and>
     length (xw_area (sys S)) = 16384 * 2048"

lemma frame_addrs_ok:
  assumes "x \<in> set (frame_addrs a b)" and "b \<le> 16384" and "length area = 16384 * 2048"
  shows "frame_ok area x"
proof -
  obtain i where i: "i < b" "x = ucast (of_nat i * FRAME_SIZE :: u32)"
    using assms(1) by (auto simp: frame_addrs_def)
  then show ?thesis using assms(2,3) unat_frame_addr [of i] by (simp add: frame_ok_def)
qed

lemma all_frames_split: "frame_addrs 0 16384 = frame_addrs 0 4096 @ frame_addrs 4096 16384"
  by (rule frame_addrs_append [symmetric]) simp_all

lemma frame_addrs_disjoint: "set (frame_addrs 0 4096) \<inter> set (frame_addrs 4096 16384) = {}"
proof -
  have "distinct (frame_addrs 0 16384)" by (rule frame_addrs_distinct) simp
  then show ?thesis unfolding all_frames_split distinct_append by blast
qed

lemma rx_one_returns: "\<exists>x'. xdp_rx_one H c ns d x = Some x'"
proof -
  obtain s k where x: "x = (s, k)" by fastforce
  obtain r where "parse_dns_from_frame (frame_at (xw_area s) (d_addr d) (unat (d_len d))) = Some r"
    using parse_dns_returns by blast
  then show ?thesis by (auto simp: x xdp_rx_one_def Let_def split: option.split prod.split)
qed

lemma rx_all_returns: "\<exists>x'. xdp_rx_all H c clock i ds x = Some x'"
proof (induction ds arbitrary: i x)
  case (Cons d ds)
  obtain x1 where "xdp_rx_one H c (clock i) d x = Some x1" using rx_one_returns by blast
  with Cons show ?case by simp
qed simp

lemma receive_area:
  assumes "xdp_receive H c e s = Some s'"
  shows "xw_area s' = xw_area s \<and> tx_ring s' = tx_ring s"
proof -
  obtain ds rx where d: "consume_rx (rx_ring s) = (ds, rx)" by fastforce
  show ?thesis
  proof (cases "ds = []")
    case True
    then show ?thesis using assms d by (auto simp: xdp_receive_def)
  next
    case False
    then obtain s1 k where a: "xdp_rx_all H c (xe_rx_ns e) 0 ds (s\<lparr>xw_sock := (xw_sock s)\<lparr>xsk_rx := rx\<rparr>\<rparr>, 0) = Some (s1, k)"
      using assms d by (auto simp: xdp_receive_def split: option.splits)
    then show ?thesis using assms d False rx_all_sock [OF a] by (auto simp: xdp_receive_def Let_def split: if_splits)
  qed
qed

lemma reclaim_pool:
  assumes "rings_wf (xw_sock s)"
  shows "set (free_pool (xdp_reclaim s)) = set (free_pool s) \<union> set (ring_contents (comp_ring s))"
proof -
  obtain out comp' where d: "dequeue_all (comp_ring s) = (out, comp')" by fastforce
  have "out = ring_contents (comp_ring s)"
    using addr_fifo.pop_law [OF _ d] assms by (simp add: rings_wf_def)
  then show ?thesis by (simp add: xdp_reclaim_def d Let_def)
qed

lemma receive_returns: "\<exists>s'. xdp_receive H c e s = Some s'"
  using rx_all_returns [of H c "xe_rx_ns e" 0]
  by (auto simp: xdp_receive_def Let_def split: option.split prod.split) (metis option.distinct(1))

lemma transmit_writes:
  assumes "new_with_vlan sm dm src dst sport0 dport vlan = Some (wc_hdr c)" and "pool_fits (wc_pool c)"
    and "\<forall>a \<in> set (free_pool s). frame_ok (xw_area s) a"
  shows "\<exists>s'. xdp_transmit c e n s = Some s' \<and> length (xw_area s') = length (xw_area s) \<and>
    (\<forall>b. frame_ok (xw_area s) b \<longrightarrow> b \<notin> set (free_pool s) \<longrightarrow>
       frame_at (xw_area s') b 2048 = frame_at (xw_area s) b 2048)"
proof (cases "n = 0")
  case True
  then show ?thesis by (simp add: xdp_transmit_def)
next
  case False
  from tx_fill_writes [OF assms, of "min n (length (free_pool s))" "[]" "[]"] obtain s1 ds ids where
    f: "tx_fill c (min n (length (free_pool s))) s [] [] = Some (s1, ds, ids)" "length (xw_area s1) = length (xw_area s)"
    "\<forall>b. frame_ok (xw_area s) b \<longrightarrow> b \<notin> set (free_pool s) \<longrightarrow> frame_at (xw_area s1) b 2048 = frame_at (xw_area s) b 2048"
    by blast
  obtain enq tx where p: "produce_tx (tx_ring s1) ds = (enq, tx)" by fastforce
  show ?thesis using False f p by (simp add: xdp_transmit_def Let_def)
qed

lemma tx_mset_sets:
  assumes "tx_frames s + mset ks = mset as"
  shows "set (free_pool s) \<union> set (ring_contents (comp_ring s)) \<union> d_addr ` set (ring_contents (tx_ring s)) \<union> set ks = set as"
proof -
  have "set_mset (tx_frames s + mset ks) = set as" unfolding assms by simp
  then show ?thesis by (auto simp: tx_frames_def)
qed

lemma worker_iter_safe:
  assumes hdr: "new_with_vlan sm dm src dst sport0 dport vlan = Some (wc_hdr c)" and pool: "pool_fits (wc_pool c)"
    and inv: "sys_inv S"
  shows "\<exists>s'. xdp_iter H c e (sys S) = Some s' \<and> sys_inv (S\<lparr>sys := s'\<rparr>) \<and>
    (\<forall>b. frame_ok (xw_area (sys S)) b \<longrightarrow> b \<notin> set (free_pool (sys S)) \<union> set (ring_contents (comp_ring (sys S))) \<longrightarrow>
       frame_at (xw_area s') b 2048 = frame_at (xw_area (sys S)) b 2048)"
proof -
  let ?s = "sys S"
  have wf: "rings_wf (xw_sock ?s)" and len: "length (xw_area ?s) = 16384 * 2048"
    and txs: "tx_frames ?s + mset (k_tx S) = mset (frame_addrs 4096 16384)"
    and fr: "frames_inv (mset (frame_addrs 4096 16384)) (mset (frame_addrs 0 4096)) S"
    using inv unfolding sys_inv_def frames_inv_def by blast+
  obtain h s1 where h: "xdp_headroom c e (snd (stall_check e (xdp_reclaim ?s))) = (h, s1)" by fastforce
  have s1: "xw_sock s1 = xw_sock (xdp_reclaim ?s)" "xw_area s1 = xw_area ?s"
    using quiet_steps(3,4) [of c e "snd (stall_check e (xdp_reclaim ?s))"] reclaim_frames(5) [OF wf] by (simp_all add: h)
  have pool1: "set (free_pool s1) = set (free_pool ?s) \<union> set (ring_contents (comp_ring ?s))"
    unfolding s1(1) by (rule reclaim_pool [OF wf])
  have ok: "\<forall>a \<in> set (free_pool s1). frame_ok (xw_area s1) a"
  proof
    fix a
    assume "a \<in> set (free_pool s1)"
    then have "a \<in> set (frame_addrs 4096 16384)" unfolding pool1 tx_mset_sets [OF txs, symmetric] by blast
    then show "frame_ok (xw_area s1) a" unfolding s1(2) using len by (rule frame_addrs_ok [OF _ order_refl])
  qed
  from transmit_writes [OF hdr pool ok, of e h] obtain s2 where
    t: "xdp_transmit c e h s1 = Some s2" "length (xw_area s2) = length (xw_area ?s)"
    "\<forall>b. frame_ok (xw_area ?s) b \<longrightarrow> b \<notin> set (free_pool s1) \<longrightarrow> frame_at (xw_area s2) b 2048 = frame_at (xw_area ?s) b 2048"
    unfolding s1(2) by blast
  obtain s3 where r: "xdp_receive H c e s2 = Some s3" using receive_returns by blast
  have it: "xdp_iter H c e ?s = Some (xdp_timeouts c e s3)" using h t(1) r by (simp add: xdp_iter_def)
  have a3: "xw_area s3 = xw_area s2" using receive_area [OF r] by simp
  have "frames_inv (mset (frame_addrs 4096 16384)) (mset (frame_addrs 0 4096)) (S\<lparr>sys := xdp_timeouts c e s3\<rparr>)"
    using sys_worker [OF it] fr by (rule system_step_inv)
  then have "sys_inv (S\<lparr>sys := xdp_timeouts c e s3\<rparr>)" using t(2) len a3 by (simp add: sys_inv_def)
  with it t(3) a3 show ?thesis unfolding pool1 by (intro exI [of _ "xdp_timeouts c e s3"]) simp
qed

section \<open>A new worker\<close>

lemma frame_of_frame_addr:
  assumes "x \<in> set (frame_addrs a b)" and "b \<le> 16384"
  shows "frame_of x = x"
proof -
  obtain i where i: "i < b" "x = ucast (of_nat i * FRAME_SIZE :: u32)"
    using assms(1) by (auto simp: frame_addrs_def)
  have "unat x = i * 2048" using i assms(2) unat_frame_addr [of i] by simp
  moreover have "unat (of_nat (i * 2048) :: u64) = i * 2048" using i(1) assms(2) by (simp add: unat_of_nat del: of_nat_mult)
  ultimately have "x = of_nat (i * 2048)" by (simp only: word_unat_eq_iff)
  then have x: "x = push_bit 11 (of_nat i)" by (simp add: push_bit_eq_mult)
  have m: "(2047 :: u64) = mask 11" by (simp add: mask_eq_exp_minus_1)
  show ?thesis unfolding frame_of_def x m by (auto simp: bit_eq_iff bit_simps)
qed

definition xdp_system_new :: "worker_cfg \<Rightarrow> nat \<Rightarrow> xsk_socket \<Rightarrow> bytes \<Rightarrow> slots \<Rightarrow> u64 \<Rightarrow> 'h stats \<Rightarrow> 'h xdp_system" where
  "xdp_system_new c now sock area slots global st =
     \<lparr>sys = xdp_worker_new c now sock area slots global st, k_tx = [], k_rx = []\<rparr>"

lemma socket_frames:
  assumes "create_xsk_socket env live = (Inr sock, live')"
  shows "xsk_tx sock = mapped_ring zero_desc 4096" "xsk_rx sock = mapped_ring zero_desc 4096"
    "comp (xsk_umem sock) = mapped_ring 0 4096" "xsk_tx_pool sock = frame_addrs 4096 16384"
    "ring_contents (fill (xsk_umem sock)) = frame_addrs 0 4096"
    "fill (xsk_umem sock) = snd (enqueue_batch (mapped_ring 0 4096) (frame_addrs 0 4096))"
  using assms fill_after_new
  by (auto simp: create_xsk_socket_def umem_new_def RING_SIZE_def FRAME_COUNT_def Let_def split: if_splits)

lemma system_new_inv:
  assumes sock: "create_xsk_socket env live = (Inr sock, live')" and area: "length area = 16384 * 2048"
  shows "sys_inv (xdp_system_new c now sock area slots global st)"
proof -
  note k = socket_frames [OF sock]
  have wfd: "ring_wf (mapped_ring zero_desc 4096)" and wfa: "ring_wf (mapped_ring (0 :: u64) 4096)"
    by (rule mapped_ring_wf [of 12]; simp)+
  obtain n fl where q: "enqueue_batch (mapped_ring 0 4096) (frame_addrs 0 4096) = (n, fl)" by fastforce
  note law = addr_fifo.push_law [OF wfa q]
  have fill: "ring_wf (fill (xsk_umem sock))" "ring_capacity (fill (xsk_umem sock)) = 4096"
    using law unfolding k(6) q by (simp_all add: ring_capacity_def mapped_ring_def)
  have "map frame_of (frame_addrs 0 4096) = frame_addrs 0 4096"
    by (rule map_idI) (rule frame_of_frame_addr, assumption, simp)
  moreover have "size (mset (frame_addrs 0 4096)) = 4096" by (simp add: frame_addrs_def)
  ultimately show ?thesis
    using area fill wfd wfa k(5)
    by (simp add: sys_inv_def frames_inv_def rings_wf_def tx_frames_def rx_frames_def xdp_system_new_def
      xdp_worker_new_def k(1-4) mapped_ring_empty del: mset_map)
qed

lemma system_reachable_inv:
  assumes hdr: "new_with_vlan sm dm src dst sport0 dport vlan = Some (wc_hdr c)" and pool: "pool_fits (wc_pool c)"
  shows "(system_step H c)\<^sup>*\<^sup>* S S' \<Longrightarrow> sys_inv S \<Longrightarrow> sys_inv S'"
proof (induction rule: rtranclp_induct)
  case (step S1 S2)
  then have inv: "sys_inv S1" by simp
  from step(2) show ?case
  proof (cases rule: system_step.cases)
    case (sys_worker e s)
    then show ?thesis using worker_iter_safe [OF hdr pool inv, of H e] by auto
  next
    case sys_kernel
    then have "length (xw_area (sys S2)) = length (xw_area (sys S1))" by (cases rule: kernel_step.cases) simp_all
    then show ?thesis using inv system_step_inv [OF step(2)] by (simp add: sys_inv_def)
  qed
qed

section \<open>Properties\<close>

text \<open>The frames that are queued, in the kernel's hands, or on the receive side; and all frames.\<close>

definition busy_frames :: "'h xdp_system \<Rightarrow> u64 list" where
  "busy_frames S =
     map d_addr (ring_contents (tx_ring (sys S))) @ k_tx S @
     map frame_of (ring_contents (fill_ring (sys S))) @ k_rx S @ map (frame_of \<circ> d_addr) (ring_contents (rx_ring (sys S)))"

definition all_owned :: "'h xdp_system \<Rightarrow> u64 list" where
  "all_owned S = (free_pool (sys S) @ ring_contents (comp_ring (sys S))) @ busy_frames S"

lemma mset_all_owned:
  assumes "frames_inv (mset (frame_addrs 4096 16384)) (mset (frame_addrs 0 4096)) S"
  shows "mset (all_owned S) = mset (frame_addrs 0 16384)"
proof -
  have "mset (all_owned S) = (tx_frames (sys S) + mset (k_tx S)) + (rx_frames (sys S) + mset (k_rx S))"
    by (simp add: all_owned_def busy_frames_def tx_frames_def rx_frames_def)
  also have "\<dots> = mset (frame_addrs 4096 16384) + mset (frame_addrs 0 4096)"
    using assms by (simp add: frames_inv_def)
  finally show ?thesis by (simp add: all_frames_split)
qed

definition test_worker :: worker_cfg where
  "test_worker =
     \<lparr>wc_hdr = the (test_header None), wc_pool = the (from_pairs [(''a.com'', 1)]), wc_id = 0, wc_workers = 1,
      wc_max_out = 0, wc_timeout = 5000000000, wc_firehose = True, wc_track = False\<rparr>"

lemma all_ok_socket: obtains sock live where "create_xsk_socket all_ok {} = (Inr sock, live)"
  by (auto simp: create_xsk_socket_def umem_new_def all_ok_def Let_def)

text \<open>C7: Frame ownership. Starting from a new socket, whatever the kernel does with the rings and however many
  iterations the worker runs, every one of the 16384 UMEM frames is at each moment in exactly one
  place: the worker's free pool, one of the four rings, or the kernel's hands. No frame is lost, sent
  twice, or free while the kernel may still read it.\<close>

theorem xdp_frames_partitioned:
  assumes "create_xsk_socket env live = (Inr sock, live')" and "length area = 16384 * 2048"
    and "(system_step H c)\<^sup>*\<^sup>* (xdp_system_new c now sock area slots global st) S"
  shows "distinct (all_owned S) \<and> set (all_owned S) = set (frame_addrs 0 16384)"
proof -
  have "frames_inv (mset (frame_addrs 4096 16384)) (mset (frame_addrs 0 4096)) S"
    using reachable_inv [OF assms(3)] system_new_inv [OF assms(1,2)] unfolding sys_inv_def by blast
  note m = mset_all_owned [OF this]
  have "distinct (frame_addrs 0 16384)" by (rule frame_addrs_distinct) simp
  then show ?thesis using mset_eq_imp_distinct_iff [OF m] mset_eq_setD [OF m] by blast
qed

theorem xdp_frames_partitioned_witness:
  "\<exists>sock. fst (create_xsk_socket all_ok {}) = Inr sock \<and>
     distinct (all_owned (xdp_system_new test_worker 0 sock (replicate (16384 * 2048) 0) slots_new 0 (stats_new list_hist)))"
proof -
  obtain sock live where c: "create_xsk_socket all_ok {} = (Inr sock, live)" by (rule all_ok_socket)
  have l: "length (replicate (16384 * 2048) 0 :: bytes) = 16384 * 2048" by (rule length_replicate)
  from xdp_frames_partitioned [OF c l rtranclp.rtrancl_refl [where r = "system_step list_hist test_worker"]] c
  show ?thesis by (metis fst_conv)
qed

text \<open>C8: The worker never touches a frame it does not own: in every reachable state the next iteration does
  not panic, and every frame that is queued for transmission, held by the kernel or on the receive side
  has the same bytes after it.\<close>

theorem xdp_iteration_respects_ownership:
  assumes "create_xsk_socket env live = (Inr sock, live')" and "length area = 16384 * 2048"
    and "new_with_vlan sm dm src dst sport dport vlan = Some (wc_hdr c)"
    and "from_pairs entries = Some (wc_pool c)" and "\<forall>(name, qtype) \<in> set entries. length name \<le> 494"
    and "(system_step H c)\<^sup>*\<^sup>* (xdp_system_new c now sock area slots global st) S"
  shows "\<exists>s'. xdp_iter H c e (sys S) = Some s' \<and>
    (\<forall>b \<in> set (busy_frames S). frame_at (xw_area s') b 2048 = frame_at (xw_area (sys S)) b 2048)"
proof -
  note pool = pool_fitsI [OF assms(4,5)]
  have inv: "sys_inv S" by (rule system_reachable_inv [OF assms(3) pool assms(6) system_new_inv [OF assms(1,2)]])
  then have m: "mset (all_owned S) = mset (frame_addrs 0 16384)" unfolding sys_inv_def using mset_all_owned by blast
  have "distinct (frame_addrs 0 16384)" by (rule frame_addrs_distinct) simp
  then have d: "distinct (all_owned S)" using mset_eq_imp_distinct_iff [OF m] by blast
  have ok: "frame_ok (xw_area (sys S)) b" if "b \<in> set (all_owned S)" for b
    using that inv unfolding mset_eq_setD [OF m] sys_inv_def by (intro frame_addrs_ok [of b 0 16384]) auto
  from worker_iter_safe [OF assms(3) pool inv, of H e] obtain s' where
    "xdp_iter H c e (sys S) = Some s'"
    "\<forall>b. frame_ok (xw_area (sys S)) b \<longrightarrow> b \<notin> set (free_pool (sys S)) \<union> set (ring_contents (comp_ring (sys S))) \<longrightarrow>
       frame_at (xw_area s') b 2048 = frame_at (xw_area (sys S)) b 2048" by blast
  moreover have "b \<in> set (all_owned S)" "b \<notin> set (free_pool (sys S)) \<union> set (ring_contents (comp_ring (sys S)))"
    if "b \<in> set (busy_frames S)" for b
    using that d unfolding all_owned_def distinct_append by auto
  ultimately show ?thesis using ok by blast
qed

theorem xdp_iteration_respects_ownership_witness:
  "\<exists>sock s'. fst (create_xsk_socket all_ok {}) = Inr sock \<and>
     xdp_iter list_hist test_worker
       \<lparr>xe_stall_now = 0, xe_stall_done = 0, xe_qps = 0, xe_refill = 0, xe_ins_ns = (\<lambda>_. 1), xe_egress_ns = 1,
         xe_rx_ns = (\<lambda>_. 2), xe_now = 0, xe_sweep_ns = 3\<rparr>
       (sys (xdp_system_new test_worker 0 sock (replicate (16384 * 2048) 0) slots_new 0 (stats_new list_hist))) = Some s'"
proof -
  obtain sock live where c: "create_xsk_socket all_ok {} = (Inr sock, live)" by (rule all_ok_socket)
  have l: "length (replicate (16384 * 2048) 0 :: bytes) = 16384 * 2048" by (rule length_replicate)
  have h: "new_with_vlan (Mac 0x00 0x11 0x22 0x33 0x44 0x55) (Mac 0xAA 0xBB 0xCC 0xDD 0xEE 0xFF)
       (Ipv4 10 8 0 2) (Ipv4 10 8 0 1) 12345 53 None = Some (wc_hdr test_worker)"
    by (simp add: test_worker_def test_header_def new_with_vlan_eq)
  have p: "from_pairs [(''a.com'', 1)] = Some (wc_pool test_worker)" by (simp add: test_worker_def from_pairs_def)
  have n: "\<forall>(name, qtype) \<in> set [(''a.com'', 1 :: u16)]. length name \<le> 494" by simp
  from xdp_iteration_respects_ownership [OF c l h p n rtranclp.rtrancl_refl [where r = "system_step list_hist test_worker"]] c
  show ?thesis by (metis fst_conv)
qed

end
