(* ===== verification/Xdp_Counts.thy ===== *)
theory Xdp_Counts
  imports Xdp_Frames
begin

text \<open>
  What the AF\_XDP worker counts and how it paces: the disjoint id ranges of the workers, the bounds of the
  token bucket, and that in flood mode the collector, together with what the worker has not flushed yet,
  counts exactly the descriptors the transmit ring accepted and the replies found in the receive ring.
\<close>

section \<open>Query ids\<close>

lemma id_span_bound: "0 < n \<Longrightarrow> n \<le> 65536 \<Longrightarrow> n * id_span n \<le> 65536 \<and> 0 < id_span n"
  by (auto simp: id_span_def max_def div_greater_zero_iff not_le)

lemma unat_worker_query_id:
  assumes "wc_id c < wc_workers c" and "wc_workers c \<le> 65536"
  shows "unat (worker_query_id c k) = wc_id c * id_span (wc_workers c) + k mod id_span (wc_workers c)"
proof -
  let ?n = "wc_workers c" and ?w = "wc_id c"
  let ?s = "id_span ?n"
  have s: "?n * ?s \<le> 65536" "0 < ?s" using id_span_bound [of ?n] assms by auto
  have "?w * ?s + k mod ?s < ?w * ?s + ?s" using s(2) by simp
  also have "\<dots> = (?w + 1) * ?s" by simp
  also have "\<dots> \<le> ?n * ?s" using assms(1) by (intro mult_right_mono) simp_all
  finally have "?w * ?s + k mod ?s < 65536" using s(1) by linarith
  moreover have "worker_query_id c k = of_nat (?w * ?s + k mod ?s)"
    using assms(1) by (simp add: worker_query_id_def id_base_def)
  ultimately show ?thesis by (simp add: unat_of_nat del: of_nat_add of_nat_mult)
qed

lemma div_mod_unique:
  fixes a b x y s :: nat
  assumes "x < s" and "y < s" and "a * s + x = b * s + y"
  shows "a = b \<and> x = y"
proof -
  have "(a * s + x) div s = a" "(b * s + y) div s = b" using assms(1,2) by simp_all
  then show ?thesis using assms(3) by simp
qed

section \<open>The token bucket\<close>

definition f_nonneg :: "f64 \<Rightarrow> bool" where
  "f_nonneg x \<longleftrightarrow> (case x of Fin v \<Rightarrow> 0 \<le> v | PInf \<Rightarrow> True | NInf \<Rightarrow> False | NaN \<Rightarrow> True)"

lemma fl64_nonneg: "0 \<le> q \<Longrightarrow> f_nonneg (fl64 q)"
proof -
  assume q: "0 \<le> q"
  have "- (2 ^ 1024) < (0 :: rat)" by simp
  then have "\<not> fl q \<le> - (2 ^ 1024)" using fl_nonneg [OF q] by linarith
  then show ?thesis using fl_nonneg [OF q] by (simp add: f_nonneg_def fl64_def Let_def)
qed

lemma f_nonneg_ops:
  assumes "f_nonneg x" and "f_nonneg y"
  shows "f_nonneg (f_add x y)" "f_nonneg (f_mul x y)"
  using assms fl64_nonneg by (cases x; cases y; simp add: f_nonneg_def f_inf_def split: f64.splits)+

lemma f_div_nonneg: "0 < b \<Longrightarrow> f_nonneg x \<Longrightarrow> f_nonneg (f_div x (Fin b))"
  using fl64_nonneg by (cases x) (auto simp: f_nonneg_def f_inf_def)

lemma f_min_64:
  assumes "f_nonneg x"
  obtains v where "f_min x (Fin 64) = Fin v" "0 \<le> v" "v \<le> 64"
proof (cases x)
  case (Fin v)
  then show thesis using assms that [of v] that [of 64] by (cases "64 < v") (simp_all add: f_min_def f_nonneg_def)
qed (use assms that [of 64] in \<open>simp_all add: f_min_def f_nonneg_def\<close>)

lemma secs_nonneg: "f_nonneg (secs_f64 ns)"
proof -
  have "fl64 1000000000 = Fin 1000000000" using fl64_nat [of 1000000000] by simp
  then show ?thesis
    unfolding secs_f64_def by (simp add: f_nonneg_ops f_div_nonneg fl64_nonneg)
qed

lemma refill_bounds:
  assumes "0 \<le> t"
  shows "\<exists>v n. refill (Fin t) elapsed qps = (Fin v, n) \<and> 0 \<le> v \<and> v \<le> 1 \<and> n \<le> TX_BATCH"
proof -
  let ?x = "f_add (Fin t) (f_mul (secs_f64 elapsed) (f_of_u64 qps))"
  have "f_nonneg (f_of_u64 qps)" unfolding f_of_u64_def by (rule fl64_nonneg [OF of_nat_0_le_iff])
  moreover have "f_nonneg (Fin t)" using assms by (simp add: f_nonneg_def)
  ultimately have "f_nonneg ?x" by (simp add: f_nonneg_ops secs_nonneg)
  then obtain v where v: "f_min ?x (Fin 64) = Fin v" "0 \<le> v" "v \<le> 64" by (rule f_min_64)
  have b: "fl64 (of_nat TX_BATCH) = Fin 64" using fl64_nat [of 64] by (simp add: TX_BATCH_def)
  let ?d = "v - of_int \<lfloor>v\<rfloor>"
  have d: "0 \<le> ?d" "?d \<le> 1" by linarith+
  note fl64_unit [OF d]
  moreover have "f_to_nat (2 ^ 64 - 1) (Fin (of_int \<lfloor>v\<rfloor>)) \<le> 64" using v(2,3) by (simp add: floor_le_iff) linarith
  ultimately show ?thesis
    unfolding refill_def b v(1) by (simp add: f_sub_def f_to_u64_def TX_BATCH_def unat_of_nat Let_def)
qed

section \<open>Counting in flood mode\<close>

text \<open>Sent and answered so far, with what is still in the worker's accumulators.\<close>

definition total_sent :: "'h xdp_worker \<Rightarrow> u64" where
  "total_sent s = sent (xw_stats s) + of_nat (xw_sub_acc s)"

definition total_class :: "nat \<Rightarrow> 'h xdp_worker \<Rightarrow> u64" where
  "total_class k s = classes (xw_stats s) ! k + xw_rc s ! k"

text \<open>The reply a descriptor carries.\<close>

definition reply_class :: "bytes \<Rightarrow> xdp_desc \<Rightarrow> nat option" where
  "reply_class area d =
     (case parse_dns_from_frame (frame_at area (d_addr d) (unat (d_len d))) of
        Some (Some (qid, rcode)) \<Rightarrow> Some (rcode_class rcode) | _ \<Rightarrow> None)"

definition replies :: "bytes \<Rightarrow> nat \<Rightarrow> xdp_desc list \<Rightarrow> nat" where
  "replies area k ds = length (filter (\<lambda>d. reply_class area d = Some k) ds)"

definition rc_inv :: "'h xdp_worker \<Rightarrow> bool" where
  "rc_inv s \<longleftrightarrow> (\<exists>cs. xw_rc s = map of_nat cs \<and> length cs = 5 \<and> sum_list cs = xw_rc_acc s) \<and> xw_rc_acc s < RC_FLUSH"

lemma flood_rx_one:
  assumes "wc_firehose c" and "xw_rc s = map of_nat cs" and "length cs = 5" and "sum_list cs = xw_rc_acc s"
    and "xdp_rx_one H c ns d (s, m) = Some (s', m')"
  shows "\<exists>cs'. xw_rc s' = map of_nat cs' \<and> length cs' = 5 \<and> sum_list cs' = xw_rc_acc s' \<and> xw_sub_acc s' = xw_sub_acc s \<and>
    counts (xw_stats s') = counts (xw_stats s) \<and> xw_area s' = xw_area s \<and> xw_rc_acc s' \<le> xw_rc_acc s + 1 \<and>
    (\<forall>k<5. cs' ! k = cs ! k + replies (xw_area s) k [d])"
proof -
  obtain r where r: "parse_dns_from_frame (frame_at (xw_area s) (d_addr d) (unat (d_len d))) = Some r"
    using parse_dns_returns by blast
  show ?thesis
  proof (cases r)
    case None
    then have "s' = s" using assms(5) r by (simp add: xdp_rx_one_def)
    then show ?thesis using assms r None by (intro exI [of _ cs]) (simp add: replies_def reply_class_def)
  next
    case (Some p)
    obtain qid rcode where p: "p = (qid, rcode)" by fastforce
    let ?i = "rcode_class rcode"
    note b = bump_at_facts [OF assms(3) rcode_class_less [of rcode]]
    have "xw_rc s' = (xw_rc s)[?i := xw_rc s ! ?i + 1]" "xw_rc_acc s' = xw_rc_acc s + 1" "xw_area s' = xw_area s"
      "xw_sub_acc s' = xw_sub_acc s" "counts (xw_stats s') = counts (xw_stats s)"
      using assms(1,5) r Some p by (auto simp: xdp_rx_one_def Let_def split: if_splits prod.splits option.splits)
    then show ?thesis using assms(2,4) b r Some p
      by (intro exI [of _ "bump_at ?i cs"]) (simp add: replies_def reply_class_def)
  qed
qed

lemma flood_rx_all:
  assumes "wc_firehose c"
  shows "xw_rc s = map of_nat cs \<Longrightarrow> length cs = 5 \<Longrightarrow> sum_list cs = xw_rc_acc s \<Longrightarrow>
    xdp_rx_all H c clock i ds (s, m) = Some (s', m') \<Longrightarrow>
    \<exists>cs'. xw_rc s' = map of_nat cs' \<and> length cs' = 5 \<and> sum_list cs' = xw_rc_acc s' \<and> xw_sub_acc s' = xw_sub_acc s \<and>
      counts (xw_stats s') = counts (xw_stats s) \<and> xw_rc_acc s' \<le> xw_rc_acc s + length ds \<and>
      (\<forall>k<5. cs' ! k = cs ! k + replies (xw_area s) k ds)"
proof (induction ds arbitrary: i s cs m)
  case (Cons d ds)
  obtain s1 m1 where one: "xdp_rx_one H c (clock i) d (s, m) = Some (s1, m1)"
    and rest: "xdp_rx_all H c clock (Suc i) ds (s1, m1) = Some (s', m')"
    using Cons.prems(4) by (auto split: option.splits)
  from flood_rx_one [OF assms Cons.prems(1-3) one] obtain cs1 where
    c1: "xw_rc s1 = map of_nat cs1" "length cs1 = 5" "sum_list cs1 = xw_rc_acc s1" "xw_sub_acc s1 = xw_sub_acc s"
      "counts (xw_stats s1) = counts (xw_stats s)" "xw_area s1 = xw_area s" "xw_rc_acc s1 \<le> xw_rc_acc s + 1"
      "\<forall>k<5. cs1 ! k = cs ! k + replies (xw_area s) k [d]" by blast
  from Cons.IH [OF c1(1-3) rest] obtain cs2 where
    c2: "xw_rc s' = map of_nat cs2" "length cs2 = 5" "sum_list cs2 = xw_rc_acc s'" "xw_sub_acc s' = xw_sub_acc s1"
      "counts (xw_stats s') = counts (xw_stats s1)" "xw_rc_acc s' \<le> xw_rc_acc s1 + length ds"
      "\<forall>k<5. cs2 ! k = cs1 ! k + replies (xw_area s1) k ds" by blast
  have "replies (xw_area s) k (d # ds) = replies (xw_area s) k [d] + replies (xw_area s) k ds" for k
    by (simp add: replies_def)
  then show ?case using c1 c2 by (intro exI [of _ cs2]) simp
qed (auto simp: replies_def)

text \<open>The parts of the worker's state that carry the totals.\<close>

definition tallies :: "'h xdp_worker \<Rightarrow> (u64 \<times> u64 \<times> u64 list) \<times> nat \<times> u64 list \<times> nat" where
  "tallies s = (counts (xw_stats s), xw_sub_acc s, xw_rc s, xw_rc_acc s)"

lemma tallies_cong:
  "tallies s' = tallies s \<Longrightarrow> total_sent s' = total_sent s \<and> total_class k s' = total_class k s \<and> rc_inv s' = rc_inv s"
  by (simp add: tallies_def counts_def total_sent_def total_class_def rc_inv_def)

lemma quiet_tallies:
  "tallies (xdp_reclaim s) = tallies s" "tallies (snd (stall_check e s)) = tallies s"
  "tallies (snd (xdp_headroom c e s)) = tallies s" "tallies (xdp_timeouts c e s) = tallies s"
  by (simp_all add: tallies_def xdp_reclaim_def stall_check_def xdp_headroom_def xdp_timeouts_def Let_def split: prod.split)

lemma tx_fill_tallies: "tx_fill c n s ds ids = Some (s', ds', ids') \<Longrightarrow> tallies s' = tallies s"
  by (induction n arbitrary: s ds ids) (fastforce simp: Let_def tallies_def split: if_splits option.splits prod.splits)+

lemma register_sent_counts:
  "total_sent (register_sent c e n ids s) = total_sent s + of_nat n" 
  "total_class k (register_sent c e n ids s) = total_class k s" "rc_inv (register_sent c e n ids s) = rc_inv s"
  by (auto simp: register_sent_def total_sent_def total_class_def rc_inv_def classes_def inc_sent_n_def
    record_inflight_def Let_def algebra_simps)

lemma transmit_counts:
  assumes wf: "ring_wf (tx_ring s)" and t: "xdp_transmit c e n s = Some s'"
  shows "total_sent s' = total_sent s + of_nat (length (ring_contents (tx_ring s')) - length (ring_contents (tx_ring s))) \<and>
    total_class k s' = total_class k s \<and> rc_inv s' = rc_inv s"
proof (cases "n = 0")
  case True
  then show ?thesis using t by (simp add: xdp_transmit_def)
next
  case False
  then obtain s1 ds ids where f: "tx_fill c (min n (length (free_pool s))) s [] [] = Some (s1, ds, ids)"
    using t by (auto simp: xdp_transmit_def split: option.splits)
  obtain enq tx where p: "produce_tx (tx_ring s1) ds = (enq, tx)" by fastforce
  have tx1: "tx_ring s1 = tx_ring s" using tx_fill_frames [OF f] by simp
  then have law: "enq \<le> length ds \<and> ring_contents tx = ring_contents (tx_ring s) @ take enq ds"
    using desc_fifo.push_law [OF _ p] wf by auto
  let ?s2 = "s1\<lparr>xw_sock := (xw_sock s1)\<lparr>xsk_tx := tx, xsk_tx_pool := free_pool s1 @ map d_addr (drop enq ds)\<rparr>\<rparr>"
  have "tallies ?s2 = tallies s" using tx_fill_tallies [OF f] by (simp add: tallies_def)
  note eq = tallies_cong [OF this, of k]
  show ?thesis
    using t False f p law tx1 eq tallies_cong [OF tx_fill_tallies [OF f], of k]
      register_sent_counts(1,3) [of c e enq ids ?s2] register_sent_counts(2) [of k c e enq ids ?s2]
    by (cases "0 < enq") (auto simp: xdp_transmit_def Let_def split: if_splits)
qed

text \<open>The drain of the receive ring, up to the flush of the accumulators.\<close>

lemma flood_receive_cases:
  assumes fh: "wc_firehose c" and wf: "ring_wf (rx_ring s)" and inv: "rc_inv s"
    and r: "xdp_receive H c e s = Some s'" and ne: "ring_contents (rx_ring s) \<noteq> []"
  shows "\<exists>s2 cs1. s' = (if RC_FLUSH \<le> xw_rc_acc s2
        then s2\<lparr>xw_stats := rx_record (xw_rc s2) (xw_stats s2), xw_rc := replicate 5 0, xw_rc_acc := 0\<rparr> else s2) \<and>
    xw_rc s2 = map of_nat cs1 \<and> length cs1 = 5 \<and> sum_list cs1 = xw_rc_acc s2 \<and> sum_list cs1 < 2 ^ 64 \<and>
    xw_sub_acc s2 = xw_sub_acc s \<and> counts (xw_stats s2) = counts (xw_stats s) \<and>
    (\<forall>k<5. of_nat (cs1 ! k) = xw_rc s ! k + of_nat (replies (xw_area s) k (ring_contents (rx_ring s))))"
proof -
  obtain ds rx where d: "consume_rx (rx_ring s) = (ds, rx)" by fastforce
  have ds: "ds = ring_contents (rx_ring s)" using desc_fifo.pop_law [OF wf d] by simp
  have small: "length ds < 2 ^ 32" unfolding ds ring_contents_def read_slots_def using unat_u32_less by simp
  let ?s0 = "s\<lparr>xw_sock := (xw_sock s)\<lparr>xsk_rx := rx\<rparr>\<rparr>"
  obtain s1 m where a: "xdp_rx_all H c (xe_rx_ns e) 0 ds (?s0, 0) = Some (s1, m)"
    using r d ne ds by (auto simp: xdp_receive_def split: option.splits)
  from inv obtain cs where cs: "xw_rc ?s0 = map of_nat cs" "length cs = 5" "sum_list cs = xw_rc_acc ?s0"
    by (auto simp: rc_inv_def)
  from flood_rx_all [OF fh cs a] obtain cs1 where
    c1: "xw_rc s1 = map of_nat cs1" "length cs1 = 5" "sum_list cs1 = xw_rc_acc s1" "xw_sub_acc s1 = xw_sub_acc s"
      "counts (xw_stats s1) = counts (xw_stats s)" "xw_rc_acc s1 \<le> xw_rc_acc s + length ds"
      "\<forall>k<5. cs1 ! k = cs ! k + replies (xw_area s) k ds" by auto
  have b: "sum_list cs1 < 2 ^ 64" using c1(3,6) small inv by (simp add: rc_inv_def RC_FLUSH_def)
  define s2 where "s2 = s1\<lparr>xw_sock := (xw_sock s1)\<lparr>xsk_umem := (xsk_umem (xw_sock s1))
    \<lparr>fill := snd (enqueue_batch (fill_ring s1) (map d_addr ds))\<rparr>\<rparr>\<rparr>"
  have "s' = (if RC_FLUSH \<le> xw_rc_acc s2
      then s2\<lparr>xw_stats := rx_record (xw_rc s2) (xw_stats s2), xw_rc := replicate 5 0, xw_rc_acc := 0\<rparr> else s2)"
    using r d ne a fh ds by (auto simp: xdp_receive_def s2_def Let_def split: if_splits)
  moreover have "\<forall>k<5. of_nat (cs1 ! k) = xw_rc s ! k + of_nat (replies (xw_area s) k (ring_contents (rx_ring s)))"
    using c1(7) cs(1,2) ds by simp
  ultimately show ?thesis using c1 b by (intro exI [of _ s2] exI [of _ cs1]) (simp add: s2_def)
qed

lemma receive_counts:
  assumes fh: "wc_firehose c" and wf: "ring_wf (rx_ring s)" and inv: "rc_inv s" and k: "k < 5"
    and r: "xdp_receive H c e s = Some s'"
  shows "rc_inv s' \<and> total_sent s' = total_sent s \<and>
    total_class k s' = total_class k s + of_nat (replies (xw_area s) k (ring_contents (rx_ring s)))"
proof (cases "ring_contents (rx_ring s) = []")
  case True
  obtain ds rx where d: "consume_rx (rx_ring s) = (ds, rx)" by fastforce
  then have "ds = []" using desc_fifo.pop_law [OF wf d] True by simp
  then have "tallies s' = tallies s" using r d by (auto simp: xdp_receive_def tallies_def)
  from tallies_cong [OF this, of k] show ?thesis using inv True by (simp add: replies_def)
next
  case False
  from flood_receive_cases [OF fh wf inv r False] obtain s2 cs1 where
    s': "s' = (if RC_FLUSH \<le> xw_rc_acc s2
        then s2\<lparr>xw_stats := rx_record (xw_rc s2) (xw_stats s2), xw_rc := replicate 5 0, xw_rc_acc := 0\<rparr> else s2)"
    and c: "xw_rc s2 = map of_nat cs1" "length cs1 = 5" "sum_list cs1 = xw_rc_acc s2" "sum_list cs1 < 2 ^ 64"
      "xw_sub_acc s2 = xw_sub_acc s" "counts (xw_stats s2) = counts (xw_stats s)"
      "\<forall>k<5. of_nat (cs1 ! k) = xw_rc s ! k + of_nat (replies (xw_area s) k (ring_contents (rx_ring s)))" by blast
  note rec = rx_record_counts [OF c(2,4), where st = "xw_stats s2"]
  show ?thesis
  proof (cases "RC_FLUSH \<le> xw_rc_acc s2")
    case True
    then have "rc_inv s'" unfolding s' rc_inv_def
      by (auto simp: RC_FLUSH_def sum_list_replicate intro!: exI [of _ "replicate 5 0"])
    then show ?thesis using True rec(1) rec(3) [OF k] c k by (simp add: s' total_sent_def total_class_def counts_simps)
  next
    case False
    then have "rc_inv s'" using c(1-3) by (auto simp: s' rc_inv_def)
    then show ?thesis using False c k by (simp add: s' total_sent_def total_class_def counts_simps)
  qed
qed

lemma reclaim_rx: "rx_ring (xdp_reclaim s) = rx_ring s"
  by (simp add: xdp_reclaim_def Let_def split: prod.split)

lemma transmit_rx:
  assumes "xdp_transmit c e n s = Some s'"
  shows "rx_ring s' = rx_ring s"
proof (cases "n = 0")
  case True
  then show ?thesis using assms by (simp add: xdp_transmit_def)
next
  case False
  then obtain s1 ds ids where f: "tx_fill c (min n (length (free_pool s))) s [] [] = Some (s1, ds, ids)"
    using assms by (auto simp: xdp_transmit_def split: option.splits)
  then show ?thesis using assms False tx_fill_frames [OF f] by (auto simp: xdp_transmit_def Let_def split: if_splits prod.splits)
qed

lemma test_worker_ok:
  "new_with_vlan (Mac 0x00 0x11 0x22 0x33 0x44 0x55) (Mac 0xAA 0xBB 0xCC 0xDD 0xEE 0xFF)
     (Ipv4 10 8 0 2) (Ipv4 10 8 0 1) 12345 53 None = Some (wc_hdr test_worker)"
  "pool_fits (wc_pool test_worker)"
proof -
  show "new_with_vlan (Mac 0x00 0x11 0x22 0x33 0x44 0x55) (Mac 0xAA 0xBB 0xCC 0xDD 0xEE 0xFF)
     (Ipv4 10 8 0 2) (Ipv4 10 8 0 1) 12345 53 None = Some (wc_hdr test_worker)"
    by (simp add: test_worker_def test_header_def new_with_vlan_eq)
  have "from_pairs [(''a.com'', 1)] = Some (wc_pool test_worker)" by (simp add: test_worker_def from_pairs_def)
  then show "pool_fits (wc_pool test_worker)" by (rule pool_fitsI) simp
qed

lemma finish_counts:
  assumes "rc_inv s" and "k < 5"
  shows "sent (xw_stats (xdp_finish c ns s)) = total_sent s" "classes (xw_stats (xdp_finish c ns s)) ! k = total_class k s"
proof -
  obtain cs where cs: "xw_rc s = map of_nat cs" "length cs = 5" "sum_list cs = xw_rc_acc s" "xw_rc_acc s < 4096"
    using assms(1) by (auto simp: rc_inv_def RC_FLUSH_def)
  have b: "sum_list cs < 2 ^ 64" using cs by simp
  define st where "st = (if wc_id c = 0 then (inc_timeout ^^ fst (xdp_drain_all (xw_slots s))) (xw_stats s) else xw_stats s)"
  define st2 where "st2 = (if 0 < xw_sub_acc s then inc_sent_n ns (xw_sub_acc s) st else st)"
  have "counts st = counts (xw_stats s)" by (simp add: st_def)
  then have st2: "sent st2 = total_sent s" "classes st2 = classes (xw_stats s)"
    by (auto simp: st2_def total_sent_def counts_simps inc_sent_n_def classes_def)
  have z: "xw_rc_acc s = 0 \<Longrightarrow> cs ! k = 0" using cs(2,3) assms(2) member_le_sum_list [of "cs ! k" cs] by simp
  have "xw_stats (xdp_finish c ns s) = (if 0 < xw_rc_acc s then rx_record (xw_rc s) st2 else st2)"
    by (simp add: xdp_finish_def st_def st2_def Let_def split: prod.split)
  then show "sent (xw_stats (xdp_finish c ns s)) = total_sent s" "classes (xw_stats (xdp_finish c ns s)) ! k = total_class k s"
    using rx_record_counts [OF cs(2) b, where st = st2] st2 cs(1,2) z assms(2) by (auto simp: total_class_def)
qed

section \<open>Properties\<close>

text \<open>The id ranges of the workers are disjoint: the id of one worker's query equals the id of another query
  exactly when it is the same worker and the two counters agree modulo the worker's range. So a reply
  found by any worker in the shared table belongs to one sender.\<close>

theorem worker_ids_disjoint:
  assumes "wc_workers c = n" and "wc_workers c' = n" and "wc_id c < n" and "wc_id c' < n" and "n \<le> 65536"
  shows "worker_query_id c k = worker_query_id c' k' \<longleftrightarrow>
    wc_id c = wc_id c' \<and> k mod id_span n = k' mod id_span n"
proof -
  have s: "0 < id_span n" using id_span_bound [of n] assms by auto
  have "worker_query_id c k = worker_query_id c' k' \<longleftrightarrow>
      wc_id c * id_span n + k mod id_span n = wc_id c' * id_span n + k' mod id_span n"
    using unat_worker_query_id [of c k] unat_worker_query_id [of c' k'] assms by (simp add: word_unat_eq_iff)
  then show ?thesis using div_mod_unique [of "k mod id_span n" "id_span n" "k' mod id_span n"] s by auto
qed

theorem worker_ids_disjoint_witness:
  "worker_query_id (test_worker\<lparr>wc_workers := 12\<rparr>) 5461 = worker_query_id (test_worker\<lparr>wc_workers := 12\<rparr>) 0 \<and>
   worker_query_id (test_worker\<lparr>wc_workers := 12\<rparr>) 0 \<noteq> worker_query_id (test_worker\<lparr>wc_workers := 12, wc_id := 1\<rparr>) 0"
  using worker_ids_disjoint [of "test_worker\<lparr>wc_workers := 12\<rparr>" 12 "test_worker\<lparr>wc_workers := 12\<rparr>" 5461 0]
    worker_ids_disjoint [of "test_worker\<lparr>wc_workers := 12\<rparr>" 12 "test_worker\<lparr>wc_workers := 12, wc_id := 1\<rparr>" 0 0]
  by (simp add: test_worker_def id_span_def)

text \<open>C29: The token bucket is bounded: whatever the elapsed time and the rate, in binary64 arithmetic, at most
  64 queries are granted at once and the fraction carried over stays between 0 and 1.\<close>

theorem token_bucket_bounded:
  assumes "0 \<le> t"
  shows "\<exists>v n. refill (Fin t) elapsed qps = (Fin v, n) \<and> 0 \<le> v \<and> v \<le> 1 \<and> n \<le> TX_BATCH"
  using assms by (rule refill_bounds)

theorem token_bucket_bounded_witness:
  "\<exists>v n. refill (Fin 0) 1000000000 250000 = (Fin v, n) \<and> 0 \<le> v \<and> v \<le> 1 \<and> n \<le> TX_BATCH"
  using token_bucket_bounded [of 0 1000000000 250000] by simp

text \<open>C9: Flood mode counts exactly: an iteration adds to the queries sent the number of descriptors the transmit
  ring accepted, and to each response-code counter the number of replies of that class in the receive
  ring; the accumulators are part of the totals, and the final flush moves them into the collector.\<close>

theorem xdp_flood_counts_exactly:
  assumes "wc_firehose c" and "rings_wf (xw_sock s)" and "rc_inv s" and "k < 5" and "xdp_iter H c e s = Some s'"
  shows "rc_inv s' \<and>
    sent (xw_stats (xdp_finish c ns s')) =
      total_sent s + of_nat (length (ring_contents (tx_ring s')) - length (ring_contents (tx_ring s))) \<and>
    classes (xw_stats (xdp_finish c ns s')) ! k =
      total_class k s + of_nat (replies (xw_area s') k (ring_contents (rx_ring s)))"
proof -
  obtain h s1 where h: "xdp_headroom c e (snd (stall_check e (xdp_reclaim s))) = (h, s1)" by fastforce
  have k1: "xw_sock s1 = xw_sock (xdp_reclaim s)" "tallies s1 = tallies s"
    using quiet_steps(3) [of c e "snd (stall_check e (xdp_reclaim s))"]
      quiet_tallies(3) [of c e "snd (stall_check e (xdp_reclaim s))"] by (simp_all add: h quiet_tallies)
  note q = tallies_cong [OF k1(2), of k]
  have wf1: "rings_wf (xw_sock s1)" and r1: "tx_ring s1 = tx_ring s" "rx_ring s1 = rx_ring s"
    using reclaim_frames [OF assms(2)] reclaim_rx by (simp_all add: k1)
  from assms(5) h obtain s2 s3 where t: "xdp_transmit c e h s1 = Some s2" and r: "xdp_receive H c e s2 = Some s3"
    and s': "s' = xdp_timeouts c e s3"
    by (auto simp: xdp_iter_def split: option.splits prod.splits)
  have wf2: "ring_wf (rx_ring s2)" using transmit_frames [OF wf1 t] by (simp add: rings_wf_def)
  have rx2: "rx_ring s2 = rx_ring s" using transmit_rx [OF t] r1 by simp
  have t2: "total_sent s2 = total_sent s + of_nat (length (ring_contents (tx_ring s2)) - length (ring_contents (tx_ring s)))"
    "total_class k s2 = total_class k s" "rc_inv s2"
    using transmit_counts [OF _ t, of k] wf1 q assms(3) r1 by (simp_all add: rings_wf_def)
  note rc = receive_counts [OF assms(1) wf2 t2(3) assms(4) r] and ra = receive_area [OF r]
  note q3 = tallies_cong [OF quiet_tallies(4) [of c e s3], of k]
  show ?thesis
    using finish_counts [of s' k c ns] assms(4) rc ra t2 q3 rx2 by (simp add: s')
qed

theorem xdp_flood_counts_exactly_witness:
  "\<exists>sock s'. fst (create_xsk_socket all_ok {}) = Inr sock \<and>
     xdp_iter list_hist test_worker
       \<lparr>xe_stall_now = 0, xe_stall_done = 0, xe_qps = 0, xe_refill = 0, xe_ins_ns = (\<lambda>_. 1), xe_egress_ns = 1,
         xe_rx_ns = (\<lambda>_. 2), xe_now = 0, xe_sweep_ns = 3\<rparr>
       (xdp_worker_new test_worker 0 sock (replicate (16384 * 2048) 0) slots_new 0 (stats_new list_hist)) = Some s' \<and>
     sent (xw_stats (xdp_finish test_worker 9 s')) = of_nat (length (ring_contents (tx_ring s')))"
proof -
  obtain sock live where c: "create_xsk_socket all_ok {} = (Inr sock, live)" by (rule all_ok_socket)
  define s where "s = xdp_worker_new test_worker 0 sock (replicate (16384 * 2048) 0) slots_new 0 (stats_new list_hist)"
  let ?e = "\<lparr>xe_stall_now = 0, xe_stall_done = 0, xe_qps = 0, xe_refill = 0, xe_ins_ns = (\<lambda>_. 1), xe_egress_ns = 1,
         xe_rx_ns = (\<lambda>_. 2), xe_now = 0, xe_sweep_ns = 3\<rparr>"
  have l: "length (replicate (16384 * 2048) 0 :: bytes) = 16384 * 2048" by (rule length_replicate)
  have inv: "sys_inv \<lparr>sys = s, k_tx = [], k_rx = []\<rparr>"
    using system_new_inv [OF c l, of test_worker 0 slots_new 0 "stats_new list_hist"] by (simp add: xdp_system_new_def s_def)
  obtain s' where s': "xdp_iter list_hist test_worker ?e s = Some s'"
    using worker_iter_safe [OF test_worker_ok inv, of list_hist ?e] by auto
  have wf: "rings_wf (xw_sock s)" using inv by (simp add: sys_inv_def frames_inv_def)
  have rc: "rc_inv s" by (auto simp: s_def xdp_worker_new_def rc_inv_def RC_FLUSH_def sum_list_replicate
    intro!: exI [of _ "replicate 5 0"])
  have z: "total_sent s = 0" "ring_contents (tx_ring s) = []"
    using socket_frames(1) [OF c] by (simp_all add: s_def xdp_worker_new_def total_sent_def stats_new_def mapped_ring_empty)
  from xdp_flood_counts_exactly [OF _ wf rc _ s', of 0 9] z
  have "sent (xw_stats (xdp_finish test_worker 9 s')) = of_nat (length (ring_contents (tx_ring s')))"
    by (simp add: test_worker_def)
  then show ?thesis using c s' unfolding s_def by (metis fst_conv)
qed

end
