(* ===== verification/Xdp_Split.thy ===== *)
theory Xdp_Split
  imports Xdp_Frames Query_Sources
begin

text \<open>
  The split AF\_XDP path of \<^verbatim>\<open>src/transport/xdp/receiver.rs\<close>, used when no unified configuration is set: a
  receiver thread per queue (\<^verbatim>\<open>xdp_receiver_thread\<close>), and either sender threads on the AF\_XDP transmit ring
  (\<^verbatim>\<open>xdp_tx_sender_thread\<close>, \<^verbatim>\<open>xdp_tx_one\<close>, \<^verbatim>\<open>xdp_tx_batch_inline\<close>) or sender threads on a UDP socket
  (\<^verbatim>\<open>xdp_sender_thread\<close>). They share the in-flight table, the gate counter and the collector.
\<close>

section \<open>Shared state\<close>

record 'h split_shared =
  sp_slots :: slots
  sp_global :: u64
  sp_stats :: "'h stats"

record xdp_tx_state =
  xt_tx :: "xdp_desc ring"
  xt_comp :: "u64 ring"
  xt_pool :: "u64 list"
  xt_hdr :: frame_header
  xt_area :: bytes

section \<open>The receiver thread\<close>

record split_rx_env =
  sr_ns :: "nat \<Rightarrow> u64"
  sr_now :: nat
  sr_sweep_ns :: u64

record split_rx =
  sr_sock :: xsk_socket
  sr_area :: bytes
  sr_last_check :: nat
  sr_idle :: u32

text \<open>The sweep both branches of the loop end with.\<close>

definition split_sweep :: "u64 \<Rightarrow> split_rx_env \<Rightarrow> split_rx \<Rightarrow> 'h split_shared \<Rightarrow> split_rx \<times> 'h split_shared" where
  "split_sweep timeout_ns e r sh =
     (if 10000000 \<le> sr_now e - sr_last_check r then
        (case xdp_sweep_expired (sr_sweep_ns e) timeout_ns (sp_slots sh) of
           (expired, T) \<Rightarrow>
             let sh = sh\<lparr>sp_slots := T\<rparr>
             in (r\<lparr>sr_last_check := sr_now e\<rparr>,
                 if 0 < expired
                 then sh\<lparr>sp_stats := (inc_timeout ^^ expired) (sp_stats sh), sp_global := sat_sub (sp_global sh) (of_nat expired)\<rparr>
                 else sh))
      else (r, sh))"

definition split_rx_one ::
  "'h hist_ops \<Rightarrow> bytes \<Rightarrow> u64 \<Rightarrow> xdp_desc \<Rightarrow> 'h split_shared \<times> nat \<Rightarrow> ('h split_shared \<times> nat) option" where
  "split_rx_one H area now_ns d = (\<lambda>(sh, matched).
     case parse_dns_from_frame (frame_at area (d_addr d) (unat (d_len d))) of
       None \<Rightarrow> None
     | Some None \<Rightarrow> Some (sh, matched)
     | Some (Some (qid, rcode)) \<Rightarrow>
         (case xdp_take qid now_ns (sp_slots sh) of
            (Some rtt_us, T) \<Rightarrow>
              Some (sh\<lparr>sp_slots := T, sp_stats := record_response H rcode rtt_us (sp_stats sh)\<rparr>, matched + 1)
          | (None, T) \<Rightarrow> Some (sh\<lparr>sp_slots := T\<rparr>, matched)))"

fun split_rx_all ::
  "'h hist_ops \<Rightarrow> bytes \<Rightarrow> (nat \<Rightarrow> u64) \<Rightarrow> nat \<Rightarrow> xdp_desc list \<Rightarrow> 'h split_shared \<times> nat \<Rightarrow>
   ('h split_shared \<times> nat) option" where
  "split_rx_all H area clock i [] x = Some x"
| "split_rx_all H area clock i (d # ds) x =
     (case split_rx_one H area (clock i) d x of None \<Rightarrow> None | Some x \<Rightarrow> split_rx_all H area clock (Suc i) ds x)"

definition split_rx_iter ::
  "'h hist_ops \<Rightarrow> u64 \<Rightarrow> split_rx_env \<Rightarrow> split_rx \<Rightarrow> 'h split_shared \<Rightarrow> (split_rx \<times> 'h split_shared) option" where
  "split_rx_iter H timeout_ns e r sh =
     (case consume_rx (xsk_rx (sr_sock r)) of
        (ds, rx) \<Rightarrow>
          let r = r\<lparr>sr_sock := (sr_sock r)\<lparr>xsk_rx := rx\<rparr>\<rparr>
          in if ds = [] then
               let idle = sr_idle r + 1
               in Some (split_sweep timeout_ns e (r\<lparr>sr_idle := if 1024 \<le> idle then 0 else idle\<rparr>) sh)
             else
               (case split_rx_all H (sr_area r) (sr_ns e) 0 ds (sh, 0) of
                  None \<Rightarrow> None
                | Some (sh, matched) \<Rightarrow>
                    let u = xsk_umem (sr_sock r);
                        r = r\<lparr>sr_idle := 0,
                              sr_sock := (sr_sock r)\<lparr>xsk_umem := u\<lparr>fill := snd (enqueue_batch (fill u) (map d_addr ds))\<rparr>\<rparr>\<rparr>;
                        sh = (if 0 < matched then sh\<lparr>sp_global := sat_sub (sp_global sh) (of_nat matched)\<rparr> else sh)
                    in Some (split_sweep timeout_ns e r sh)))"

section \<open>The AF\_XDP transmit primitives\<close>

definition xdp_tx_one :: "xdp_tx_state \<Rightarrow> bytes \<Rightarrow> (bool \<times> xdp_tx_state) option" where
  "xdp_tx_one t dns =
     (if xt_pool t = [] then Some (False, t)
      else
        let addr = last (xt_pool t);
            t = t\<lparr>xt_pool := butlast (xt_pool t)\<rparr>
        in (case write_frame (xt_hdr t) (frame_at (xt_area t) addr (unat FRAME_SIZE)) dns of
              None \<Rightarrow> None
            | Some (frame_len, buf) \<Rightarrow>
                let t = t\<lparr>xt_area := put_frame addr buf (xt_area t)\<rparr>
                in (case produce_tx (xt_tx t) [\<lparr>d_addr = addr, d_len = of_nat frame_len, d_options = 0\<rparr>] of
                      (n, tx) \<Rightarrow>
                        let t = t\<lparr>xt_tx := tx\<rparr>
                        in Some (if n = 0 then (False, t\<lparr>xt_pool := xt_pool t @ [addr]\<rparr>) else (True, t)))))"

text \<open>Write a query into each popped frame: descriptors, ids, counters.\<close>

fun inline_fill ::
  "wire_query_pool \<Rightarrow> frame_header \<Rightarrow> u16 \<Rightarrow> nat \<Rightarrow> u64 list \<Rightarrow> nat \<Rightarrow> nat \<Rightarrow> bytes \<Rightarrow>
   (xdp_desc list \<times> u16 list \<times> nat \<times> nat \<times> bytes) option" where
  "inline_fill pool hdr base spn [] ctr tmpl area = Some ([], [], ctr, tmpl, area)"
| "inline_fill pool hdr base spn (addr # addrs) ctr tmpl area =
     (let qid = base + of_nat (ctr mod spn);
          buf = frame_at area addr (unat FRAME_SIZE)
      in (case write_with_index pool tmpl qid (drop (outer hdr) buf) of
            None \<Rightarrow> None
          | Some (dns_len, payload) \<Rightarrow>
              (case write_header hdr (take (outer hdr) buf @ payload) dns_len of
                 None \<Rightarrow> None
               | Some (frame_len, buf) \<Rightarrow>
                   (case inline_fill pool hdr base spn addrs (ctr + 1) (tmpl + 1) (put_frame addr buf area) of
                      None \<Rightarrow> None
                    | Some (ds, ids, rest) \<Rightarrow>
                        Some (\<lparr>d_addr = addr, d_len = of_nat frame_len, d_options = 0\<rparr> # ds, qid # ids, rest)))))"

record split_tx =
  sx_ctr :: nat
  sx_tmpl :: nat
  sx_buf :: bytes
  sx_local_sent :: nat
  sx_next_send :: nat
  sx_last_qps :: u64
  sx_interval :: nat

definition split_tx_new :: "nat \<Rightarrow> nat \<Rightarrow> split_tx" where
  "split_tx_new worker_id now =
     \<lparr>sx_ctr = 0, sx_tmpl = worker_id, sx_buf = replicate MAX_QUERY 0, sx_local_sent = 0, sx_next_send = now,
      sx_last_qps = 0, sx_interval = 0\<rparr>"

text \<open>\<^verbatim>\<open>xdp_tx_batch_inline\<close>: the number of descriptors placed and the ids written.\<close>

definition xdp_tx_batch_inline ::
  "wire_query_pool \<Rightarrow> u16 \<Rightarrow> nat \<Rightarrow> nat \<Rightarrow> split_tx \<Rightarrow> xdp_tx_state \<Rightarrow>
   (nat \<times> u16 list \<times> split_tx \<times> xdp_tx_state) option" where
  "xdp_tx_batch_inline pool base spn cnt w t =
     (let k = min cnt (length (xt_pool t));
          addrs = rev (drop (length (xt_pool t) - k) (xt_pool t));
          t = t\<lparr>xt_pool := take (length (xt_pool t) - k) (xt_pool t)\<rparr>
      in if addrs = [] then Some (0, [], w, t)
         else
           (case inline_fill pool (xt_hdr t) base spn addrs (sx_ctr w) (sx_tmpl w) (xt_area t) of
              None \<Rightarrow> None
            | Some (ds, ids, ctr, tmpl, area) \<Rightarrow>
                (case produce_tx (xt_tx t) ds of
                   (enq, tx) \<Rightarrow>
                     Some (enq, ids, w\<lparr>sx_ctr := ctr, sx_tmpl := tmpl\<rparr>,
                       t\<lparr>xt_area := area, xt_tx := tx,
                         xt_pool := if enq < length addrs then xt_pool t @ drop enq addrs else xt_pool t\<rparr>))))"

section \<open>The AF\_XDP sender thread\<close>

record split_tx_env =
  st_qps :: u64
  st_changed :: nat
  st_blocked :: nat
  st_now :: nat
  st_late :: nat
  st_shutdown :: bool
  st_ins_ns :: "nat \<Rightarrow> u64"
  st_egress_ns :: u64

text \<open>Counting is sharded: the collector and the gate are updated every 1024 sends.\<close>

definition split_flush :: "nat \<Rightarrow> split_tx_env \<Rightarrow> split_tx \<Rightarrow> 'h split_shared \<Rightarrow> split_tx \<times> 'h split_shared" where
  "split_flush max_out e w sh =
     (if FLUSH_N \<le> sx_local_sent w then
        (w\<lparr>sx_local_sent := 0\<rparr>,
         sh\<lparr>sp_stats := inc_sent_n (st_egress_ns e) (sx_local_sent w) (sp_stats sh),
            sp_global := if 0 < max_out then sp_global sh + of_nat (sx_local_sent w) else sp_global sh\<rparr>)
      else (w, sh))"

text \<open>One paced query. The result \<open>None\<close> of the inner option is the \<^verbatim>\<open>break\<close> on shutdown.\<close>

definition split_tx_paced ::
  "wire_query_pool \<Rightarrow> u16 \<Rightarrow> nat \<Rightarrow> nat \<Rightarrow> split_tx_env \<Rightarrow> split_tx \<times> xdp_tx_state \<times> 'h split_shared \<Rightarrow>
   (split_tx \<times> xdp_tx_state \<times> 'h split_shared) option option" where
  "split_tx_paced pool base spn max_out e = (\<lambda>(w, t, sh).
     let w = (if st_qps e \<noteq> sx_last_qps w
              then w\<lparr>sx_interval := pace_ns 1 (st_qps e), sx_next_send := st_changed e, sx_last_qps := st_qps e\<rparr>
              else w)
     in if 0 < max_out \<and> max_out \<le> unat (sp_global sh)
        then Some (Some (w\<lparr>sx_next_send := st_blocked e + sx_interval w\<rparr>, t, sh))
        else if st_now e < sx_next_send w \<and> st_shutdown e then Some None
        else
          let ns = sx_next_send w + sx_interval w;
              qid = base + of_nat (sx_ctr w mod spn);
              w = w\<lparr>sx_next_send := max ns (st_late e), sx_ctr := sx_ctr w + 1\<rparr>
          in (case write_with_index pool (sx_tmpl w) qid (sx_buf w) of
                None \<Rightarrow> None
              | Some (len, buf) \<Rightarrow>
                  let w = w\<lparr>sx_tmpl := sx_tmpl w + 1, sx_buf := buf\<rparr>
                  in (case xdp_tx_one t (take len buf) of
                        None \<Rightarrow> None
                      | Some (False, t) \<Rightarrow> Some (Some (w, t, sh))
                      | Some (True, t) \<Rightarrow>
                          let sh = sh\<lparr>sp_slots := xdp_insert qid (st_ins_ns e 0) (sp_slots sh)\<rparr>
                          in (case split_flush max_out e (w\<lparr>sx_local_sent := sx_local_sent w + 1\<rparr>) sh of
                                (w, sh) \<Rightarrow> Some (Some (w, t, sh))))))"

definition split_tx_burst ::
  "wire_query_pool \<Rightarrow> u16 \<Rightarrow> nat \<Rightarrow> nat \<Rightarrow> split_tx_env \<Rightarrow> split_tx \<times> xdp_tx_state \<times> 'h split_shared \<Rightarrow>
   (split_tx \<times> xdp_tx_state \<times> 'h split_shared) option" where
  "split_tx_burst pool base spn max_out e = (\<lambda>(w, t, sh).
     let cur = unat (sp_global sh)
     in if 0 < max_out \<and> max_out \<le> cur then Some (w\<lparr>sx_last_qps := 0\<rparr>, t, sh)
        else
          let headroom = (if 0 < max_out then min (max_out - cur) TX_BATCH else TX_BATCH)
          in (case xdp_tx_batch_inline pool base spn headroom w t of
                None \<Rightarrow> None
              | Some (enq, ids, w, t) \<Rightarrow>
                  (case (if 0 < enq then
                           split_flush max_out e (w\<lparr>sx_local_sent := sx_local_sent w + enq\<rparr>)
                             (sh\<lparr>sp_slots := insert_ids (st_ins_ns e) 0 (take enq ids) (sp_slots sh)\<rparr>)
                         else (w, sh)) of
                     (w, sh) \<Rightarrow> Some (w\<lparr>sx_last_qps := 0\<rparr>, t, sh))))"

definition split_tx_iter ::
  "wire_query_pool \<Rightarrow> u16 \<Rightarrow> nat \<Rightarrow> nat \<Rightarrow> split_tx_env \<Rightarrow> split_tx \<times> xdp_tx_state \<times> 'h split_shared \<Rightarrow>
   (split_tx \<times> xdp_tx_state \<times> 'h split_shared) option option" where
  "split_tx_iter pool base spn max_out e = (\<lambda>(w, t, sh).
     case dequeue_all (xt_comp t) of
       (done, cq) \<Rightarrow>
         let t = t\<lparr>xt_comp := cq, xt_pool := xt_pool t @ done\<rparr>
         in if 0 < st_qps e then split_tx_paced pool base spn max_out e (w, t, sh)
            else map_option Some (split_tx_burst pool base spn max_out e (w, t, sh)))"

definition split_tx_finish :: "nat \<Rightarrow> u64 \<Rightarrow> split_tx \<Rightarrow> 'h split_shared \<Rightarrow> 'h split_shared" where
  "split_tx_finish max_out egress_ns w sh =
     (if 0 < sx_local_sent w then
        sh\<lparr>sp_stats := inc_sent_n egress_ns (sx_local_sent w) (sp_stats sh),
           sp_global := if 0 < max_out then sp_global sh + of_nat (sx_local_sent w) else sp_global sh\<rparr>
      else sh)"

section \<open>The UDP sender thread\<close>

text \<open>
  \<^verbatim>\<open>xdp_sender_thread\<close> draws ids from the shared counter and queries from the query source, a parameter
  \<open>nxt\<close> of the model, since any implementation of the trait may be plugged in.
\<close>

record 'q udp_tx =
  ux_id :: u16
  ux_src :: 'q
  ux_next_send :: nat
  ux_last_qps :: u64
  ux_interval :: nat

record udp_tx_env =
  ue_qps :: u64
  ue_changed :: nat
  ue_blocked :: nat
  ue_now :: nat
  ue_late :: nat
  ue_shutdown :: bool
  ue_ret :: int
  ue_ins_ns :: "nat \<Rightarrow> u64"
  ue_egress_ns :: u64

fun build_batch ::
  "('q \<Rightarrow> (query_entry \<times> 'q) option) \<Rightarrow> nat \<Rightarrow> u16 \<Rightarrow> 'q \<Rightarrow> ((u16 \<times> bytes) list \<times> u16 \<times> 'q) option" where
  "build_batch nxt 0 qid src = Some ([], qid, src)"
| "build_batch nxt (Suc n) qid src =
     (case nxt src of
        None \<Rightarrow> None
      | Some (q, src) \<Rightarrow>
          (case build_batch nxt n (qid + 1) src of
             None \<Rightarrow> None
           | Some (qs, rest) \<Rightarrow> Some ((qid, build_query qid (qe_name q) (qe_qtype q)) # qs, rest)))"

definition xdp_udp_paced ::
  "('q \<Rightarrow> (query_entry \<times> 'q) option) \<Rightarrow> nat \<Rightarrow> udp_tx_env \<Rightarrow> 'q udp_tx \<times> 'h split_shared \<Rightarrow>
   ('q udp_tx \<times> 'h split_shared) option option" where
  "xdp_udp_paced nxt max_out e = (\<lambda>(w, sh).
     let w = (if ue_qps e \<noteq> ux_last_qps w
              then w\<lparr>ux_interval := pace_ns 1 (ue_qps e), ux_next_send := ue_changed e, ux_last_qps := ue_qps e\<rparr>
              else w)
     in if 0 < max_out \<and> max_out \<le> unat (sp_global sh)
        then Some (Some (w\<lparr>ux_next_send := ue_blocked e + ux_interval w\<rparr>, sh))
        else if ue_now e < ux_next_send w \<and> ue_shutdown e then Some None
        else
          let w = w\<lparr>ux_next_send := max (ux_next_send w + ux_interval w) (ue_late e)\<rparr>
          in (case build_batch nxt 1 (ux_id w) (ux_src w) of
                None \<Rightarrow> None
              | Some (qs, qid, src) \<Rightarrow>
                  let w = w\<lparr>ux_id := qid, ux_src := src\<rparr>
                  in Some (Some (w,
                       if 0 \<le> ue_ret e
                       then sh\<lparr>sp_slots := insert_ids (ue_ins_ns e) 0 (map fst qs) (sp_slots sh),
                               sp_global := sp_global sh + 1,
                               sp_stats := inc_sent (sp_stats sh)\<rparr>
                       else sh\<lparr>sp_stats := inc_error (sp_stats sh)\<rparr>))))"

definition xdp_udp_burst ::
  "('q \<Rightarrow> (query_entry \<times> 'q) option) \<Rightarrow> nat \<Rightarrow> udp_tx_env \<Rightarrow> 'q udp_tx \<times> 'h split_shared \<Rightarrow>
   ('q udp_tx \<times> 'h split_shared) option" where
  "xdp_udp_burst nxt max_out e = (\<lambda>(w, sh).
     let cur = unat (sp_global sh)
     in if 0 < max_out \<and> max_out \<le> cur then Some (w\<lparr>ux_last_qps := 0\<rparr>, sh)
        else
          let headroom = (if 0 < max_out then min (max_out - cur) 64 else 64)
          in (case build_batch nxt headroom (ux_id w) (ux_src w) of
                None \<Rightarrow> None
              | Some (qs, qid, src) \<Rightarrow>
                  let w = w\<lparr>ux_id := qid, ux_src := src, ux_last_qps := 0\<rparr>;
                      n = (if ue_ret e < 0 then 0 else nat (ue_ret e))
                  in Some (w,
                       if 0 < n
                       then sh\<lparr>sp_slots := insert_ids (ue_ins_ns e) 0 (take n (map fst qs)) (sp_slots sh),
                               sp_global := sp_global sh + of_nat n,
                               sp_stats := inc_sent_n (ue_egress_ns e) n (sp_stats sh)\<rparr>
                       else sh)))"

definition xdp_udp_iter ::
  "('q \<Rightarrow> (query_entry \<times> 'q) option) \<Rightarrow> nat \<Rightarrow> udp_tx_env \<Rightarrow> 'q udp_tx \<times> 'h split_shared \<Rightarrow>
   ('q udp_tx \<times> 'h split_shared) option option" where
  "xdp_udp_iter nxt max_out e x =
     (if 0 < ue_qps e then xdp_udp_paced nxt max_out e x else map_option Some (xdp_udp_burst nxt max_out e x))"

section \<open>What the receiver gives back\<close>

text \<open>
  The receiver frees slots and returns the same number of positions to the gate, saturating at zero.
\<close>

definition credits :: "'h split_shared \<Rightarrow> 'h split_shared \<Rightarrow> nat \<Rightarrow> bool" where
  "credits sh sh' k \<longleftrightarrow> occupied (sp_slots sh) = occupied (sp_slots sh') + k \<and>
     length (sp_slots sh') = length (sp_slots sh) \<and> sent (sp_stats sh') = sent (sp_stats sh)"

lemma credits_refl: "credits sh sh 0"
  by (simp add: credits_def)

lemma credits_trans: "credits a b j \<Longrightarrow> credits b c k \<Longrightarrow> credits a c (j + k)"
  by (simp add: credits_def)

lemma take_occupied:
  assumes "slots_wf T" "xdp_take qid now T = (r, T')"
  shows "length T' = length T \<and> occupied T = occupied T' + (if r = None then 0 else 1)"
proof -
  have i: "unat qid < length T" using assms(1) unat_u16_less [of qid] by (simp add: slots_wf_def)
  show ?thesis
  proof (cases "T ! unat qid = 0")
    case True
    then have "T[unat qid := 0] = T" by (metis list_update_id)
    then show ?thesis using assms(2) True by (auto simp: xdp_take_def Let_def)
  next
    case False
    then show ?thesis using assms(2) occupied_clear [OF i False] by (auto simp: xdp_take_def Let_def)
  qed
qed

lemma sweep_occupied:
  "xdp_sweep_expired now to T = (n, T') \<Longrightarrow> length T' = length T \<and> occupied T = occupied T' + n"
proof -
  have "length (filter P T) + occupied (map (\<lambda>v. if P v then 0 else v) T) = occupied T"
    if "\<And>v. P v \<Longrightarrow> v \<noteq> 0" for P :: "u64 \<Rightarrow> bool"
    using that unfolding occupied_def by (induction T) auto
  from this [of "\<lambda>v. v \<noteq> 0 \<and> to < sat_sub now v"]
  show "xdp_sweep_expired now to T = (n, T') \<Longrightarrow> length T' = length T \<and> occupied T = occupied T' + n"
    by (auto simp: xdp_sweep_expired_def)
qed

lemma sent_timeouts: "sent ((inc_timeout ^^ n) s) = sent s"
  by (induction n) (simp_all add: inc_timeout_def)

lemma split_rx_one_credits:
  assumes "slots_wf (sp_slots sh)" "split_rx_one H area now d (sh, m) = Some (sh', m')"
  shows "m \<le> m' \<and> credits sh sh' (m' - m) \<and> sp_global sh' = sp_global sh"
  using assms take_occupied [OF assms(1)]
  by (fastforce simp: split_rx_one_def credits_def record_response_def Let_def split: option.splits prod.splits)

lemma split_rx_all_credits:
  "slots_wf (sp_slots sh) \<Longrightarrow> split_rx_all H area clock i ds (sh, m) = Some (sh', m') \<Longrightarrow>
     m \<le> m' \<and> credits sh sh' (m' - m) \<and> sp_global sh' = sp_global sh"
proof (induction ds arbitrary: i sh m)
  case (Cons d ds)
  then obtain sh1 m1 where one: "split_rx_one H area (clock i) d (sh, m) = Some (sh1, m1)"
    and rest: "split_rx_all H area clock (Suc i) ds (sh1, m1) = Some (sh', m')"
    by (auto split: option.splits)
  note a = split_rx_one_credits [OF Cons.prems(1) one]
  have "slots_wf (sp_slots sh1)" using a Cons.prems(1) by (simp add: credits_def slots_wf_def)
  from Cons.IH [OF this rest] a show ?case
    using credits_trans [of sh sh1 "m1 - m" sh' "m' - m1"] by auto
qed (simp add: credits_refl)

lemma split_sweep_credits:
  "split_sweep to e r sh = (r', sh') \<Longrightarrow> \<exists>k. credits sh sh' k \<and> sp_global sh' = sat_sub (sp_global sh) (of_nat k)"
proof (cases "10000000 \<le> sr_now e - sr_last_check r")
  case True
  obtain n T where sw: "xdp_sweep_expired (sr_sweep_ns e) to (sp_slots sh) = (n, T)" by fastforce
  note c = sweep_occupied [OF sw]
  assume "split_sweep to e r sh = (r', sh')"
  then have "credits sh sh' n \<and> sp_global sh' = sat_sub (sp_global sh) (of_nat n)"
    using True sw c by (auto simp: split_sweep_def credits_def sent_timeouts sat_sub_def Let_def split: if_splits)
  then show ?thesis by blast
next
  case False
  assume "split_sweep to e r sh = (r', sh')"
  then have "sh' = sh" using False by (simp add: split_sweep_def)
  then show ?thesis by (intro exI [of _ 0]) (simp add: credits_refl sat_sub_def)
qed

lemma occupied_le: "occupied T \<le> length T"
  by (simp add: occupied_def)

text \<open>Over a whole iteration the gate loses no more positions than slots were freed.\<close>

lemma split_rx_iter_credits:
  assumes wf: "slots_wf (sp_slots sh)" and it: "split_rx_iter H to e r sh = Some (r', sh')"
  shows "\<exists>k. credits sh sh' k \<and> unat (sp_global sh) \<le> unat (sp_global sh') + k"
proof -
  obtain ds rx where d: "consume_rx (xsk_rx (sr_sock r)) = (ds, rx)" by fastforce
  show ?thesis
  proof (cases "ds = []")
    case True
    then obtain r1 where "split_sweep to e r1 sh = (r', sh')" using it d by (auto simp: split_rx_iter_def Let_def)
    then obtain k where k: "credits sh sh' k" "sp_global sh' = sat_sub (sp_global sh) (of_nat k)"
      using split_sweep_credits by blast
    then have "unat (of_nat k :: u64) \<le> k" by (metis order_refl unat_of_nat mod_less_eq_dividend)
    with k show ?thesis by (intro exI [of _ k]) simp
  next
    case False
    then obtain sh1 m r1 where a: "split_rx_all H (sr_area r) (sr_ns e) 0 ds (sh, 0) = Some (sh1, m)"
      and sw: "split_sweep to e r1 (if 0 < m then sh1\<lparr>sp_global := sat_sub (sp_global sh1) (of_nat m)\<rparr> else sh1) = (r', sh')"
      using it d by (auto simp: split_rx_iter_def Let_def split: option.splits)
    let ?sh2 = "if 0 < m then sh1\<lparr>sp_global := sat_sub (sp_global sh1) (of_nat m)\<rparr> else sh1"
    note f = split_rx_all_credits [OF wf a]
    have 2: "credits sh ?sh2 m" "sp_global ?sh2 = sat_sub (sp_global sh) (of_nat m)"
      using f by (auto simp: credits_def sat_sub_def)
    obtain k where k: "credits ?sh2 sh' k" "sp_global sh' = sat_sub (sp_global ?sh2) (of_nat k)"
      using split_sweep_credits [OF sw] by blast
    have le: "unat (of_nat n :: u64) \<le> n" for n by (metis unat_of_nat mod_less_eq_dividend)
    have "unat (sp_global sh) \<le> unat (sp_global sh') + (m + k)"
      using le [of m] le [of k] unfolding k(2) 2(2) by simp
    then show ?thesis using credits_trans [OF 2(1) k(1)] by blast
  qed
qed

section \<open>Sender, receiver and kernel together\<close>

record 'h split_system =
  ss_tx :: split_tx
  ss_state :: xdp_tx_state
  ss_rx :: split_rx
  ss_shared :: "'h split_shared"

text \<open>
  The threads interleave by iteration, and the kernel may change the rings and the shared memory
  in any way at any time.
\<close>

inductive split_step ::
  "'h hist_ops \<Rightarrow> wire_query_pool \<Rightarrow> u16 \<Rightarrow> nat \<Rightarrow> nat \<Rightarrow> u64 \<Rightarrow> 'h split_system \<Rightarrow> 'h split_system \<Rightarrow> bool"
  for H pool base spn max_out to where
  split_send: "split_tx_iter pool base spn max_out e (ss_tx S, ss_state S, ss_shared S) = Some (Some (w, t, sh)) \<Longrightarrow>
     split_step H pool base spn max_out to S (S\<lparr>ss_tx := w, ss_state := t, ss_shared := sh\<rparr>)"
| split_receive: "split_rx_iter H to e (ss_rx S) (ss_shared S) = Some (r, sh) \<Longrightarrow>
     split_step H pool base spn max_out to S (S\<lparr>ss_rx := r, ss_shared := sh\<rparr>)"
| split_kernel: "split_step H pool base spn max_out to S
     (S\<lparr>ss_state := (ss_state S)\<lparr>xt_tx := tx, xt_comp := cq, xt_area := area\<rparr>,
        ss_rx := (ss_rx S)\<lparr>sr_sock := k, sr_area := area\<rparr>\<rparr>)"

abbreviation split_steps ::
  "'h hist_ops \<Rightarrow> wire_query_pool \<Rightarrow> u16 \<Rightarrow> nat \<Rightarrow> nat \<Rightarrow> u64 \<Rightarrow> 'h split_system \<Rightarrow> 'h split_system \<Rightarrow> bool" where
  "split_steps H pool base spn max_out to \<equiv> (split_step H pool base spn max_out to)\<^sup>*\<^sup>*"

text \<open>The gate holds more positions than can ever be returned.\<close>

definition wedged :: "nat \<Rightarrow> 'h split_system \<Rightarrow> bool" where
  "wedged max_out S \<longleftrightarrow> 0 < max_out \<and> slots_wf (sp_slots (ss_shared S)) \<and>
     max_out + occupied (sp_slots (ss_shared S)) \<le> unat (sp_global (ss_shared S))"

lemma closed_gate_sends_nothing:
  assumes "0 < max_out" "max_out \<le> unat (sp_global sh)" "split_tx_iter pool base spn max_out e (w, t, sh) = Some (Some (w', t', sh'))"
  shows "sh' = sh \<and> sx_ctr w' = sx_ctr w \<and> sx_local_sent w' = sx_local_sent w \<and> xt_tx t' = xt_tx t"
  using assms
  by (auto simp: split_tx_iter_def split_tx_paced_def split_tx_burst_def Let_def split: if_splits prod.splits)

lemma wedged_step:
  assumes "split_step H pool base spn max_out to S S'" "wedged max_out S"
  shows "wedged max_out S' \<and> sx_ctr (ss_tx S') = sx_ctr (ss_tx S) \<and>
    sent (sp_stats (ss_shared S')) = sent (sp_stats (ss_shared S))"
  using assms
proof (cases rule: split_step.cases)
  case (split_send e w t sh)
  have "0 < max_out" "max_out \<le> unat (sp_global (ss_shared S))" using assms(2) by (simp_all add: wedged_def)
  from closed_gate_sends_nothing [OF this split_send(2)] show ?thesis
    using assms(2) split_send(1) by (simp add: wedged_def)
next
  case (split_receive e r sh)
  obtain k where "credits (ss_shared S) sh k" "unat (sp_global (ss_shared S)) \<le> unat (sp_global sh) + k"
    using split_rx_iter_credits [OF _ split_receive(2)] assms(2) unfolding wedged_def by blast
  then show ?thesis using assms(2) split_receive(1) by (auto simp: wedged_def credits_def slots_wf_def)
next
  case split_kernel
  then show ?thesis using assms(2) by (simp add: wedged_def)
qed

lemma wedged_forever:
  assumes "split_steps H pool base spn max_out to S S'" "wedged max_out S"
  shows "wedged max_out S' \<and> sx_ctr (ss_tx S') = sx_ctr (ss_tx S) \<and>
    sent (sp_stats (ss_shared S')) = sent (sp_stats (ss_shared S))"
  using assms by (induction rule: rtranclp_induct) (simp, metis wedged_step)

lemma flush_wedges:
  assumes "0 < max_out" "slots_wf (sp_slots sh)" "FLUSH_N \<le> sx_local_sent w"
    and "max_out + occupied (sp_slots sh) \<le> sx_local_sent w"
    and "unat (sp_global sh) + sx_local_sent w < 2 ^ 64" "split_flush max_out e w sh = (w', sh')"
  shows "slots_wf (sp_slots sh') \<and> max_out + occupied (sp_slots sh') \<le> unat (sp_global sh')"
proof -
  have sh': "sp_slots sh' = sp_slots sh" "sp_global sh' = sp_global sh + of_nat (sx_local_sent w)"
    using assms by (auto simp: split_flush_def)
  have "unat (of_nat (sx_local_sent w) :: u64) = sx_local_sent w" using assms(5) by (simp add: unat_of_nat)
  then have "unat (sp_global sh') = unat (sp_global sh) + sx_local_sent w"
    using assms(5) unfolding sh'(2) by (simp add: unat_word_ariths)
  then show ?thesis using assms by (simp add: sh'(1))
qed

section \<open>Frames and counts of the transmit path\<close>

definition xt_frames :: "xdp_tx_state \<Rightarrow> u64 multiset" where
  "xt_frames t = mset (xt_pool t) + mset (map d_addr (ring_contents (xt_tx t))) + mset (ring_contents (xt_comp t))"

definition split_sent :: "split_tx \<Rightarrow> 'h split_shared \<Rightarrow> u64" where
  "split_sent w sh = sent (sp_stats sh) + of_nat (sx_local_sent w)"

text \<open>\<open>n\<close> descriptors were appended to the transmit ring and no frame was lost or invented.\<close>

definition placed :: "xdp_tx_state \<Rightarrow> nat \<Rightarrow> xdp_tx_state \<Rightarrow> bool" where
  "placed t n t' \<longleftrightarrow> ring_wf (xt_tx t') \<and> ring_wf (xt_comp t') \<and> xt_frames t' = xt_frames t \<and> xt_hdr t' = xt_hdr t \<and>
     (\<exists>ds. length ds = n \<and> ring_contents (xt_tx t') = ring_contents (xt_tx t) @ ds)"

lemma placed_refl: "ring_wf (xt_tx t) \<Longrightarrow> ring_wf (xt_comp t) \<Longrightarrow> placed t 0 t"
  by (simp add: placed_def)

lemma mset_last_butlast: "xs \<noteq> [] \<Longrightarrow> mset xs = add_mset (last xs) (mset (butlast xs))"
  by (metis append_butlast_last_id mset_append mset.simps add_mset_add_single)

lemma tx_one_placed:
  assumes wf: "ring_wf (xt_tx t)" "ring_wf (xt_comp t)" and t: "xdp_tx_one t dns = Some (ok, t')"
  shows "placed t (if ok then 1 else 0) t'"
proof (cases "xt_pool t = []")
  case True
  then show ?thesis using t wf by (auto simp: xdp_tx_one_def placed_refl)
next
  case False
  let ?a = "last (xt_pool t)"
  note m = mset_last_butlast [OF False]
  obtain len buf where f: "write_frame (xt_hdr t) (frame_at (xt_area t) ?a (unat FRAME_SIZE)) dns = Some (len, buf)"
    using t False by (auto simp: xdp_tx_one_def Let_def split: option.splits)
  let ?d = "\<lparr>d_addr = ?a, d_len = of_nat len, d_options = 0\<rparr>"
  obtain n tx where p: "produce_tx (xt_tx t) [?d] = (n, tx)" by fastforce
  note law = desc_fifo.push_law [OF wf(1) p]
  show ?thesis
  proof (cases "n = 0")
    case True
    then show ?thesis using t False f p law wf m by (auto simp: xdp_tx_one_def placed_def xt_frames_def Let_def)
  next
    case n: False
    then have "n = 1" using law by simp
    then show ?thesis using t False f p law wf m by (auto simp: xdp_tx_one_def placed_def xt_frames_def Let_def)
  qed
qed

lemma inline_fill_addrs:
  "inline_fill pool hdr base spn addrs ctr tmpl area = Some (ds, ids, rest) \<Longrightarrow>
     map d_addr ds = addrs \<and> length ids = length addrs"
proof (induction addrs arbitrary: ctr tmpl area ds ids rest)
  case (Cons a addrs)
  then show ?case by (fastforce simp: Let_def split: option.splits prod.splits)
qed simp

lemma batch_inline_placed:
  assumes wf: "ring_wf (xt_tx t)" "ring_wf (xt_comp t)"
    and t: "xdp_tx_batch_inline pool base spn cnt w t = Some (n, ids, w', t')"
  shows "placed t n t' \<and> sx_local_sent w' = sx_local_sent w"
proof -
  let ?k = "min cnt (length (xt_pool t))" and ?p = "xt_pool t"
  let ?addrs = "rev (drop (length ?p - ?k) ?p)" and ?keep = "take (length ?p - ?k) ?p"
  have m: "mset ?p = mset ?keep + mset ?addrs" by (metis append_take_drop_id mset_append mset_rev)
  show ?thesis
  proof (cases "?addrs = []")
    case True
    then have "?keep = ?p" by (metis append_take_drop_id append_Nil2 rev_is_Nil_conv)
    then show ?thesis using t True wf by (auto simp: xdp_tx_batch_inline_def Let_def placed_def xt_frames_def)
  next
    case False
    then obtain ds ids' ctr tmpl area where
      f: "inline_fill pool (xt_hdr t) base spn ?addrs (sx_ctr w) (sx_tmpl w) (xt_area t) = Some (ds, ids', ctr, tmpl, area)"
      using t by (auto simp: xdp_tx_batch_inline_def Let_def split: option.splits)
    note ds = inline_fill_addrs [OF f]
    obtain enq tx where p: "produce_tx (xt_tx t) ds = (enq, tx)" by fastforce
    note law = desc_fifo.push_law [OF wf(1) p]
    have len: "length ds = length ?addrs" using ds by (metis length_map)
    have a: "mset ?addrs = mset (map d_addr (take enq ds)) + mset (drop enq ?addrs)"
      by (metis append_take_drop_id ds map_append mset_append take_map drop_map)
    have r: "n = enq" "w' = w\<lparr>sx_ctr := ctr, sx_tmpl := tmpl\<rparr>"
      "t' = t\<lparr>xt_area := area, xt_tx := tx, xt_pool := if enq < length ?addrs then ?keep @ drop enq ?addrs else ?keep\<rparr>"
      using t False f p by (auto simp: xdp_tx_batch_inline_def Let_def)
    have pool: "mset (xt_pool t') = mset ?keep + mset (drop enq ?addrs)"
      unfolding r(3) by (cases "enq < length ?addrs") (simp_all del: length_rev length_drop)
    have "xt_frames t' = xt_frames t"
      unfolding xt_frames_def pool m a using r(3) law by (simp add: ac_simps)
    then show ?thesis using r law wf by (auto simp: placed_def intro!: exI [of _ "take enq ds"])
  qed
qed

lemma flush_counts: "split_flush max_out e w sh = (w', sh') \<Longrightarrow> split_sent w' sh' = split_sent w sh"
  by (auto simp: split_flush_def split_sent_def inc_sent_n_def algebra_simps split: if_splits)

lemma paced_placed:
  assumes wf: "ring_wf (xt_tx t)" "ring_wf (xt_comp t)"
    and it: "split_tx_paced pool base spn max_out e (w, t, sh) = Some (Some (w', t', sh'))"
  shows "\<exists>n. placed t n t' \<and> split_sent w' sh' = split_sent w sh + of_nat n"
proof -
  let ?w = "if st_qps e \<noteq> sx_last_qps w
    then w\<lparr>sx_interval := pace_ns 1 (st_qps e), sx_next_send := st_changed e, sx_last_qps := st_qps e\<rparr> else w"
  have l: "sx_local_sent ?w = sx_local_sent w" by simp
  show ?thesis
  proof (cases "0 < max_out \<and> max_out \<le> unat (sp_global sh)")
    case True
    then have "sx_local_sent w' = sx_local_sent w" "t' = t" "sh' = sh"
      using it by (auto simp: split_tx_paced_def Let_def)
    then show ?thesis using placed_refl [OF wf] by (intro exI [of _ 0]) (simp add: split_sent_def)
  next
    case False
    let ?qid = "base + of_nat (sx_ctr ?w mod spn)"
    let ?w1 = "?w\<lparr>sx_next_send := max (sx_next_send ?w + sx_interval ?w) (st_late e), sx_ctr := sx_ctr ?w + 1\<rparr>"
    from False it obtain len buf where q: "write_with_index pool (sx_tmpl ?w1) ?qid (sx_buf ?w1) = Some (len, buf)"
      unfolding split_tx_paced_def Let_def prod.case by (auto split: if_splits option.splits)
    from False it q obtain ok t1 where one: "xdp_tx_one t (take len buf) = Some (ok, t1)"
      unfolding split_tx_paced_def Let_def prod.case by (cases "xdp_tx_one t (take len buf)") (auto split: if_splits)
    define w1 where "w1 = ?w1\<lparr>sx_tmpl := sx_tmpl ?w1 + 1, sx_buf := buf\<rparr>"
    have w1: "sx_local_sent w1 = sx_local_sent w" by (simp add: w1_def)
    have res: "if ok then split_flush max_out e (w1\<lparr>sx_local_sent := sx_local_sent w1 + 1\<rparr>)
                     (sh\<lparr>sp_slots := xdp_insert ?qid (st_ins_ns e 0) (sp_slots sh)\<rparr>) = (w', sh') \<and> t' = t1
                else w' = w1 \<and> t' = t1 \<and> sh' = sh"
      using it one unfolding split_tx_paced_def Let_def prod.case q option.case w1_def [symmetric]
      by (cases ok) (simp_all add: False split: if_splits prod.splits)
    have "split_sent w' sh' = split_sent w sh + of_nat (if ok then 1 else 0)"
      using res w1 by (auto dest!: flush_counts simp: split_sent_def split: if_splits)
    then show ?thesis using tx_one_placed [OF wf one] res by (intro exI [of _ "if ok then 1 else 0"]) (auto split: if_splits)
  qed
qed

lemma burst_placed:
  assumes wf: "ring_wf (xt_tx t)" "ring_wf (xt_comp t)"
    and it: "split_tx_burst pool base spn max_out e (w, t, sh) = Some (w', t', sh')"
  shows "\<exists>n. placed t n t' \<and> split_sent w' sh' = split_sent w sh + of_nat n"
proof (cases "0 < max_out \<and> max_out \<le> unat (sp_global sh)")
  case True
  then have "sx_local_sent w' = sx_local_sent w" "t' = t" "sh' = sh"
    using it by (auto simp: split_tx_burst_def Let_def)
  then show ?thesis using placed_refl [OF wf] by (intro exI [of _ 0]) (simp add: split_sent_def)
next
  case False
  let ?h = "if 0 < max_out then min (max_out - unat (sp_global sh)) TX_BATCH else TX_BATCH"
  from False it obtain n ids w1 where b: "xdp_tx_batch_inline pool base spn ?h w t = Some (n, ids, w1, t')"
    unfolding split_tx_burst_def Let_def prod.case by (auto split: if_splits option.splits prod.splits)
  obtain w2 sh2 where res: "(if 0 < n then split_flush max_out e (w1\<lparr>sx_local_sent := sx_local_sent w1 + n\<rparr>)
                 (sh\<lparr>sp_slots := insert_ids (st_ins_ns e) 0 (take n ids) (sp_slots sh)\<rparr>) else (w1, sh)) = (w2, sh2)"
    by fastforce
  have w': "w' = w2\<lparr>sx_last_qps := 0\<rparr>" "sh' = sh2"
    using it False unfolding split_tx_burst_def Let_def prod.case b option.case res by auto
  note p = batch_inline_placed [OF wf b]
  have "split_sent w' sh' = split_sent w sh + of_nat n"
    using res p w' by (auto dest!: flush_counts simp: split_sent_def split: if_splits)
  then show ?thesis using p by blast
qed

lemma split_tx_iter_placed:
  assumes wf: "ring_wf (xt_tx t)" "ring_wf (xt_comp t)"
    and it: "split_tx_iter pool base spn max_out e (w, t, sh) = Some (Some (w', t', sh'))"
  shows "\<exists>n. placed t n t' \<and> split_sent w' sh' = split_sent w sh + of_nat n"
proof -
  obtain out cq where d: "dequeue_all (xt_comp t) = (out, cq)" by fastforce
  note law = addr_fifo.pop_law [OF wf(2) d]
  let ?t = "t\<lparr>xt_comp := cq, xt_pool := xt_pool t @ out\<rparr>"
  have wf1: "ring_wf (xt_tx ?t)" "ring_wf (xt_comp ?t)" using wf law by simp_all
  have same: "xt_frames ?t = xt_frames t" using law by (simp add: xt_frames_def)
  have "split_tx_paced pool base spn max_out e (w, ?t, sh) = Some (Some (w', t', sh')) \<or>
      split_tx_burst pool base spn max_out e (w, ?t, sh) = Some (w', t', sh')"
    using it d by (auto simp: split_tx_iter_def Let_def split: if_splits)
  then have "\<exists>n. placed ?t n t' \<and> split_sent w' sh' = split_sent w sh + of_nat n"
    by (elim disjE paced_placed [OF wf1] burst_placed [OF wf1])
  then obtain n where "placed ?t n t'" "split_sent w' sh' = split_sent w sh + of_nat n" by blast
  then show ?thesis using same by (intro exI [of _ n]) (simp add: placed_def)
qed

section \<open>Properties\<close>

text \<open>C21: The split path counts what it puts on the wire: an iteration of the AF\_XDP sender, paced or
  unlimited, appends some descriptors to the transmit ring, and the counted sends (the collector plus
  the thread's own shard) grow by exactly their number; the frames of the queue (free, on the transmit
  ring, on the completion ring) stay the same multiset, so no frame is lost when the ring is full.\<close>

theorem split_sender_conserves:
  assumes "ring_wf (xt_tx t)" "ring_wf (xt_comp t)"
    and "split_tx_iter pool base spn max_out e (w, t, sh) = Some (Some (w', t', sh'))"
  shows "\<exists>ds. ring_contents (xt_tx t') = ring_contents (xt_tx t) @ ds \<and>
    split_sent w' sh' = split_sent w sh + of_nat (length ds) \<and> xt_frames t' = xt_frames t \<and>
    ring_wf (xt_tx t') \<and> ring_wf (xt_comp t')"
proof -
  obtain n where n: "placed t n t'" "split_sent w' sh' = split_sent w sh + of_nat n"
    using split_tx_iter_placed [OF assms] by blast
  then obtain ds where "length ds = n" "ring_contents (xt_tx t') = ring_contents (xt_tx t) @ ds"
    unfolding placed_def by blast
  with n show ?thesis unfolding placed_def by blast
qed

text \<open>A queue with one free frame and rings of one entry.\<close>

definition one_ring :: "'a \<Rightarrow> 'a ring" where
  "one_ring x = \<lparr>producer = 0, consumer = 0, ring_flags = 0, descs = [x], ring_size = 1, ring_mask = 0\<rparr>"

definition test_tx :: xdp_tx_state where
  "test_tx =
     \<lparr>xt_tx = one_ring \<lparr>d_addr = 0, d_len = 0, d_options = 0\<rparr>, xt_comp = one_ring 0, xt_pool = [0],
      xt_hdr = wc_hdr test_worker, xt_area = replicate 2048 0\<rparr>"

definition test_shared :: "u64 list split_shared" where
  "test_shared = \<lparr>sp_slots = slots_new, sp_global = 0, sp_stats = stats_new list_hist\<rparr>"

definition test_flood :: split_tx_env where
  "test_flood = \<lparr>st_qps = 0, st_changed = 0, st_blocked = 0, st_now = 0, st_late = 0, st_shutdown = False,
     st_ins_ns = (\<lambda>_. 1), st_egress_ns = 1\<rparr>"

lemma one_ring_wf: "ring_wf (one_ring x)" "ring_contents (one_ring x) = []"
  by (auto simp: ring_wf_def one_ring_def ring_contents_def read_slots_def intro!: exI [of _ 0])

lemma test_tx_sends:
  "\<exists>w' t' sh'. split_tx_iter (wc_pool test_worker) 0 65536 0 test_flood (split_tx_new 0 0, test_tx, test_shared) =
     Some (Some (w', t', sh')) \<and> ring_contents (xt_tx t') \<noteq> []"
proof -
  have h: "new_with_vlan (Mac 0x00 0x11 0x22 0x33 0x44 0x55) (Mac 0xAA 0xBB 0xCC 0xDD 0xEE 0xFF)
       (Ipv4 10 8 0 2) (Ipv4 10 8 0 1) 12345 53 None = Some (wc_hdr test_worker)"
    by (simp add: test_worker_def test_header_def new_with_vlan_eq)
  have "from_pairs [(''a.com'', 1)] = Some (wc_pool test_worker)" by (simp add: test_worker_def from_pairs_def)
  then have p: "pool_fits (wc_pool test_worker)" by (rule pool_fitsI) simp
  let ?b = "frame_at (xt_area test_tx) 0 (unat FRAME_SIZE)"
  have "length ?b = 2048" by (simp add: frame_at_def test_tx_def FRAME_SIZE_def)
  from stamp_query_ok [OF h p this, of 0 0 0] obtain dl pl fl buf where
    q: "write_with_index (wc_pool test_worker) 0 0 (drop (outer (wc_hdr test_worker)) ?b) = Some (dl, pl)"
    "write_header (wc_hdr test_worker) (take (outer (wc_hdr test_worker)) ?b @ pl) dl = Some (fl, buf)"
    by (auto simp: stamp_query_def split: option.splits prod.splits)
  then have fill: "inline_fill (wc_pool test_worker) (wc_hdr test_worker) 0 65536 [0] 0 0 (xt_area test_tx) =
      Some ([\<lparr>d_addr = 0, d_len = of_nat fl, d_options = 0\<rparr>], [0], 1, 1, put_frame 0 buf (xt_area test_tx))"
    by (simp add: Let_def)
  let ?d = "\<lparr>d_addr = 0, d_len = of_nat fl, d_options = 0\<rparr>"
  obtain n tx where push: "produce_tx (xt_tx test_tx) [?d] = (n, tx)" by fastforce
  have law: "n = 1" "ring_contents tx = [?d]"
    using desc_fifo.push_law [OF _ push] by (simp_all add: test_tx_def one_ring_wf) (simp_all add: one_ring_def ring_capacity_def)
  have d: "dequeue_all (xt_comp test_tx) = ([], xt_comp test_tx)"
    by (simp add: test_tx_def one_ring_def dequeue_all_def read_slots_def Let_def)
  have t: "xt_pool test_tx = [0]" "xt_hdr test_tx = wc_hdr test_worker" by (simp_all add: test_tx_def)
  show ?thesis
    using d t fill push law
    by (simp add: split_tx_iter_def split_tx_burst_def xdp_tx_batch_inline_def split_flush_def split_tx_new_def test_flood_def
      TX_BATCH_def FLUSH_N_def Let_def)
qed

theorem split_sender_conserves_witness:
  "\<exists>w' t' sh'. split_tx_iter (wc_pool test_worker) 0 65536 0 test_flood (split_tx_new 0 0, test_tx, test_shared) =
     Some (Some (w', t', sh')) \<and> ring_contents (xt_tx t') \<noteq> [] \<and> xt_frames t' = {#0#} \<and>
     split_sent w' sh' = of_nat (length (ring_contents (xt_tx t')))"
proof -
  obtain w' t' sh' where it: "split_tx_iter (wc_pool test_worker) 0 65536 0 test_flood (split_tx_new 0 0, test_tx, test_shared) =
     Some (Some (w', t', sh'))" and ne: "ring_contents (xt_tx t') \<noteq> []" using test_tx_sends by blast
  have wf: "ring_wf (xt_tx test_tx)" "ring_wf (xt_comp test_tx)" "ring_contents (xt_tx test_tx) = []"
    "xt_frames test_tx = {#0#}" by (simp_all add: test_tx_def one_ring_wf xt_frames_def)
  have "split_sent (split_tx_new 0 0) test_shared = 0"
    by (simp add: split_sent_def split_tx_new_def test_shared_def stats_new_def)
  with split_sender_conserves [OF wf(1,2) it] it ne wf(3,4) show ?thesis by auto
qed

text \<open>C33: The gate of the split path can close for good. The sender adds its sends to the gate only in
  lumps of 1024, and the receiver's credits for queries not yet added are dropped by the saturating
  subtraction. If at a flush at least \<open>max_out\<close> of the lump are no longer pending, then in every state
  reachable afterwards, whatever the receiver, the kernel and the sender do, no further query is sent.
\<close>

theorem split_gate_wedges:
  assumes "0 < max_out" "slots_wf (sp_slots (ss_shared S))" "FLUSH_N \<le> sx_local_sent (ss_tx S)"
    and "max_out + occupied (sp_slots (ss_shared S)) \<le> sx_local_sent (ss_tx S)"
    and "unat (sp_global (ss_shared S)) + sx_local_sent (ss_tx S) < 2 ^ 64"
    and "split_flush max_out e (ss_tx S) (ss_shared S) = (w, sh)"
    and "split_steps H pool base spn max_out to (S\<lparr>ss_tx := w, ss_shared := sh\<rparr>) S'"
  shows "sx_ctr (ss_tx S') = sx_ctr (ss_tx S) \<and> sent (sp_stats (ss_shared S')) = sent (sp_stats sh) \<and>
    max_out \<le> unat (sp_global (ss_shared S'))"
proof -
  have "wedged max_out (S\<lparr>ss_tx := w, ss_shared := sh\<rparr>)"
    using flush_wedges [OF assms(1-6)] assms(1) by (simp add: wedged_def)
  from wedged_forever [OF assms(7) this] show ?thesis
    using assms(6) by (auto simp: wedged_def split_flush_def split: if_splits)
qed

theorem split_gate_wedges_witness:
  "let sh = test_shared\<lparr>sp_slots := xdp_insert 7 1 slots_new\<rparr>; w = (split_tx_new 0 0)\<lparr>sx_local_sent := 1024\<rparr>;
       (w', sh') = split_flush 100 test_flood w sh
   in occupied (sp_slots sh) = 1 \<and> 100 \<le> unat (sp_global sh')"
proof -
  define sh where "sh = test_shared\<lparr>sp_slots := xdp_insert 7 1 slots_new\<rparr>"
  define w where "w = (split_tx_new 0 0)\<lparr>sx_local_sent := 1024\<rparr>"
  obtain sock live where "create_xsk_socket all_ok {} = (Inr sock, live)" by (rule all_ok_socket)
  define S where "S = \<lparr>ss_tx = w, ss_state = test_tx,
    ss_rx = \<lparr>sr_sock = sock, sr_area = [], sr_last_check = 0, sr_idle = 0\<rparr>, ss_shared = sh\<rparr>"
  obtain w' sh' where f: "split_flush 100 test_flood w sh = (w', sh')" by fastforce
  have len: "length slots_new = 65536" unfolding slots_new_def by (rule length_replicate)
  have z: "slots_new ! 7 = 0" unfolding slots_new_def by (rule nth_replicate) simp
  have occ: "occupied (sp_slots sh) = 1"
    using occupied_set [of 7 slots_new 1] len z occupied_new by (simp add: sh_def xdp_insert_def)
  have wf: "slots_wf (sp_slots sh)" using len by (simp add: sh_def xdp_insert_def slots_wf_def)
  have S: "ss_tx S = w" "ss_shared S = sh" by (simp_all add: S_def)
  have "100 \<le> unat (sp_global (ss_shared (S\<lparr>ss_tx := w', ss_shared := sh'\<rparr>)))"
    using split_gate_wedges [of 100 S test_flood w' sh' list_hist "wc_pool test_worker" 0 65536 5000000000,
        OF _ _ _ _ _ _ rtranclp.rtrancl_refl] f wf occ
    by (simp add: S w_def FLUSH_N_def) (simp add: sh_def test_shared_def)
  then show ?thesis using f occ by (simp add: sh_def [symmetric] w_def [symmetric])
qed

end
