(* ===== verification/Interfaces.thy ===== *)
theory Interfaces
  imports Frame
begin

text \<open>
  What dnsmark reads from the host: CPU topology and NUMA nodes (\<^verbatim>\<open>src/autodetect.rs\<close>), the choice of the
  network interface (\<^verbatim>\<open>src/transport/xdp/socket.rs\<close>) and CPU pinning (\<^verbatim>\<open>src/transport/mod.rs\<close>). The file
  system is a record of functions, as are the results of \<^verbatim>\<open>getifaddrs\<close> and of the \<^verbatim>\<open>num_cpus\<close> package.
\<close>

section \<open>The host\<close>

text \<open>
  The contents of a file, the entries of a directory in the order they are read (\<open>None\<close> is an entry that
  could not be read), the target of a symbolic link, and whether a path exists.
\<close>

record host =
  read_to_string :: "string \<Rightarrow> string option"
  read_dir :: "string \<Rightarrow> string option list option"
  read_link :: "string \<Rightarrow> string option"
  path_exists :: "string \<Rightarrow> bool"
  num_cpus :: nat
  num_physical :: nat

definition read_or_default :: "host \<Rightarrow> string \<Rightarrow> string" where
  "read_or_default h path = (case read_to_string h path of None \<Rightarrow> [] | Some s \<Rightarrow> s)"

text \<open>\<^verbatim>\<open>Iterator::flatten\<close> over directory entries, and \<^verbatim>\<open>filter_map\<close>.\<close>

definition flatten_opt :: "'a option list \<Rightarrow> 'a list" where
  "flatten_opt xs = map the (filter (\<lambda>x. x \<noteq> None) xs)"

definition filter_map :: "('a \<Rightarrow> 'b option) \<Rightarrow> 'a list \<Rightarrow> 'b list" where
  "filter_map f xs = flatten_opt (map f xs)"

lemma set_flatten_opt: "set (flatten_opt xs) = {x. Some x \<in> set xs}"
  by (force simp: flatten_opt_def image_iff)

lemma set_filter_map: "set (filter_map f xs) = {y. \<exists>x \<in> set xs. f x = Some y}"
  by (auto simp: filter_map_def set_flatten_opt image_iff) (metis)+

abbreviation parse_usize :: "string \<Rightarrow> nat option" where
  "parse_usize \<equiv> parse_unsigned (2 ^ 64)"

text \<open>\<^verbatim>\<open>Path::file_name\<close>\<close>

definition file_name :: "string \<Rightarrow> string option" where
  "file_name path =
     (let cs = filter (\<lambda>c. c \<noteq> [] \<and> c \<noteq> ''.'') (split_on (CHR ''/'') path)
      in if cs = [] \<or> last cs = ''..'' then None else Some (last cs))"

section \<open>CPU topology\<close>

definition read_topo :: "host \<Rightarrow> nat \<Rightarrow> string \<Rightarrow> nat option" where
  "read_topo h cpu file =
     do { s \<leftarrow> read_to_string h (''/sys/devices/system/cpu/cpu'' @ nat_to_string cpu @ ''/topology/'' @ file);
          parse_usize (trim s) }"

definition cpu_dir_id :: "string \<Rightarrow> nat option" where
  "cpu_dir_id name =
     do { digits \<leftarrow> strip_prefix ''cpu'' name;
          if digits \<noteq> [] \<and> list_all is_digit digits then parse_usize digits else None }"

text \<open>The loop over the sorted ids with the set of cores already seen.\<close>

fun first_of_core :: "(nat \<Rightarrow> (nat \<times> nat) option) \<Rightarrow> (nat \<times> nat) list \<Rightarrow> nat list \<Rightarrow> nat list" where
  "first_of_core key seen [] = []"
| "first_of_core key seen (cpu # cpus) =
     (case key cpu of
        None \<Rightarrow> first_of_core key seen cpus
      | Some k \<Rightarrow> if k \<in> set seen then first_of_core key seen cpus
                  else cpu # first_of_core key (k # seen) cpus)"

definition core_key :: "host \<Rightarrow> nat \<Rightarrow> (nat \<times> nat) option" where
  "core_key h cpu =
     do { core \<leftarrow> read_topo h cpu ''core_id'';
          Some (case read_topo h cpu ''physical_package_id'' of None \<Rightarrow> 0 | Some p \<Rightarrow> p, core) }"

definition physical_cores :: "host \<Rightarrow> nat list" where
  "physical_cores h =
     (case read_dir h ''/sys/devices/system/cpu'' of
        None \<Rightarrow> [0..<num_physical h]
      | Some entries \<Rightarrow>
          let cores = first_of_core (core_key h) [] (sort (filter_map cpu_dir_id (flatten_opt entries)))
          in if cores = [] then [0..<num_physical h] else cores)"

text \<open>An entry that cannot be read ends the search (\<^verbatim>\<open>entry.ok()?\<close>).\<close>

fun node_entry :: "string option list \<Rightarrow> nat option" where
  "node_entry [] = None"
| "node_entry (None # es) = None"
| "node_entry (Some name # es) =
     (case strip_prefix ''node'' name of
        None \<Rightarrow> node_entry es
      | Some rest \<Rightarrow> (case parse_usize rest of None \<Rightarrow> node_entry es | Some n \<Rightarrow> Some n))"

definition numa_node_for_cpu :: "host \<Rightarrow> nat \<Rightarrow> nat option" where
  "numa_node_for_cpu h cpu =
     do { es \<leftarrow> read_dir h (''/sys/devices/system/cpu/cpu'' @ nat_to_string cpu); node_entry es }"

definition numa_node_for_iface :: "host \<Rightarrow> string \<Rightarrow> nat option" where
  "numa_node_for_iface h iface =
     do { s \<leftarrow> read_to_string h (''/sys/class/net/'' @ iface @ ''/device/numa_node'');
          n \<leftarrow> parse_signed (2 ^ 31) (trim s);
          if n < 0 then None else Some (nat n) }"

definition physical_cores_numa_sorted :: "host \<Rightarrow> nat option \<Rightarrow> nat list" where
  "physical_cores_numa_sorted h preferred =
     (let cores = physical_cores h
      in case preferred of
           None \<Rightarrow> cores
         | Some node \<Rightarrow>
             filter (\<lambda>c. numa_node_for_cpu h c = Some node) cores @
             filter (\<lambda>c. numa_node_for_cpu h c \<noteq> Some node) cores)"

text \<open>A kernel CPU list such as \<^verbatim>\<open>0-3,8,10-11\<close>.\<close>

definition cpulist_part :: "string \<Rightarrow> nat list" where
  "cpulist_part part =
     (case split_once (CHR ''-'') part of
        Some (a, b) \<Rightarrow>
          (case (parse_usize (trim a), parse_usize (trim b)) of
             (Some a, Some b) \<Rightarrow> [a..<Suc b]
           | _ \<Rightarrow> [])
      | None \<Rightarrow> (case parse_usize (trim part) of Some a \<Rightarrow> [a] | None \<Rightarrow> []))"

definition logical_cpus_for_node :: "host \<Rightarrow> nat \<Rightarrow> nat list" where
  "logical_cpus_for_node h node =
     concat (map (\<lambda>part. if part = [] then [] else cpulist_part part)
       (split_on (CHR '','') (trim (read_or_default h
         (''/sys/devices/system/node/node'' @ nat_to_string node @ ''/cpulist'')))))"

definition nic_local_logical_cpus :: "host \<Rightarrow> string \<Rightarrow> nat list" where
  "nic_local_logical_cpus h iface =
     concat (map cpulist_part
       (split_on (CHR '','') (trim (read_or_default h (''/sys/class/net/'' @ iface @ ''/device/local_cpulist'')))))"

definition numa_node_count :: "host \<Rightarrow> nat" where
  "numa_node_count h =
     (case read_dir h ''/sys/devices/system/node'' of
        None \<Rightarrow> 1
      | Some es \<Rightarrow>
          max (length (filter (\<lambda>name. 4 < length name \<and> starts_with ''node'' name \<and> list_all is_digit (drop 4 name))
            (flatten_opt es))) 1)"

section \<open>Memory, CPU and NIC description\<close>

definition first_number :: "string \<Rightarrow> nat" where
  "first_number rest =
     (case split_whitespace rest of
        [] \<Rightarrow> 0
      | v # _ \<Rightarrow> (case parse_unsigned (2 ^ 64) v of None \<Rightarrow> 0 | Some n \<Rightarrow> n))"

fun mem_avail_line :: "string list \<Rightarrow> nat" where
  "mem_avail_line [] = 0"
| "mem_avail_line (line # ls) =
     (case strip_prefix ''MemAvailable:'' line of
        Some rest \<Rightarrow> first_number rest div 1024
      | None \<Rightarrow> mem_avail_line ls)"

definition read_proc_meminfo_avail_mb :: "host \<Rightarrow> nat" where
  "read_proc_meminfo_avail_mb h = mem_avail_line (lines (read_or_default h ''/proc/meminfo''))"

definition meminfo_line :: "nat \<times> nat \<Rightarrow> string \<Rightarrow> nat \<times> nat" where
  "meminfo_line = (\<lambda>(total, avail) line.
     case strip_prefix ''MemTotal:'' line of
       Some rest \<Rightarrow> (first_number rest, avail)
     | None \<Rightarrow>
         (case strip_prefix ''MemAvailable:'' line of
            Some rest \<Rightarrow> (total, first_number rest)
          | None \<Rightarrow> (total, avail)))"

definition read_proc_meminfo_total_and_avail_kb :: "host \<Rightarrow> nat \<times> nat" where
  "read_proc_meminfo_total_and_avail_kb h = foldl meminfo_line (0, 0) (lines (read_or_default h ''/proc/meminfo''))"

fun model_name_line :: "string list \<Rightarrow> string option" where
  "model_name_line [] = None"
| "model_name_line (line # ls) =
     (case strip_prefix ''model name'' line of
        Some v \<Rightarrow> Some (trim (trim_start_matches (\<lambda>c. c \<in> {CHR '':'', CHR '' '', CHR 0x09}) v))
      | None \<Rightarrow> model_name_line ls)"

definition cpu_model_name :: "host \<Rightarrow> string option" where
  "cpu_model_name h = do { txt \<leftarrow> read_to_string h ''/proc/cpuinfo''; model_name_line (lines txt) }"

definition nic_driver :: "host \<Rightarrow> string \<Rightarrow> string option" where
  "nic_driver h iface = do { link \<leftarrow> read_link h (''/sys/class/net/'' @ iface @ ''/device/driver''); file_name link }"

definition nic_speed_mbps :: "host \<Rightarrow> string \<Rightarrow> nat option" where
  "nic_speed_mbps h iface =
     do { s \<leftarrow> read_to_string h (''/sys/class/net/'' @ iface @ ''/speed'');
          v \<leftarrow> parse_signed (2 ^ 63) (trim s);
          if 0 < v then Some (nat v) else None }"

text \<open>\<^verbatim>\<open>is_xeon_v2_x520\<close>: the \<open>n\<close>-th \<^verbatim>\<open>:\<close>-separated field, and the driver module by substring.\<close>

fun contains :: "string \<Rightarrow> string \<Rightarrow> bool" where
  "contains p [] = (p = [])"
| "contains p (c # cs) = (starts_with p (c # cs) \<or> contains p cs)"

definition field_is :: "string \<Rightarrow> string \<Rightarrow> bool" where
  "field_is line v = (case split_on (CHR '':'') line of _ # f # _ \<Rightarrow> trim f = v | _ \<Rightarrow> False)"

definition is_alnum :: "char \<Rightarrow> bool" where
  "is_alnum c = (is_digit c \<or> (let n = of_char (to_upper c) :: nat in 65 \<le> n \<and> n \<le> 90))"

definition is_xeon_v2_x520 :: "host \<Rightarrow> string \<Rightarrow> bool" where
  "is_xeon_v2_x520 h iface =
     (case read_to_string h ''/proc/cpuinfo'' of
        None \<Rightarrow> False
      | Some s \<Rightarrow>
          list_ex (\<lambda>l. starts_with ''cpu family'' l \<and> field_is l ''6'') (lines s) \<and>
          list_ex (\<lambda>l. starts_with ''model'' l \<and> \<not> starts_with ''model name'' l \<and> field_is l ''62'') (lines s) \<and>
          iface \<noteq> [] \<and> list_all (\<lambda>c. is_alnum c \<or> c \<in> {CHR ''.'', CHR ''_'', CHR ''-''}) iface \<and>
          (case read_link h (''/sys/class/net/'' @ iface @ ''/device/driver/module'') of
             None \<Rightarrow> False
           | Some target \<Rightarrow> contains ''ixgbe'' target))"

section \<open>Addresses and routes\<close>

datatype ip_addr = V4 ipv4 | V6 "u16 list"

fun is_loopback :: "ip_addr \<Rightarrow> bool" where
  "is_loopback (V4 (Ipv4 a b c d)) = (a = 127)"
| "is_loopback (V6 segs) = (segs = [0, 0, 0, 0, 0, 0, 0, 1])"

fun ipv4_u32 :: "ipv4 \<Rightarrow> u32" where
  "ipv4_u32 (Ipv4 a b c d) = push_bit 24 (ucast a) OR push_bit 16 (ucast b) OR push_bit 8 (ucast c) OR ucast d"

definition swap_bytes :: "u32 \<Rightarrow> u32" where
  "swap_bytes w = push_bit 24 w OR push_bit 8 (w AND 0xFF00) OR (drop_bit 8 w AND 0xFF00) OR drop_bit 24 w"

definition parse_hex_u32 :: "string \<Rightarrow> u32 option" where
  "parse_hex_u32 s = map_option of_nat (parse_hex (2 ^ 32) s)"

text \<open>
  \<^verbatim>\<open>iface_for_addr\<close>, on a little-endian host. The outer option is the panic of an index out of range:
  the guard asks for four columns and the eighth is read.
\<close>

fun route_scan :: "u32 \<Rightarrow> string option \<Rightarrow> string list \<Rightarrow> string option option" where
  "route_scan v4 default_iface [] = Some default_iface"
| "route_scan v4 default_iface (line # ls) =
     (let cols = split_whitespace line
      in if length cols < 4 then route_scan v4 default_iface ls
         else
           let dest = swap_bytes (case parse_hex_u32 (cols ! 1) of None \<Rightarrow> 0xFFFFFFFF | Some d \<Rightarrow> d)
           in (case idx cols 7 of
                 None \<Rightarrow> None
               | Some m \<Rightarrow>
                   let msk = swap_bytes (case parse_hex_u32 m of None \<Rightarrow> 0 | Some m \<Rightarrow> m)
                   in if dest = 0 \<and> msk = 0 then route_scan v4 (Some (cols ! 0)) ls
                      else if v4 AND msk = dest AND msk then Some (Some (cols ! 0))
                      else route_scan v4 default_iface ls))"

definition iface_for_addr :: "host \<Rightarrow> ip_addr \<Rightarrow> string option option" where
  "iface_for_addr h addr =
     (case read_to_string h ''/proc/net/route'' of
        None \<Rightarrow> Some None
      | Some content \<Rightarrow>
          if is_loopback addr then Some None
          else (case addr of
                  V4 a \<Rightarrow> route_scan (ipv4_u32 a) None (drop 1 (lines content))
                | V6 _ \<Rightarrow> Some None))"

text \<open>\<^verbatim>\<open>iface_for_ipv4\<close>: a line that cannot be parsed ends the function with \<open>None\<close> (\<^verbatim>\<open>?\<close>).\<close>

definition count_ones :: "u32 \<Rightarrow> nat" where
  "count_ones w = length (filter (bit w) [0..<32])"

definition route_line :: "string \<Rightarrow> (string \<times> u32 \<times> u32) option" where
  "route_line line =
     (let cols = split_whitespace line
      in do { iface \<leftarrow> idx cols 0; d \<leftarrow> idx cols 1; dest \<leftarrow> parse_hex_u32 d;
              m \<leftarrow> idx cols 7; msk \<leftarrow> parse_hex_u32 m; Some (iface, dest, msk) })"

fun best_route :: "u32 \<Rightarrow> (nat \<times> string) option \<Rightarrow> string list \<Rightarrow> string option" where
  "best_route target best [] = map_option snd best"
| "best_route target best (line # ls) =
     (case route_line line of
        None \<Rightarrow> None
      | Some (iface, dest, msk) \<Rightarrow>
          if target AND msk = dest AND msk then
            let prefix_len = count_ones msk
            in if (case best of None \<Rightarrow> True | Some (n, _) \<Rightarrow> n < prefix_len)
               then best_route target (Some (prefix_len, iface)) ls
               else best_route target best ls
          else best_route target best ls)"

definition iface_for_ipv4 :: "host \<Rightarrow> ipv4 \<Rightarrow> string option" where
  "iface_for_ipv4 h target =
     do { content \<leftarrow> read_to_string h ''/proc/net/route'';
          best_route (swap_bytes (ipv4_u32 target)) None (drop 1 (lines content)) }"

fun default_route :: "string list \<Rightarrow> string option" where
  "default_route [] = None"
| "default_route (line # ls) =
     (let cols = split_whitespace line
      in do { iface \<leftarrow> idx cols 0; dest \<leftarrow> idx cols 1;
              if dest = ''00000000'' then Some iface else default_route ls })"

definition default_interface :: "host \<Rightarrow> string option" where
  "default_interface h = do { content \<leftarrow> read_to_string h ''/proc/net/route''; default_route (drop 1 (lines content)) }"

text \<open>The list \<^verbatim>\<open>getifaddrs\<close> returns: name, address and netmask, each address null or not.\<close>

type_synonym ifaddr_mask = "string \<times> ifa_addr option \<times> ipv4 option"

fun subnet_scan :: "u32 \<Rightarrow> ifaddr_mask list \<Rightarrow> string option" where
  "subnet_scan server [] = None"
| "subnet_scan server ((name, addr, msk) # rest) =
     (case (addr, msk) of
        (Some (Inet ip), Some m) \<Rightarrow>
          if ipv4_u32 m = 0 then subnet_scan server rest
          else if name = ''lo'' then subnet_scan server rest
          else if ipv4_u32 ip AND ipv4_u32 m = server AND ipv4_u32 m then Some name
          else subnet_scan server rest
      | _ \<Rightarrow> subnet_scan server rest)"

definition getifaddrs_iface_for_subnet :: "ifaddr_mask list option \<Rightarrow> ipv4 \<Rightarrow> string option" where
  "getifaddrs_iface_for_subnet ifs server = do { ifs \<leftarrow> ifs; subnet_scan (ipv4_u32 server) ifs }"

definition iface_for_server :: "host \<Rightarrow> ifaddr_mask list option \<Rightarrow> ip_addr \<Rightarrow> string option" where
  "iface_for_server h ifs server =
     (if is_loopback server then Some ''lo''
      else case server of
             V4 v4 \<Rightarrow>
               (case getifaddrs_iface_for_subnet ifs v4 of Some i \<Rightarrow> Some i | None \<Rightarrow> iface_for_ipv4 h v4)
           | V6 _ \<Rightarrow> default_interface h)"

definition iface_for_benchmark :: "host \<Rightarrow> ifaddr_mask list option \<Rightarrow> ip_addr \<Rightarrow> string" where
  "iface_for_benchmark h ifs server =
     (case iface_for_server h ifs server of
        Some i \<Rightarrow> i
      | None \<Rightarrow> (case default_interface h of Some i \<Rightarrow> i | None \<Rightarrow> ''eth0''))"

section \<open>Physical and virtual interfaces\<close>

definition queue_count :: "string \<Rightarrow> host \<Rightarrow> string \<Rightarrow> nat" where
  "queue_count prefix h iface =
     max (case read_dir h (''/sys/class/net/'' @ iface @ ''/queues'') of
            None \<Rightarrow> 1
          | Some es \<Rightarrow> length (filter (starts_with prefix) (flatten_opt es))) 1"

definition get_rx_queue_count :: "host \<Rightarrow> string \<Rightarrow> nat" where
  "get_rx_queue_count = queue_count ''rx-''"

definition get_tx_queue_count :: "host \<Rightarrow> string \<Rightarrow> nat" where
  "get_tx_queue_count = queue_count ''tx-''"

definition is_virtual_interface :: "host \<Rightarrow> string \<Rightarrow> bool" where
  "is_virtual_interface h iface =
     (if path_exists h (''/sys/class/net/'' @ iface @ ''/device'') then False
      else \<not> list_ex (\<lambda>l. trim l = ''DEVTYPE=vlan'')
             (lines (read_or_default h (''/sys/class/net/'' @ iface @ ''/uevent''))))"

definition first_physical_bridge_port :: "host \<Rightarrow> string \<Rightarrow> string option" where
  "first_physical_bridge_port h bridge =
     do { es \<leftarrow> read_dir h (''/sys/class/net/'' @ bridge @ ''/brif'');
          List.find (\<lambda>port. \<not> is_virtual_interface h port) (flatten_opt es) }"

fun first_lower :: "string list \<Rightarrow> string option" where
  "first_lower [] = None"
| "first_lower (name # es) =
     (case strip_prefix ''lower_'' name of
        Some lower \<Rightarrow> if lower \<noteq> [] then Some lower else first_lower es
      | None \<Rightarrow> first_lower es)"

definition master_port :: "host \<Rightarrow> string \<Rightarrow> string option" where
  "master_port h iface =
     do { target \<leftarrow> read_link h (''/sys/class/net/'' @ iface @ ''/master''); m \<leftarrow> file_name target;
          if m = [] then None
          else if \<not> is_virtual_interface h m then Some m
          else first_physical_bridge_port h m }"

definition parent_interface :: "host \<Rightarrow> string \<Rightarrow> string option" where
  "parent_interface h iface =
     (case (case read_dir h (''/sys/class/net/'' @ iface) of None \<Rightarrow> None | Some es \<Rightarrow> first_lower (flatten_opt es)) of
        Some lower \<Rightarrow> Some lower
      | None \<Rightarrow>
          (case master_port h iface of
             Some p \<Rightarrow> Some p
           | None \<Rightarrow> first_physical_bridge_port h iface))"

section \<open>Pinning\<close>

text \<open>The core list of the process is set once; \<open>None\<close> is the panic inherited from \<^const>\<open>iface_for_addr\<close>.\<close>

definition init_cpu_pinning :: "host \<Rightarrow> ip_addr \<Rightarrow> nat list option \<Rightarrow> nat list option" where
  "init_cpu_pinning h server pinned =
     (case pinned of
        Some cores \<Rightarrow> Some cores
      | None \<Rightarrow>
          (case iface_for_addr h server of
             None \<Rightarrow> None
           | Some iface \<Rightarrow>
               Some (physical_cores_numa_sorted h (do { i \<leftarrow> iface; numa_node_for_iface h i }))))"

text \<open>\<^verbatim>\<open>confine_to_nic_node\<close>: the affinity set and the memory node mask it asks the kernel for.\<close>

definition CPU_SETSIZE :: nat where "CPU_SETSIZE = 1024"

definition confine_to_nic_node :: "host \<Rightarrow> ip_addr \<Rightarrow> (nat list option \<times> u64 option) option" where
  "confine_to_nic_node h server =
     (case iface_for_addr h server of
        None \<Rightarrow> None
      | Some None \<Rightarrow> Some (None, None)
      | Some (Some iface) \<Rightarrow>
          (case numa_node_for_iface h iface of
             None \<Rightarrow> Some (None, None)
           | Some node \<Rightarrow>
               let cpus = logical_cpus_for_node h node
               in Some (if cpus = [] then None else Some (filter (\<lambda>c. c < CPU_SETSIZE) cpus),
                        if node < 64 then Some (push_bit node 1) else None)))"

text \<open>The CPU a worker is pinned to and the core list left behind; \<open>None\<close> is the division by zero.\<close>

definition pin_to_cpu :: "host \<Rightarrow> nat \<Rightarrow> nat list option \<Rightarrow> (nat \<times> nat list) option" where
  "pin_to_cpu h worker_id pinned =
     (let cores = (case pinned of Some cores \<Rightarrow> cores | None \<Rightarrow> physical_cores h)
      in if cores = [] then None else Some (cores ! (worker_id mod length cores), cores))"

section \<open>CPU lists\<close>

text \<open>The kernel's text of a list of ranges.\<close>

fun range_text :: "nat \<times> nat \<Rightarrow> string" where
  "range_text (a, b) = (if a = b then nat_to_string a else nat_to_string a @ ''-'' @ nat_to_string b)"

fun cpulist_text :: "(nat \<times> nat) list \<Rightarrow> string" where
  "cpulist_text [] = []"
| "cpulist_text [r] = range_text r"
| "cpulist_text (r # rs) = range_text r @ '','' @ cpulist_text rs"

lemma digits_of_nat: "c \<in> set (nat_to_string n) \<Longrightarrow> is_digit c"
proof (induction n rule: nat_to_string.induct)
  case (1 n)
  have d: "is_digit (dec_digit k)" if "k < 10" for k
    using that by (simp add: is_digit_def dec_digit_def)
  show ?case
    using 1 d by (cases "n < 10") (auto simp: nat_to_string.simps [of n])
qed

lemma digit_facts: "is_digit c \<Longrightarrow> \<not> is_ws c \<and> c \<noteq> CHR ''-'' \<and> c \<noteq> CHR '',''"
  by (auto simp: is_digit_def is_ws_def)

lemma trim_id:
  assumes "\<forall>c \<in> set s. \<not> is_ws c"
  shows "trim s = s" "trim (s @ [CHR 0x0A]) = s"
proof -
  have start: "dropWhile is_ws (s @ t) = s @ t" if "s \<noteq> []" for t
    using that assms by (cases s) auto
  have fin: "dropWhile is_ws (rev s) = rev s" using assms by (cases "rev s") (auto dest: arg_cong [of _ _ set])
  have nl: "is_ws (CHR 0x0A)" by (simp add: is_ws_def)
  show "trim s = s" "trim (s @ [CHR 0x0A]) = s"
    using start [of "[]"] start [of "[CHR 0x0A]"] fin nl
    by (cases "s = []"; simp add: trim_def trim_end_matches_def trim_start_matches_def)+
qed

lemma split_once_none: "d \<notin> set s \<Longrightarrow> split_once d s = None"
  by (induction s) auto

lemma range_chars: "c \<in> set (range_text r) \<Longrightarrow> \<not> is_ws c \<and> c \<noteq> CHR '',''"
proof -
  assume c: "c \<in> set (range_text r)"
  obtain a b where r: "r = (a, b)" by (cases r)
  have "is_digit c \<or> c = CHR ''-''" using c digits_of_nat by (auto simp: r split: if_splits)
  then show ?thesis using digit_facts by (auto simp: is_ws_def)
qed

lemma range_nonempty: "range_text r \<noteq> []"
  by (cases r) simp

lemma cpulist_part_range:
  assumes "a \<le> b" "b < 2 ^ 64"
  shows "cpulist_part (range_text (a, b)) = [a..<Suc b]"
proof -
  have ws: "\<forall>c \<in> set (nat_to_string n). \<not> is_ws c" for n using digits_of_nat digit_facts by blast
  have m: "CHR ''-'' \<notin> set (nat_to_string n)" for n using digits_of_nat digit_facts by blast
  note p = trim_id(1) [OF ws] parse_unsigned_nat_to_string
  show ?thesis
  proof (cases "a = b")
    case True
    then show ?thesis using assms m by (simp add: cpulist_part_def split_once_none p)
  next
    case False
    then have "split_once (CHR ''-'') (range_text (a, b)) = Some (nat_to_string a, nat_to_string b)"
      using m by (simp add: split_once_Some)
    then show ?thesis using assms by (simp add: cpulist_part_def p)
  qed
qed

lemma split_cpulist: "rs \<noteq> [] \<Longrightarrow> split_on (CHR '','') (cpulist_text rs) = map range_text rs"
proof (induction rs rule: cpulist_text.induct)
  case (2 r)
  then show ?case using range_chars [of _ r] by (simp add: split_by_no_match del: range_text.simps)
next
  case (3 r r' rs)
  have "\<forall>c \<in> set (range_text r). c \<noteq> CHR '',''" using range_chars by blast
  from split_by_append_sep [OF this] 3 show ?case by simp
qed simp

lemma cpulist_chars: "c \<in> set (cpulist_text rs) \<Longrightarrow> \<not> is_ws c"
  by (induction rs rule: cpulist_text.induct) (auto simp: is_ws_def dest: range_chars)

section \<open>One CPU per core\<close>

text \<open>The first CPU of every core that is not in \<open>seen\<close>.\<close>

lemma first_of_core_spec:
  "set (first_of_core key seen cpus) \<subseteq> set cpus \<and>
   (\<forall>k. k \<in> set seen \<longrightarrow> (\<forall>c \<in> set (first_of_core key seen cpus). key c \<noteq> Some k)) \<and>
   (\<forall>c \<in> set cpus. \<forall>k. key c = Some k \<longrightarrow> k \<notin> set seen \<longrightarrow>
      (\<exists>c' \<in> set (first_of_core key seen cpus). key c' = Some k)) \<and>
   distinct (map key (first_of_core key seen cpus)) \<and>
   (\<forall>c \<in> set (first_of_core key seen cpus). key c \<noteq> None) \<and>
   (sorted cpus \<longrightarrow> sorted (first_of_core key seen cpus) \<and>
      (\<forall>c \<in> set (first_of_core key seen cpus). \<forall>c' \<in> set cpus. key c' = key c \<longrightarrow> c \<le> c'))"
proof (induction cpus arbitrary: seen)
  case (Cons a cpus)
  show ?case
  proof (cases "key a")
    case None
    then show ?thesis using Cons.IH [of seen] by auto
  next
    case (Some k)
    show ?thesis
    proof (cases "k \<in> set seen")
      case True
      then show ?thesis using Some Cons.IH [of seen] by auto
    next
      case False
      then show ?thesis using Some Cons.IH [of "k # seen"] by (auto simp: image_iff)
    qed
  qed
qed simp

section \<open>The longest matching prefix\<close>

definition route_matches :: "u32 \<Rightarrow> string \<times> u32 \<times> u32 \<Rightarrow> bool" where
  "route_matches target = (\<lambda>(iface, dest, msk). target AND msk = dest AND msk)"

definition prefix_len :: "string \<times> u32 \<times> u32 \<Rightarrow> nat" where
  "prefix_len = (\<lambda>(iface, dest, msk). count_ones msk)"

text \<open>\<open>best\<close> is the best of the routes \<open>R\<close> seen so far.\<close>

definition best_of :: "u32 \<Rightarrow> (string \<times> u32 \<times> u32) set \<Rightarrow> (nat \<times> string) option \<Rightarrow> bool" where
  "best_of target R best \<longleftrightarrow>
     (case best of
        None \<Rightarrow> \<forall>r \<in> R. \<not> route_matches target r
      | Some (n, i) \<Rightarrow>
          (\<exists>r \<in> R. route_matches target r \<and> fst r = i \<and> prefix_len r = n) \<and>
          (\<forall>r \<in> R. route_matches target r \<longrightarrow> prefix_len r \<le> n))"

lemma best_route_spec:
  "map route_line ls = map Some routes \<Longrightarrow> best_of target R best \<Longrightarrow>
     \<exists>best'. best_route target best ls = map_option snd best' \<and> best_of target (R \<union> set routes) best'"
proof (induction ls arbitrary: routes R best)
  case (Cons line ls)
  then obtain r rs where r: "routes = r # rs" "route_line line = Some r" "map route_line ls = map Some rs"
    by (cases routes) auto
  obtain iface dest msk where t: "r = (iface, dest, msk)" by (cases r)
  define best1 where "best1 =
    (if route_matches target r \<and> (case best of None \<Rightarrow> True | Some (n, _) \<Rightarrow> n < prefix_len r)
     then Some (prefix_len r, iface) else best)"
  have b: "best_route target best (line # ls) = best_route target best1 ls"
    using r by (cases best) (auto simp: t best1_def route_matches_def prefix_len_def Let_def)
  have "best_of target (insert r R) best1"
    using Cons.prems(2) t by (auto simp: best1_def best_of_def split: option.splits if_splits)
  from Cons.IH [OF r(3) this] show ?case unfolding b r(1) by simp
qed auto

section \<open>Properties\<close>

text \<open>CPU lists round trip: for the kernel's text of any list of ranges, both parsers (of a NUMA node's
  list and of the list local to a network card) return exactly the CPUs of the ranges, in order.\<close>

theorem cpulist_roundtrip:
  assumes "rs \<noteq> []" "\<forall>(a, b) \<in> set rs. a \<le> b \<and> b < 2 ^ 64"
    and "read_to_string h (''/sys/devices/system/node/node'' @ nat_to_string node @ ''/cpulist'') =
      Some (cpulist_text rs @ [CHR 0x0A])"
    and "read_to_string h (''/sys/class/net/'' @ iface @ ''/device/local_cpulist'') = Some (cpulist_text rs @ [CHR 0x0A])"
  shows "logical_cpus_for_node h node = concat (map (\<lambda>(a, b). [a..<Suc b]) rs) \<and>
    nic_local_logical_cpus h iface = concat (map (\<lambda>(a, b). [a..<Suc b]) rs)"
proof -
  have t: "trim (cpulist_text rs @ [CHR 0x0A]) = cpulist_text rs" using cpulist_chars by (intro trim_id(2)) blast
  have p: "map (cpulist_part \<circ> range_text) rs = map (\<lambda>(a, b). [a..<Suc b]) rs"
    using assms(2) cpulist_part_range by (auto simp del: range_text.simps)
  have ne: "map ((\<lambda>part. if part = [] then [] else cpulist_part part) \<circ> range_text) rs = map (cpulist_part \<circ> range_text) rs"
    using range_nonempty by simp
  show ?thesis
    by (simp only: logical_cpus_for_node_def nic_local_logical_cpus_def read_or_default_def assms(3,4) option.case t
      split_cpulist [OF assms(1)] ne map_map p simp_thms)
qed

definition test_host :: "(string \<Rightarrow> string option) \<Rightarrow> (string \<Rightarrow> string option list option) \<Rightarrow> host" where
  "test_host files dirs =
     \<lparr>read_to_string = files, read_dir = dirs, read_link = (\<lambda>_. None), path_exists = (\<lambda>_. False), num_cpus = 2, num_physical = 1\<rparr>"

lemma test_cpulist: "cpulist_text [(0, 3), (8, 8)] = ''0-3,8''"
  by code_simp

theorem cpulist_roundtrip_witness:
  "let h = test_host (\<lambda>_. Some ''0-3,8
'') (\<lambda>_. None) in
   logical_cpus_for_node h 1 = [0, 1, 2, 3, 8] \<and> nic_local_logical_cpus h ''eth0'' = [0, 1, 2, 3, 8]"
proof -
  define h where "h = test_host (\<lambda>_. Some ''0-3,8
'') (\<lambda>_. None)"
  have f: "read_to_string h path = Some (cpulist_text [(0, 3), (8, 8)] @ [CHR 0x0A])" for path
    unfolding test_cpulist h_def test_host_def by simp
  have r: "\<forall>(a, b) \<in> set [(0, 3), (8, 8)]. a \<le> b \<and> b < (2 :: nat) ^ 64" by simp
  have v: "concat (map (\<lambda>(a, b). [a..<Suc b]) [(0, 3), (8, 8)]) = [0, 1, 2, 3, 8]" by code_simp
  show ?thesis
    using cpulist_roundtrip [OF _ r f f, of 1 "''eth0''"] unfolding v by (simp add: h_def [symmetric])
qed

text \<open>One CPU per physical core: when the topology is readable, the core list is sorted, has exactly one
  CPU for every (package, core) pair the host has, and that CPU is the one with the smallest number, so
  hyper-thread siblings are left out on any number of sockets.\<close>

theorem physical_cores_one_per_core:
  assumes "read_dir h ''/sys/devices/system/cpu'' = Some es"
    and "ids = {n. \<exists>name. Some name \<in> set es \<and> cpu_dir_id name = Some n}" and "c0 \<in> ids" "core_key h c0 \<noteq> None"
  shows "sorted (physical_cores h) \<and> distinct (map (core_key h) (physical_cores h)) \<and>
    core_key h ` set (physical_cores h) = core_key h ` {c \<in> ids. core_key h c \<noteq> None} \<and>
    (\<forall>c \<in> set (physical_cores h). c \<in> ids \<and> (\<forall>c' \<in> ids. core_key h c' = core_key h c \<longrightarrow> c \<le> c'))"
proof -
  let ?ids = "sort (filter_map cpu_dir_id (flatten_opt es))"
  let ?cs = "first_of_core (core_key h) [] ?ids"
  have ids: "set ?ids = ids"
    unfolding assms(2) by (auto simp: set_filter_map set_flatten_opt)
  note spec = first_of_core_spec [of "core_key h" "[]" ?ids]
  have keys: "core_key h ` set ?cs = core_key h ` {c \<in> ids. core_key h c \<noteq> None}"
    using spec unfolding ids by (auto simp: image_iff) (metis option.distinct(1) list.set(1) empty_iff)+
  then have "?cs \<noteq> []" using assms(3,4) by auto
  then have pc: "physical_cores h = ?cs" using assms(1) by (simp add: physical_cores_def)
  have "sorted ?ids" by simp
  then show ?thesis using spec keys unfolding pc ids by auto
qed

text \<open>Two cores with two threads each on one package.\<close>

definition smt_host :: host where
  "smt_host = test_host
     (\<lambda>path. if path = ''/sys/devices/system/cpu/cpu0/topology/core_id'' then Some ''0''
             else if path = ''/sys/devices/system/cpu/cpu1/topology/core_id'' then Some ''1''
             else if path = ''/sys/devices/system/cpu/cpu2/topology/core_id'' then Some ''0''
             else if path = ''/sys/devices/system/cpu/cpu3/topology/core_id'' then Some ''1'' else None)
     (\<lambda>_. Some [Some ''cpu3'', Some ''cpufreq'', Some ''cpu0'', None, Some ''cpu2'', Some ''cpu1''])"

lemma smt_host_eval:
  "cpu_dir_id ''cpu0'' = Some 0" "cpu_dir_id ''cpu1'' = Some 1" "cpu_dir_id ''cpu2'' = Some 2" "cpu_dir_id ''cpu3'' = Some 3"
  "cpu_dir_id ''cpufreq'' = None"
  by (simp_all add: cpu_dir_id_def parse_unsigned_def parse_radix_def drop_plus_def dec_val_def is_digit_def)

lemma smt_host_keys:
  "core_key smt_host 0 = Some (0, 0)" "core_key smt_host 1 = Some (0, 1)"
  "core_key smt_host 2 = Some (0, 0)" "core_key smt_host 3 = Some (0, 1)"
  by (simp_all add: core_key_def read_topo_def smt_host_def test_host_def nat_to_string.simps dec_digit_def char_of_def
    parse_unsigned_def parse_radix_def drop_plus_def dec_val_def is_digit_def trim_def trim_start_matches_def
    trim_end_matches_def is_ws_def bit_Suc_0_iff)

lemma smt_host_cores: "physical_cores smt_host = [0, 1]"
proof -
  have d: "read_dir smt_host path = Some [Some ''cpu3'', Some ''cpufreq'', Some ''cpu0'', None, Some ''cpu2'', Some ''cpu1'']"
    for path by (simp add: smt_host_def test_host_def)
  show ?thesis
    by (simp add: physical_cores_def d filter_map_def flatten_opt_def smt_host_eval smt_host_keys del: One_nat_def)
qed

theorem physical_cores_one_per_core_witness:
  "physical_cores smt_host = [0, 1] \<and> sorted (physical_cores smt_host) \<and>
   distinct (map (core_key smt_host) (physical_cores smt_host))"
proof -
  let ?es = "[Some ''cpu3'', Some ''cpufreq'', Some ''cpu0'', None, Some ''cpu2'', Some ''cpu1'']"
  have d: "read_dir smt_host ''/sys/devices/system/cpu'' = Some ?es" by (simp add: smt_host_def test_host_def)
  have m: "Some ''cpu0'' \<in> set ?es" by simp
  have z: "0 \<in> {n. \<exists>name. Some name \<in> set ?es \<and> cpu_dir_id name = Some n}"
    using m smt_host_eval(1) by blast
  have "core_key smt_host 0 \<noteq> None" by (simp add: smt_host_keys)
  from physical_cores_one_per_core [OF d refl z this] m smt_host_cores show ?thesis by blast
qed

text \<open>C30: The routing-table lookup of the AF\_XDP path is a longest-prefix match: on a table whose lines all
  parse, the interface returned belongs to a matching route and no matching route has a longer mask, and
  there is no answer exactly when no route matches.\<close>

theorem route_lookup_longest_prefix:
  assumes "read_to_string h ''/proc/net/route'' = Some content"
    and "map route_line (drop 1 (lines content)) = map Some routes"
  shows "case iface_for_ipv4 h ip of
      None \<Rightarrow> \<forall>r \<in> set routes. \<not> route_matches (swap_bytes (ipv4_u32 ip)) r
    | Some i \<Rightarrow> \<exists>r \<in> set routes. fst r = i \<and> route_matches (swap_bytes (ipv4_u32 ip)) r \<and>
        (\<forall>r' \<in> set routes. route_matches (swap_bytes (ipv4_u32 ip)) r' \<longrightarrow> prefix_len r' \<le> prefix_len r)"
proof -
  let ?t = "swap_bytes (ipv4_u32 ip)"
  have "best_of ?t {} None" by (simp add: best_of_def)
  from best_route_spec [OF assms(2) this] obtain best where
    b: "iface_for_ipv4 h ip = map_option snd best" "best_of ?t (set routes) best"
    using assms(1) by (auto simp: iface_for_ipv4_def)
  then show ?thesis by (auto simp: best_of_def split: option.splits)
qed

definition route_text :: string where
  "route_text = ''Iface Destination Gateway Flags RefCnt Use Metric Mask MTU Window IRTT
eth0 00000000 0101A8C0 0003 0 0 0 00000000 0 0 0
eth1 0000000A 00000000 0001 0 0 0 000000FF 0 0 0
eth2 0001000A 00000000 0001 0 0 0 00FFFFFF 0 0 0
''"

lemma route_text_lines:
  "drop 1 (lines route_text) =
    [''eth0 00000000 0101A8C0 0003 0 0 0 00000000 0 0 0'', ''eth1 0000000A 00000000 0001 0 0 0 000000FF 0 0 0'',
     ''eth2 0001000A 00000000 0001 0 0 0 00FFFFFF 0 0 0'']"
  by (simp add: lines_def route_text_def strip_cr_def)

lemma route_text_routes:
  "route_line ''eth0 00000000 0101A8C0 0003 0 0 0 00000000 0 0 0'' = Some (''eth0'', 0, 0)"
  "route_line ''eth1 0000000A 00000000 0001 0 0 0 000000FF 0 0 0'' = Some (''eth1'', 0x0A, 0xFF)"
  "route_line ''eth2 0001000A 00000000 0001 0 0 0 00FFFFFF 0 0 0'' = Some (''eth2'', 0x0001000A, 0x00FFFFFF)"
  by (simp_all add: route_line_def split_whitespace_def is_ws_def parse_hex_u32_def parse_hex_def parse_radix_def
    drop_plus_def hex_val_def Let_def)

lemma route_text_lookup:
  "iface_for_ipv4 (test_host (\<lambda>_. Some route_text) (\<lambda>_. None)) (Ipv4 10 0 1 9) = Some ''eth2''"
proof -
  have "count_ones 0 = 0" "count_ones 0xFF = 8" "count_ones 0x00FFFFFF = 24"
    by (simp_all add: count_ones_def upt_rec)
  moreover have "swap_bytes (ipv4_u32 (Ipv4 10 0 1 9)) = 0x0901000A" by (simp add: swap_bytes_def)
  ultimately show ?thesis
    by (simp add: iface_for_ipv4_def test_host_def route_text_lines route_text_routes del: ipv4_u32.simps One_nat_def)
qed

theorem route_lookup_longest_prefix_witness:
  "\<exists>r \<in> set [(''eth0'', 0, 0), (''eth1'', 0x0A, 0xFF), (''eth2'', 0x0001000A, 0x00FFFFFF)].
     fst r = ''eth2'' \<and> route_matches (swap_bytes (ipv4_u32 (Ipv4 10 0 1 9))) r"
proof -
  have f: "read_to_string (test_host (\<lambda>_. Some route_text) (\<lambda>_. None)) ''/proc/net/route'' = Some route_text"
    by (simp add: test_host_def)
  have r: "map route_line (drop 1 (lines route_text)) =
      map Some [(''eth0'', 0, 0), (''eth1'', 0x0A, 0xFF), (''eth2'', 0x0001000A, 0x00FFFFFF)]"
    unfolding route_text_lines by (simp add: route_text_routes)
  from route_lookup_longest_prefix [OF f r, of "Ipv4 10 0 1 9"] show ?thesis
    unfolding route_text_lookup option.case by blast
qed

end
