(* ===== verification/Xdp_Start.thy ===== *)
theory Xdp_Start
  imports Xdp_Split Interfaces "HOL-Library.AList"
begin

text \<open>
  Starting the AF\_XDP path (\<^verbatim>\<open>start_xdp_receive_path\<close>, \<^verbatim>\<open>do_start_xdp_receive_path\<close>, \<^verbatim>\<open>run_xdp_sender_worker\<close> and
  the configuration registry of \<^verbatim>\<open>src/transport/xdp/receiver.rs\<close>): which interface is bound, which
  threads are started on which queues and cores, and the rate each worker is given. Sockets are those of
  \<open>Umem_Rings\<close>; the outcome of every system call is a parameter.
\<close>

section \<open>The configuration registry\<close>

record unified_cfg =
  uc_pool :: wire_query_pool
  uc_max_out :: nat
  uc_total_qps :: u64
  uc_ramp :: bool

text \<open>The process-wide statics: the registry, the unified flag, the published TX queues, the core cursors.\<close>

record xdp_globals =
  g_cfgs :: "(string \<times> unified_cfg) list"
  g_unified :: bool
  g_tx_states :: "xdp_tx_state list option"
  g_cursor :: "nat list"

definition MAX_NUMA_NODES :: nat where "MAX_NUMA_NODES = 8"

definition globals_new :: xdp_globals where
  "globals_new = \<lparr>g_cfgs = [], g_unified = False, g_tx_states = None, g_cursor = replicate MAX_NUMA_NODES 0\<rparr>"

definition set_unified_cfg :: "string \<Rightarrow> unified_cfg \<Rightarrow> xdp_globals \<Rightarrow> xdp_globals" where
  "set_unified_cfg iface cfg g = g\<lparr>g_cfgs := AList.update iface cfg (g_cfgs g)\<rparr>"

definition unified_cfg_for :: "xdp_globals \<Rightarrow> string \<Rightarrow> unified_cfg option" where
  "unified_cfg_for g iface =
     (case map_of (g_cfgs g) iface of
        Some c \<Rightarrow> Some c
      | None \<Rightarrow> (case g_cfgs g of [(_, c)] \<Rightarrow> Some c | _ \<Rightarrow> None))"

section \<open>What the start reads\<close>

record start_env =
  se_vlan :: "string option"
  se_ifindex :: "string \<Rightarrow> bool"
  se_load :: bool
  se_ifaddrs :: "ifaddr list"
  se_arp :: "nat \<Rightarrow> string option"
  se_socket :: "nat \<Rightarrow> bool \<Rightarrow> xsk_env"
  se_register :: "nat \<Rightarrow> bool"
  se_spawn :: "nat \<Rightarrow> bool"
  se_area :: "nat \<Rightarrow> bytes"

datatype start_error =
  VirtualWithoutParent string | IfaceNotFound string | LoadFailed | SocketError nat xsk_error | RegisterFailed nat | SpawnFailed nat

definition bind_iface :: "host \<Rightarrow> start_env \<Rightarrow> string \<Rightarrow> string" where
  "bind_iface h e iface =
     (if vlan_from_env (se_vlan e) \<noteq> None
      then (case parent_interface h iface of Some p \<Rightarrow> p | None \<Rightarrow> iface)
      else iface)"

definition frame_hdr_opt :: "host \<Rightarrow> start_env \<Rightarrow> string \<Rightarrow> ip_addr \<Rightarrow> u16 \<Rightarrow> frame_header option" where
  "frame_hdr_opt h e addr_iface server server_port =
     (case server of
        V6 _ \<Rightarrow> None
      | V4 dst_ip \<Rightarrow>
          do { src_ip \<leftarrow> local_ipv4 (se_ifaddrs e) addr_iface;
               src_mac \<leftarrow> local_mac (read_to_string h) addr_iface;
               dst_mac \<leftarrow> fst (resolve_server_mac (se_arp e) dst_ip);
               frame_header_new (se_vlan e) src_mac dst_mac src_ip dst_ip 12345 server_port })"

definition core_pool :: "host \<Rightarrow> string \<Rightarrow> nat list" where
  "core_pool h iface =
     (let node = numa_node_for_iface h iface; phys = physical_cores_numa_sorted h node
      in if node \<noteq> None then filter (\<lambda>c. numa_node_for_cpu h c = node) phys else phys)"

definition worker_queues :: "host \<Rightarrow> string \<Rightarrow> nat" where
  "worker_queues h iface = max (min (get_rx_queue_count h iface) (length (core_pool h iface))) 1"

definition is_firehose :: "unified_cfg option \<Rightarrow> bool" where
  "is_firehose cfg = (case cfg of Some c \<Rightarrow> uc_max_out c = 0 | None \<Rightarrow> False)"

definition rss_queues :: "unified_cfg option \<Rightarrow> nat \<Rightarrow> nat" where
  "rss_queues cfg queues = (if is_firehose cfg then max queues 1 else 1)"

definition node_index :: "host \<Rightarrow> string \<Rightarrow> nat" where
  "node_index h iface =
     min (case numa_node_for_iface h iface of Some n \<Rightarrow> n | None \<Rightarrow> 0) (MAX_NUMA_NODES - 1)"

section \<open>The queue loop\<close>

text \<open>A started thread: a unified worker with its core, or a receiver with the CPU it is pinned to, if any.\<close>

datatype xdp_thread = UnifiedThread nat nat worker_cfg xsk_socket | ReceiverThread nat "nat option" xsk_socket

record start_state =
  ls_cursor :: nat
  ls_threads :: "xdp_thread list"
  ls_tx :: "xdp_tx_state list"
  ls_unified :: nat

definition open_queue :: "start_env \<Rightarrow> nat \<Rightarrow> start_error + xsk_socket" where
  "open_queue e q =
     (case fst (create_xsk_socket (se_socket e q True) {}) of
        Inr s \<Rightarrow> Inr s
      | Inl _ \<Rightarrow>
          (case fst (create_xsk_socket (se_socket e q False) {}) of
             Inr s \<Rightarrow> Inr s
           | Inl err \<Rightarrow> Inl (SocketError q err)))"

definition recv_cpu :: "nat list \<Rightarrow> nat \<Rightarrow> nat option" where
  "recv_cpu local_cpus q =
     (if 2 \<le> length local_cpus then
        let half = length local_cpus div 2 in Some (local_cpus ! (half + q mod half))
      else None)"

definition unified_worker_cfg :: "unified_cfg \<Rightarrow> frame_header \<Rightarrow> nat \<Rightarrow> nat \<Rightarrow> u64 \<Rightarrow> worker_cfg" where
  "unified_worker_cfg c hdr q queues timeout_ns =
     \<lparr>wc_hdr = hdr, wc_pool = uc_pool c, wc_id = q, wc_workers = queues, wc_max_out = uc_max_out c,
      wc_timeout = timeout_ns, wc_firehose = (uc_max_out c = 0), wc_track = uc_ramp c\<rparr>"

text \<open>One queue: the thread it gets and the state after; \<open>Inr None\<close> is the \<^verbatim>\<open>break\<close> when the cores are used up.\<close>

definition start_queue ::
  "start_env \<Rightarrow> nat list \<Rightarrow> nat list \<Rightarrow> unified_cfg option \<Rightarrow> frame_header option \<Rightarrow> nat \<Rightarrow> u64 \<Rightarrow>
   nat \<Rightarrow> start_state \<Rightarrow> (start_error + bool) \<times> start_state" where
  "start_queue e pool local_cpus cfg hdr queues timeout_ns q s =
     (let gi = ls_cursor s; s = s\<lparr>ls_cursor := gi + 1\<rparr>
      in if length pool \<le> gi then (Inr False, s)
         else
           (case open_queue e q of
              Inl err \<Rightarrow> (Inl err, s)
            | Inr sock \<Rightarrow>
                if \<not> se_register e q then (Inl (RegisterFailed q), s)
                else
                  (case (cfg, hdr) of
                     (Some c, Some hdr) \<Rightarrow>
                       let s = s\<lparr>ls_unified := ls_unified s + 1\<rparr>
                       in if \<not> se_spawn e q then (Inl (SpawnFailed q), s)
                          else (Inr True,
                            s\<lparr>ls_threads := ls_threads s @
                              [UnifiedThread q (pool ! gi) (unified_worker_cfg c hdr q queues timeout_ns) sock]\<rparr>)
                   | _ \<Rightarrow>
                       (case (case hdr of
                                None \<Rightarrow> (s, sock)
                              | Some hdr \<Rightarrow>
                                  (case extract_tx sock of
                                     ((tx, cq, free), sock) \<Rightarrow>
                                       (s\<lparr>ls_tx := ls_tx s @
                                          [\<lparr>xt_tx = tx, xt_comp = cq, xt_pool = free, xt_hdr = hdr, xt_area = se_area e q\<rparr>]\<rparr>,
                                        sock))) of
                          (s, sock) \<Rightarrow>
                            if \<not> se_spawn e q then (Inl (SpawnFailed q), s)
                            else (Inr True,
                              s\<lparr>ls_threads := ls_threads s @ [ReceiverThread q (recv_cpu local_cpus q) sock]\<rparr>)))))"

fun start_queues ::
  "start_env \<Rightarrow> nat list \<Rightarrow> nat list \<Rightarrow> unified_cfg option \<Rightarrow> frame_header option \<Rightarrow> nat \<Rightarrow> u64 \<Rightarrow>
   nat list \<Rightarrow> start_state \<Rightarrow> (start_error + unit) \<times> start_state" where
  "start_queues e pool local_cpus cfg hdr queues timeout_ns [] s = (Inr (), s)"
| "start_queues e pool local_cpus cfg hdr queues timeout_ns (q # qs) s =
     (case start_queue e pool local_cpus cfg hdr queues timeout_ns q s of
        (Inl err, s) \<Rightarrow> (Inl err, s)
      | (Inr False, s) \<Rightarrow> (Inr (), s)
      | (Inr True, s) \<Rightarrow> start_queues e pool local_cpus cfg hdr queues timeout_ns qs s)"

text \<open>The rate stored into \<^verbatim>\<open>qps_per_worker\<close>, when it is stored.\<close>

definition recalibrate :: "unified_cfg option \<Rightarrow> nat \<Rightarrow> u64 option" where
  "recalibrate cfg n =
     (case cfg of
        Some c \<Rightarrow> if 0 < n \<and> 0 < uc_total_qps c then Some (max (uc_total_qps c div of_nat n) 1) else None
      | None \<Rightarrow> None)"

record start_result =
  sr_threads :: "xdp_thread list"
  sr_rss :: nat
  sr_rate :: "u64 option"

definition do_start_xdp_receive_path ::
  "host \<Rightarrow> start_env \<Rightarrow> string \<Rightarrow> ip_addr \<Rightarrow> u16 \<Rightarrow> u64 \<Rightarrow> xdp_globals \<Rightarrow> (start_error + start_result) \<times> xdp_globals" where
  "do_start_xdp_receive_path h e addr_iface server server_port timeout_ns g =
     (let iface = bind_iface h e addr_iface
      in if \<not> se_ifindex e iface then (Inl (IfaceNotFound iface), g)
         else if \<not> se_load e then (Inl LoadFailed, g)
         else
           let hdr = frame_hdr_opt h e addr_iface server server_port;
               pool = core_pool h iface;
               queues = worker_queues h iface;
               cfg = unified_cfg_for g iface;
               node = node_index h iface
           in (case start_queues e pool (nic_local_logical_cpus h iface) cfg hdr queues timeout_ns [0..<queues]
                      \<lparr>ls_cursor = g_cursor g ! node, ls_threads = [], ls_tx = [], ls_unified = 0\<rparr> of
                 (r, s) \<Rightarrow>
                   let g = g\<lparr>g_cursor := (g_cursor g)[node := ls_cursor s], g_unified := g_unified g \<or> 0 < ls_unified s\<rparr>
                   in (case r of
                         Inl err \<Rightarrow> (Inl err, g)
                       | Inr _ \<Rightarrow>
                           (Inr \<lparr>sr_threads = ls_threads s, sr_rss = rss_queues cfg queues, sr_rate = recalibrate cfg (ls_unified s)\<rparr>,
                            if ls_tx s \<noteq> [] \<and> g_tx_states g = None then g\<lparr>g_tx_states := Some (ls_tx s)\<rparr> else g))))"

definition start_xdp_receive_path ::
  "host \<Rightarrow> start_env \<Rightarrow> string \<Rightarrow> ip_addr \<Rightarrow> u16 \<Rightarrow> u64 \<Rightarrow> xdp_globals \<Rightarrow> (start_error + start_result) \<times> xdp_globals" where
  "start_xdp_receive_path h e iface server server_port timeout_ns g =
     (if is_virtual_interface h iface then
        (case parent_interface h iface of
           Some parent \<Rightarrow> do_start_xdp_receive_path h e parent server server_port timeout_ns g
         | None \<Rightarrow> (Inl (VirtualWithoutParent iface), g))
      else do_start_xdp_receive_path h e iface server server_port timeout_ns g)"

section \<open>What an engine sender task becomes\<close>

datatype sender_role = NothingToDo | XdpTxSender nat | UdpSender | SenderFailed

definition run_xdp_sender_worker :: "xdp_globals \<Rightarrow> string option \<Rightarrow> bool \<Rightarrow> bool \<Rightarrow> nat \<Rightarrow> sender_role" where
  "run_xdp_sender_worker g xdp_tx_env bind_ok connect_ok worker_id =
     (if g_unified g then NothingToDo
      else
        let use_xdp_tx = (case xdp_tx_env of Some v \<Rightarrow> v \<noteq> ''0'' | None \<Rightarrow> True)
        in if use_xdp_tx \<and> g_tx_states g \<noteq> None \<and> the (g_tx_states g) \<noteq> []
           then XdpTxSender (worker_id mod length (the (g_tx_states g)))
           else if bind_ok \<and> connect_ok then UdpSender else SenderFailed)"

section \<open>The threads of a start\<close>

definition unified_cores :: "xdp_thread list \<Rightarrow> nat list" where
  "unified_cores ts = concat (map (\<lambda>t. case t of UnifiedThread q c w k \<Rightarrow> [c] | ReceiverThread q c k \<Rightarrow> []) ts)"

lemma unified_cores_simps [simp]:
  "unified_cores [] = []" "unified_cores (ts @ us) = unified_cores ts @ unified_cores us"
  "unified_cores [UnifiedThread q c w k] = [c]" "unified_cores [ReceiverThread q d k] = []"
  by (simp_all add: unified_cores_def)

text \<open>The cores used since \<open>s\<close> are cores of the pool between the two positions of the cursor.\<close>

definition cores_since :: "nat list \<Rightarrow> start_state \<Rightarrow> start_state \<Rightarrow> bool" where
  "cores_since pool s s' \<longleftrightarrow> ls_cursor s \<le> ls_cursor s' \<and>
     (\<exists>new is. unified_cores (ls_threads s') = unified_cores (ls_threads s) @ new \<and> new = map ((!) pool) is \<and>
        sorted_wrt (<) is \<and> set is \<subseteq> {ls_cursor s..<min (ls_cursor s') (length pool)})"

lemma cores_since_refl: "cores_since pool s s"
  unfolding cores_since_def by (auto intro!: exI [of _ "[]"])

lemma cores_since_trans:
  assumes "cores_since pool a b" "cores_since pool b c"
  shows "cores_since pool a c"
proof -
  obtain i where i: "unified_cores (ls_threads b) = unified_cores (ls_threads a) @ map ((!) pool) i" "sorted_wrt (<) i"
    "set i \<subseteq> {ls_cursor a..<min (ls_cursor b) (length pool)}" using assms(1) unfolding cores_since_def by blast
  obtain j where j: "unified_cores (ls_threads c) = unified_cores (ls_threads b) @ map ((!) pool) j" "sorted_wrt (<) j"
    "set j \<subseteq> {ls_cursor b..<min (ls_cursor c) (length pool)}" using assms(2) unfolding cores_since_def by blast
  have "sorted_wrt (<) (i @ j)" using i j by (fastforce simp: sorted_wrt_append)
  moreover have "set (i @ j) \<subseteq> {ls_cursor a..<min (ls_cursor c) (length pool)}"
    using i(3) j(3) assms unfolding cores_since_def by fastforce
  ultimately show ?thesis using i(1) j(1) assms unfolding cores_since_def
    by (intro conjI exI [of _ "map ((!) pool) (i @ j)"] exI [of _ "i @ j"]) auto
qed

lemma start_queue_cores:
  assumes "start_queue e pool local cfg hdr n to q s = (r, s')"
  shows "cores_since pool s s'"
  unfolding cores_since_def
proof (intro conjI)
  show "ls_cursor s \<le> ls_cursor s'"
    using assms by (auto simp: start_queue_def Let_def split: if_splits sum.splits option.splits prod.splits)
  have "unified_cores (ls_threads s') = unified_cores (ls_threads s) \<or>
      unified_cores (ls_threads s') = unified_cores (ls_threads s) @ [pool ! ls_cursor s] \<and>
      ls_cursor s < length pool \<and> ls_cursor s < ls_cursor s'"
    using assms by (auto simp: start_queue_def Let_def split: if_splits sum.splits option.splits prod.splits)
  then show "\<exists>new is. unified_cores (ls_threads s') = unified_cores (ls_threads s) @ new \<and> new = map ((!) pool) is \<and>
      sorted_wrt (<) is \<and> set is \<subseteq> {ls_cursor s..<min (ls_cursor s') (length pool)}"
    by (elim disjE) (auto intro: exI [of _ "[]"] exI [of _ "[ls_cursor s]"])
qed

lemma start_queues_cores:
  "start_queues e pool local cfg hdr n to qs s = (r, s') \<Longrightarrow> cores_since pool s s'"
proof (induction qs arbitrary: s)
  case (Cons q qs)
  obtain r1 s1 where q: "start_queue e pool local cfg hdr n to q s = (r1, s1)" by fastforce
  note one = start_queue_cores [OF q]
  show ?case
  proof (cases "r1 = Inr True")
    case True
    then have "start_queues e pool local cfg hdr n to qs s1 = (r, s')" using Cons.prems q by simp
    from cores_since_trans [OF one Cons.IH [OF this]] show ?thesis .
  next
    case False
    then have "s' = s1" using Cons.prems q by (auto split: sum.splits bool.splits)
    then show ?thesis using one by simp
  qed
qed (simp add: cores_since_refl)

text \<open>The number of unified workers is the number the rate is divided by.\<close>

lemma start_queue_count:
  assumes "start_queue e pool local cfg hdr n to q s = (Inr b, s')" "length (unified_cores (ls_threads s)) = ls_unified s"
  shows "length (unified_cores (ls_threads s')) = ls_unified s'"
  using assms by (auto simp: start_queue_def Let_def split: if_splits sum.splits option.splits prod.splits)

lemma start_queues_count:
  "start_queues e pool local cfg hdr n to qs s = (Inr u, s') \<Longrightarrow> length (unified_cores (ls_threads s)) = ls_unified s \<Longrightarrow>
     length (unified_cores (ls_threads s')) = ls_unified s'"
proof (induction qs arbitrary: s)
  case (Cons q qs)
  obtain r1 s1 where q: "start_queue e pool local cfg hdr n to q s = (r1, s1)" by fastforce
  show ?case
  proof (cases r1)
    case (Inr b)
    note c = start_queue_count [OF q [unfolded Inr] Cons.prems(2)]
    show ?thesis using Cons.IH [of s1] c Cons.prems(1) q Inr by (cases b) auto
  qed (use Cons.prems q in simp)
qed simp

lemma no_config_no_unified:
  "start_queues e pool local None hdr n to qs s = (r, s') \<Longrightarrow>
     unified_cores (ls_threads s') = unified_cores (ls_threads s) \<and> ls_unified s' = ls_unified s"
proof (induction qs arbitrary: s)
  case (Cons q qs)
  obtain r1 s1 where q: "start_queue e pool local None hdr n to q s = (r1, s1)" by fastforce
  have "unified_cores (ls_threads s1) = unified_cores (ls_threads s) \<and> ls_unified s1 = ls_unified s"
    using q by (auto simp: start_queue_def Let_def split: if_splits sum.splits option.splits prod.splits)
  then show ?case
    using Cons.IH [of s1] Cons.prems q by (cases r1) (auto split: bool.splits)
qed simp

lemma do_start_ok:
  assumes "do_start_xdp_receive_path h e addr server port to g = (Inr r, g')"
  obtains s cfg where "cfg = unified_cfg_for g (bind_iface h e addr)"
    "start_queues e (core_pool h (bind_iface h e addr)) (nic_local_logical_cpus h (bind_iface h e addr)) cfg
       (frame_hdr_opt h e addr server port) (worker_queues h (bind_iface h e addr)) to [0..<worker_queues h (bind_iface h e addr)]
       \<lparr>ls_cursor = g_cursor g ! node_index h (bind_iface h e addr), ls_threads = [], ls_tx = [], ls_unified = 0\<rparr> = (Inr (), s)"
    "sr_threads r = ls_threads s" "sr_rate r = recalibrate cfg (ls_unified s)"
    "g_cursor g' = (g_cursor g)[node_index h (bind_iface h e addr) := ls_cursor s]"
    "g_unified g' \<longleftrightarrow> g_unified g \<or> 0 < ls_unified s" "g_cfgs g' = g_cfgs g"
proof -
  let ?i = "bind_iface h e addr" and ?cfg = "unified_cfg_for g (bind_iface h e addr)"
  obtain x s where q: "start_queues e (core_pool h ?i) (nic_local_logical_cpus h ?i) ?cfg
       (frame_hdr_opt h e addr server port) (worker_queues h ?i) to [0..<worker_queues h ?i]
       \<lparr>ls_cursor = g_cursor g ! node_index h ?i, ls_threads = [], ls_tx = [], ls_unified = 0\<rparr> = (x, s)" by fastforce
  have x: "x = Inr ()"
    using assms q by (cases x) (auto simp: do_start_xdp_receive_path_def Let_def split: if_splits)
  show ?thesis
    using assms q unfolding x
    by (intro that [OF refl q [unfolded x]]) (auto simp: do_start_xdp_receive_path_def Let_def split: if_splits)
qed

lemma physical_cores_distinct: "distinct (physical_cores h)"
proof -
  have "distinct (first_of_core key [] cpus)" for key :: "nat \<Rightarrow> (nat \<times> nat) option" and cpus
    using first_of_core_spec [of key "[]" cpus] by (simp add: distinct_map)
  then show ?thesis by (simp add: physical_cores_def Let_def split: option.split)
qed

lemma core_pool_facts:
  assumes "numa_node_for_iface h iface = Some n"
  shows "distinct (core_pool h iface)" "c \<in> set (core_pool h iface) \<Longrightarrow> numa_node_for_cpu h c = Some n"
    "core_pool h iface = filter (\<lambda>c. numa_node_for_cpu h c = Some n) (physical_cores h)"
proof -
  show p: "core_pool h iface = filter (\<lambda>c. numa_node_for_cpu h c = Some n) (physical_cores h)"
    using assms by (simp add: core_pool_def physical_cores_numa_sorted_def Let_def)
  show "distinct (core_pool h iface)" "c \<in> set (core_pool h iface) \<Longrightarrow> numa_node_for_cpu h c = Some n"
    unfolding p using physical_cores_distinct by auto
qed

text \<open>A successful start uses pool cores between the old and the new position of its node's cursor.\<close>

lemma do_start_cores:
  assumes "do_start_xdp_receive_path h e addr server port to g = (Inr r, g')"
  shows "\<exists>is. unified_cores (sr_threads r) = map ((!) (core_pool h (bind_iface h e addr))) is \<and> sorted_wrt (<) is \<and>
    set is \<subseteq> {g_cursor g ! node_index h (bind_iface h e addr)..<length (core_pool h (bind_iface h e addr))} \<and>
    (\<forall>i \<in> set is. node_index h (bind_iface h e addr) < length (g_cursor g) \<longrightarrow>
       i < g_cursor g' ! node_index h (bind_iface h e addr))"
proof -
  obtain s cfg where q: "start_queues e (core_pool h (bind_iface h e addr)) (nic_local_logical_cpus h (bind_iface h e addr)) cfg
       (frame_hdr_opt h e addr server port) (worker_queues h (bind_iface h e addr)) to [0..<worker_queues h (bind_iface h e addr)]
       \<lparr>ls_cursor = g_cursor g ! node_index h (bind_iface h e addr), ls_threads = [], ls_tx = [], ls_unified = 0\<rparr> = (Inr (), s)"
    and t: "sr_threads r = ls_threads s" "g_cursor g' = (g_cursor g)[node_index h (bind_iface h e addr) := ls_cursor s]"
    by (rule do_start_ok [OF assms]) blast
  from start_queues_cores [OF q] obtain "is" where
    "unified_cores (ls_threads s) = map ((!) (core_pool h (bind_iface h e addr))) is" "sorted_wrt (<) is"
    "set is \<subseteq> {g_cursor g ! node_index h (bind_iface h e addr)..<min (ls_cursor s) (length (core_pool h (bind_iface h e addr)))}"
    unfolding cores_since_def by auto
  then show ?thesis using t by (intro exI [of _ "is"]) auto
qed

lemma shares_bound:
  fixes n T :: nat
  assumes "0 < n"
  shows "n * max (T div n) 1 \<le> max T n \<and> T < n * (max (T div n) 1 + 1)"
proof (cases "T < n")
  case False
  then have "1 \<le> T div n" using assms by (simp add: Suc_le_eq div_greater_zero_iff)
  then have m: "max (T div n) 1 = T div n" by simp
  have "n * (T div n) + T mod n = T" "T mod n < n" using assms by simp_all
  then have "n * (T div n) \<le> T" "T < n * (T div n + 1)" by (simp_all only: distrib_left mult_1_right)
  then show ?thesis unfolding m by (intro conjI order_trans [OF _ max.cobounded1])
qed simp

section \<open>Properties\<close>

text \<open>C12: No two AF\_XDP workers share a core: when two network cards whose NUMA nodes are known are started one
  after the other, on the same node or on different ones, the cores of all unified workers are
  pairwise different, and each is a physical core of its card's own node.\<close>

theorem xdp_workers_on_distinct_cores:
  assumes "do_start_xdp_receive_path h e1 a1 server1 port1 to1 g = (Inr r1, g1)"
    and "do_start_xdp_receive_path h e2 a2 server2 port2 to2 g1 = (Inr r2, g2)"
    and "numa_node_for_iface h (bind_iface h e1 a1) = Some n1" "numa_node_for_iface h (bind_iface h e2 a2) = Some n2"
    and "length (g_cursor g) = MAX_NUMA_NODES"
  shows "distinct (unified_cores (sr_threads r1) @ unified_cores (sr_threads r2)) \<and>
    (\<forall>c \<in> set (unified_cores (sr_threads r1)). numa_node_for_cpu h c = Some n1) \<and>
    (\<forall>c \<in> set (unified_cores (sr_threads r2)). numa_node_for_cpu h c = Some n2)"
proof -
  let ?p1 = "core_pool h (bind_iface h e1 a1)" and ?p2 = "core_pool h (bind_iface h e2 a2)"
  let ?n1 = "node_index h (bind_iface h e1 a1)" and ?n2 = "node_index h (bind_iface h e2 a2)"
  obtain i where i: "unified_cores (sr_threads r1) = map ((!) ?p1) i" "sorted_wrt (<) i" "set i \<subseteq> {..<length ?p1}"
    "\<forall>k \<in> set i. ?n1 < length (g_cursor g) \<longrightarrow> k < g_cursor g1 ! ?n1" using do_start_cores [OF assms(1)] by (elim exE conjE) (rule that, auto)
  obtain j where j: "unified_cores (sr_threads r2) = map ((!) ?p2) j" "sorted_wrt (<) j"
    "set j \<subseteq> {g_cursor g1 ! ?n2..<length ?p2}" using do_start_cores [OF assms(2)] by (elim exE conjE) (rule that, auto)
  note p1 = core_pool_facts [OF assms(3)] and p2 = core_pool_facts [OF assms(4)]
  have node: "\<forall>c \<in> set (unified_cores (sr_threads r1)). numa_node_for_cpu h c = Some n1"
    "\<forall>c \<in> set (unified_cores (sr_threads r2)). numa_node_for_cpu h c = Some n2"
    using i(1,3) j(1,3) p1(2) p2(2) by fastforce+
  have di: "distinct (map ((!) ?p1) i)" "distinct (map ((!) ?p2) j)"
    using i j p1(1) p2(1) by (auto simp: distinct_map inj_on_def nth_eq_iff_index_eq strict_sorted_iff subset_iff)
  have "set (map ((!) ?p1) i) \<inter> set (map ((!) ?p2) j) = {}"
  proof (cases "n1 = n2")
    case True
    then have same: "?p1 = ?p2" "?n1 = ?n2" using p1(3) p2(3) assms(3,4) by (simp_all add: node_index_def)
    have "?n1 < length (g_cursor g)" unfolding assms(5) by (simp add: node_index_def MAX_NUMA_NODES_def)
    then have "\<forall>k \<in> set i. \<forall>l \<in> set j. k < l" using i(4) j(3) same(2) by fastforce
    then show ?thesis using i(3) j(3) same(1) p2(1) by (auto simp: nth_eq_iff_index_eq subset_iff)
  next
    case False
    then show ?thesis using node i(1) j(1) by fastforce
  qed
  then show ?thesis using node di i(1) j(1) by simp
qed

text \<open>The rate is divided among the workers that were really started: when a start stores a per-worker rate,
  the workers it started, each sending at that rate, offer at most the requested total (or one query per
  second each, if fewer were requested than there are workers) and fall short of it by less than one
  query per second per worker.\<close>

theorem recalibrated_rate_matches_total:
  assumes "do_start_xdp_receive_path h e addr server port to g = (Inr r, g')"
    and "sr_rate r = Some rate" "unified_cfg_for g (bind_iface h e addr) = Some c"
    and "length (unified_cores (sr_threads r)) < 2 ^ 64"
  shows "length (unified_cores (sr_threads r)) * unat rate
      \<le> max (unat (uc_total_qps c)) (length (unified_cores (sr_threads r))) \<and>
    unat (uc_total_qps c) < length (unified_cores (sr_threads r)) * (unat rate + 1)"
proof -
  obtain s cfg where cfg: "cfg = unified_cfg_for g (bind_iface h e addr)"
    and q: "start_queues e (core_pool h (bind_iface h e addr)) (nic_local_logical_cpus h (bind_iface h e addr)) cfg
       (frame_hdr_opt h e addr server port) (worker_queues h (bind_iface h e addr)) to [0..<worker_queues h (bind_iface h e addr)]
       \<lparr>ls_cursor = g_cursor g ! node_index h (bind_iface h e addr), ls_threads = [], ls_tx = [], ls_unified = 0\<rparr> = (Inr (), s)"
    and t: "sr_threads r = ls_threads s" "sr_rate r = recalibrate cfg (ls_unified s)"
    by (rule do_start_ok [OF assms(1)]) blast
  let ?n = "length (unified_cores (sr_threads r))"
  have n: "ls_unified s = ?n" using start_queues_count [OF q] t(1) by simp
  have pos: "0 < ?n" and rate: "rate = max (uc_total_qps c div of_nat ?n) 1"
    using assms(2,3) cfg t(2) n by (auto simp: recalibrate_def split: if_splits)
  have "unat (of_nat ?n :: u64) = ?n" using assms(4) by (simp add: unat_of_nat)
  then have "unat rate = max (unat (uc_total_qps c) div ?n) 1"
    unfolding rate by (simp add: max_def word_le_nat_alt unat_div)
  then show ?thesis using shares_bound [OF pos] by simp
qed

text \<open>C34: Interface renaming with several cards: the registry finds a sole configuration under any name, but with
  two entries a card bound under another name than the one it was registered with (a virtual interface
  replaced by its parent, or the parent of a VLAN) gets no unified worker; and since the other card has
  set the unified flag, none of the engine's sender tasks sends for it either.\<close>

theorem renamed_card_never_sends:
  assumes "do_start_xdp_receive_path h e addr server port to g = (Inr r, g')" "g_unified g"
    and "map_of (g_cfgs g) (bind_iface h e addr) = None" "2 \<le> length (g_cfgs g)"
  shows "unified_cores (sr_threads r) = [] \<and> run_xdp_sender_worker g' env b k w = NothingToDo \<and>
    (\<forall>iface' c. unified_cfg_for (set_unified_cfg iface' c globals_new) iface = Some c)"
proof -
  obtain s cfg where cfg: "cfg = unified_cfg_for g (bind_iface h e addr)"
    and q: "start_queues e (core_pool h (bind_iface h e addr)) (nic_local_logical_cpus h (bind_iface h e addr)) cfg
       (frame_hdr_opt h e addr server port) (worker_queues h (bind_iface h e addr)) to [0..<worker_queues h (bind_iface h e addr)]
       \<lparr>ls_cursor = g_cursor g ! node_index h (bind_iface h e addr), ls_threads = [], ls_tx = [], ls_unified = 0\<rparr> = (Inr (), s)"
    and t: "sr_threads r = ls_threads s" "g_unified g' \<longleftrightarrow> g_unified g \<or> 0 < ls_unified s"
    by (rule do_start_ok [OF assms(1)]) (rule that, assumption+)
  have none: "cfg = None"
    unfolding cfg unified_cfg_for_def using assms(3,4) by (cases "g_cfgs g" rule: remdups_adj.cases) simp_all
  have "unified_cores (sr_threads r) = []" using no_config_no_unified [OF q [unfolded none]] t(1) by simp
  moreover have "run_xdp_sender_worker g' env b k w = NothingToDo"
    using t(2) assms(2) by (simp add: run_xdp_sender_worker_def)
  ultimately show ?thesis by (simp add: unified_cfg_for_def set_unified_cfg_def globals_new_def)
qed

section \<open>Concrete starts\<close>

text \<open>A host with two cores on node 0 and a card with one queue.\<close>

definition start_host :: host where
  "start_host = test_host
     (\<lambda>path. Some (if path = ''/sys/class/net/eth0/address'' then ''00:11:22:33:44:55''
                   else if path = ''/sys/devices/system/cpu/cpu1/topology/core_id'' then ''1'' else ''0''))
     (\<lambda>_. Some [Some ''cpu0'', Some ''cpu1'', Some ''node0''])"

definition arp_text :: string where
  "arp_text = ''IP HW Flags MAC Mask Device
10.8.0.1 0x1 0x2 aa:bb:cc:dd:ee:ff * eth0
''"

definition start_ok :: start_env where
  "start_ok = \<lparr>se_vlan = None, se_ifindex = (\<lambda>_. True), se_load = True, se_ifaddrs = [(''eth0'', Some (Inet (Ipv4 10 8 0 2)))],
     se_arp = (\<lambda>_. Some arp_text), se_socket = (\<lambda>_ _. all_ok), se_register = (\<lambda>_. True), se_spawn = (\<lambda>_. True),
     se_area = (\<lambda>_. [])\<rparr>"

lemma start_host_pool:
  "numa_node_for_iface start_host ''eth0'' = Some 0" "core_pool start_host ''eth0'' = [0, 1]"
proof -
  show n: "numa_node_for_iface start_host ''eth0'' = Some 0"
    by (simp add: numa_node_for_iface_def start_host_def test_host_def trim_def trim_start_matches_def trim_end_matches_def
      is_ws_def parse_signed_def parse_unsigned_def parse_radix_def drop_plus_def dec_val_def is_digit_def)
  have node: "numa_node_for_cpu start_host c = Some 0" for c
    by (simp add: numa_node_for_cpu_def start_host_def test_host_def parse_unsigned_def parse_radix_def drop_plus_def
      dec_val_def is_digit_def)
  have key: "core_key start_host 0 = Some (0, 0)" "core_key start_host 1 = Some (0, 1)"
    by (simp_all add: core_key_def read_topo_def start_host_def test_host_def nat_to_string.simps dec_digit_def char_of_def
      parse_unsigned_def parse_radix_def drop_plus_def dec_val_def is_digit_def trim_def trim_start_matches_def
      trim_end_matches_def is_ws_def bit_Suc_0_iff)
  have "cpu_dir_id ''node0'' = None" by (simp add: cpu_dir_id_def)
  moreover have d: "read_dir start_host path = Some [Some ''cpu0'', Some ''cpu1'', Some ''node0'']" for path
    by (simp add: start_host_def test_host_def)
  ultimately have "physical_cores start_host = [0, 1]"
    by (simp add: physical_cores_def filter_map_def flatten_opt_def smt_host_eval key del: One_nat_def)
  then show "core_pool start_host ''eth0'' = [0, 1]" unfolding core_pool_facts(3) [OF n] by (simp add: node)
qed

lemma start_host_hdr: "\<exists>hdr. frame_hdr_opt start_host start_ok ''eth0'' (V4 (Ipv4 10 8 0 1)) 53 = Some hdr"
proof -
  have t: "ipv4_to_string (Ipv4 10 8 0 1) = ''10.8.0.1''"
    by (simp add: nat_to_string.simps dec_digit_def char_of_def bit_Suc_0_iff)
  have "drop 1 (lines arp_text) = [''10.8.0.1 0x1 0x2 aa:bb:cc:dd:ee:ff * eth0'']"
    by (simp add: lines_def arp_text_def strip_cr_def)
  then have "fst (resolve_server_mac (se_arp start_ok) (Ipv4 10 8 0 1)) \<noteq> None"
    unfolding resolve_server_mac_def lookup_arp_def t
    by (simp add: start_ok_def split_whitespace_def is_ws_def parse_mac_def parse_hex_def parse_radix_def
      drop_plus_def hex_val_def Let_def)
  moreover have "local_mac (read_to_string start_host) ''eth0'' \<noteq> None"
    by (simp add: local_mac_def start_host_def test_host_def parse_mac_def parse_hex_def parse_radix_def
      drop_plus_def hex_val_def Let_def trim_def trim_start_matches_def trim_end_matches_def is_ws_def)
  ultimately show ?thesis
    by (auto simp: frame_hdr_opt_def start_ok_def frame_header_new_def new_with_vlan_eq)
qed

lemma start_host_starts:
  assumes "g_cursor g = k # ks" "k < 2"
  shows "\<exists>r g'. do_start_xdp_receive_path start_host start_ok ''eth0'' (V4 (Ipv4 10 8 0 1)) 53 to g = (Inr r, g') \<and>
    sr_rate r = recalibrate (unified_cfg_for g ''eth0'') (length (unified_cores (sr_threads r))) \<and>
    unified_cores (sr_threads r) = (if unified_cfg_for g ''eth0'' = None then [] else [k]) \<and>
    g_cursor g' = Suc k # ks \<and> g_cfgs g' = g_cfgs g"
proof -
  obtain hdr where hdr: "frame_hdr_opt start_host start_ok ''eth0'' (V4 (Ipv4 10 8 0 1)) 53 = Some hdr"
    using start_host_hdr by blast
  obtain sock live where c: "create_xsk_socket all_ok {} = (Inr sock, live)" by (rule all_ok_socket)
  have b: "bind_iface start_host start_ok ''eth0'' = ''eth0''" by (simp add: bind_iface_def start_ok_def vlan_from_env_def)
  have "get_rx_queue_count start_host ''eth0'' = 1"
    by (simp add: get_rx_queue_count_def queue_count_def start_host_def test_host_def flatten_opt_def starts_with_def)
  then have q: "worker_queues start_host ''eth0'' = 1" by (simp add: worker_queues_def start_host_pool)
  have n: "node_index start_host ''eth0'' = 0" by (simp add: node_index_def start_host_pool)
  have o: "open_queue start_ok q = Inr sock" for q by (simp add: open_queue_def start_ok_def c)
  have e: "se_ifindex start_ok i" "se_load start_ok" "se_register start_ok j" "se_spawn start_ok j" for i j
    by (simp_all add: start_ok_def)
  have pk: "[0, Suc 0] ! k = k" using assms(2) by (auto simp: less_2_cases_iff)
  obtain tx cq free k' where x: "extract_tx sock = ((tx, cq, free), k')" by (metis surj_pair)
  show ?thesis
  proof (cases "unified_cfg_for g ''eth0''")
    case None
    then show ?thesis using assms
      by (simp add: do_start_xdp_receive_path_def b q n hdr start_host_pool start_queue_def o e x recalibrate_def Let_def)
  next
    case (Some u)
    then show ?thesis using assms
      by (simp add: do_start_xdp_receive_path_def b q n hdr start_host_pool start_queue_def o e pk Let_def)
  qed
qed

definition test_cfg :: unified_cfg where
  "test_cfg = \<lparr>uc_pool = wc_pool test_worker, uc_max_out = 0, uc_total_qps = 1000, uc_ramp = False\<rparr>"

lemma globals_cursor: "g_cursor (set_unified_cfg i c globals_new) = 0 # replicate 7 0"
  by (simp add: set_unified_cfg_def globals_new_def MAX_NUMA_NODES_def numeral_eq_Suc)

lemma globals_cfg: "unified_cfg_for (set_unified_cfg i c globals_new) j = Some c"
  by (simp add: unified_cfg_for_def set_unified_cfg_def globals_new_def)

theorem xdp_workers_on_distinct_cores_witness:
  "\<exists>r1 g1 r2 g2.
     do_start_xdp_receive_path start_host start_ok ''eth0'' (V4 (Ipv4 10 8 0 1)) 53 1 (set_unified_cfg ''eth0'' test_cfg globals_new) =
       (Inr r1, g1) \<and>
     do_start_xdp_receive_path start_host start_ok ''eth0'' (V4 (Ipv4 10 8 0 1)) 53 1 g1 = (Inr r2, g2) \<and>
     unified_cores (sr_threads r1) = [0] \<and> unified_cores (sr_threads r2) = [1] \<and>
     distinct (unified_cores (sr_threads r1) @ unified_cores (sr_threads r2))"
proof -
  let ?g = "set_unified_cfg ''eth0'' test_cfg globals_new"
  obtain r1 g1 where 1: "do_start_xdp_receive_path start_host start_ok ''eth0'' (V4 (Ipv4 10 8 0 1)) 53 1 ?g = (Inr r1, g1)"
    "unified_cores (sr_threads r1) = [0]" "g_cursor g1 = 1 # replicate 7 0" "g_cfgs g1 = g_cfgs ?g"
    using start_host_starts [OF globals_cursor [of "''eth0''" test_cfg], of 1] by (auto simp: globals_cfg)
  have cfg: "unified_cfg_for g1 ''eth0'' = Some test_cfg"
    using globals_cfg [of "''eth0''" test_cfg "''eth0''"] unfolding unified_cfg_for_def 1(4) .
  obtain r2 g2 where 2: "do_start_xdp_receive_path start_host start_ok ''eth0'' (V4 (Ipv4 10 8 0 1)) 53 1 g1 = (Inr r2, g2)"
    "unified_cores (sr_threads r2) = [1]" using start_host_starts [OF 1(3), of 1] cfg by auto
  have n: "numa_node_for_iface start_host (bind_iface start_host start_ok ''eth0'') = Some 0"
    by (simp add: bind_iface_def start_ok_def vlan_from_env_def start_host_pool)
  have "length (g_cursor ?g) = MAX_NUMA_NODES" by (simp add: globals_cursor MAX_NUMA_NODES_def)
  from xdp_workers_on_distinct_cores [OF 1(1) 2(1) n n this] 1 2 show ?thesis by blast
qed

theorem recalibrated_rate_matches_total_witness:
  "\<exists>r g' rate. do_start_xdp_receive_path start_host start_ok ''eth0'' (V4 (Ipv4 10 8 0 1)) 53 1
       (set_unified_cfg ''eth0'' test_cfg globals_new) = (Inr r, g') \<and> sr_rate r = Some rate \<and>
     unat rate \<le> 1000 \<and> 1000 < unat rate + 1"
proof -
  let ?g = "set_unified_cfg ''eth0'' test_cfg globals_new"
  obtain r g' where 1: "do_start_xdp_receive_path start_host start_ok ''eth0'' (V4 (Ipv4 10 8 0 1)) 53 1 ?g = (Inr r, g')"
    "unified_cores (sr_threads r) = [0]" "sr_rate r = recalibrate (Some test_cfg) 1"
    using start_host_starts [OF globals_cursor [of "''eth0''" test_cfg], of 1] by (auto simp: globals_cfg)
  obtain rate where rate: "sr_rate r = Some rate" using 1(3) by (simp add: recalibrate_def test_cfg_def)
  from recalibrated_rate_matches_total [OF 1(1) rate globals_cfg] rate 1 show ?thesis by (auto simp: test_cfg_def)
qed

theorem renamed_card_never_sends_witness:
  "let g = (set_unified_cfg ''vmbr1'' test_cfg (set_unified_cfg ''vmbr0'' test_cfg globals_new))\<lparr>g_unified := True\<rparr> in
   \<exists>r g'. do_start_xdp_receive_path start_host start_ok ''eth0'' (V4 (Ipv4 10 8 0 1)) 53 1 g = (Inr r, g') \<and>
     unified_cores (sr_threads r) = [] \<and> run_xdp_sender_worker g' None True True 0 = NothingToDo"
proof -
  define g where "g = (set_unified_cfg ''vmbr1'' test_cfg (set_unified_cfg ''vmbr0'' test_cfg globals_new))\<lparr>g_unified := True\<rparr>"
  have c: "g_cursor g = 0 # replicate 7 0" using globals_cursor [of "''vmbr0''" test_cfg]
    by (simp add: g_def set_unified_cfg_def)
  have b: "bind_iface start_host start_ok ''eth0'' = ''eth0''" by (simp add: bind_iface_def start_ok_def vlan_from_env_def)
  have cfgs: "map_of (g_cfgs g) (bind_iface start_host start_ok ''eth0'') = None" "2 \<le> length (g_cfgs g)" "g_unified g"
    unfolding b by (simp_all add: g_def set_unified_cfg_def globals_new_def)
  obtain r g' where 1: "do_start_xdp_receive_path start_host start_ok ''eth0'' (V4 (Ipv4 10 8 0 1)) 53 1 g = (Inr r, g')"
    using start_host_starts [OF c, of 1] by auto
  from renamed_card_never_sends [OF 1 cfgs(3,1,2)] 1 show ?thesis unfolding g_def [symmetric] Let_def by blast
qed

end
