(* ===== verification/Config.thy ===== *)
theory Config
  imports Interfaces
begin

text \<open>
  The command line and the run configuration (\<^verbatim>\<open>src/main.rs\<close>, \<^verbatim>\<open>src/config.rs\<close>): from the parsed options,
  which the argument parser provides, to the checked configuration and the choice of the run mode.
\<close>

section \<open>Protocols\<close>

datatype protocol = Udp | Tcp | Dot

definition protocol_from_str :: "string \<Rightarrow> protocol option" where
  "protocol_from_str s =
     (let l = to_lowercase s
      in if l = ''udp'' then Some Udp else if l = ''tcp'' then Some Tcp else if l = ''dot'' then Some Dot else None)"

fun protocol_as_str :: "protocol \<Rightarrow> string" where
  "protocol_as_str Udp = ''UDP''"
| "protocol_as_str Tcp = ''TCP''"
| "protocol_as_str Dot = ''DoT''"

section \<open>Options and configuration\<close>

record cli =
  cli_server :: "ip_addr list"
  cli_port :: u16
  cli_query_file :: "string option"
  cli_clients :: string
  cli_qps :: u64
  cli_duration :: "u64 option"
  cli_timeout_ms :: u64
  cli_threads :: "nat option"
  cli_quiet :: bool
  cli_verbose :: bool
  cli_stats_interval :: u64
  cli_ramp :: bool
  cli_random :: bool
  cli_random_domain :: string
  cli_random_type :: string
  cli_compare :: "ip_addr option"
  cli_protocol :: string
  cli_json :: bool
  cli_csv :: "string option"
  cli_no_tui :: bool
  cli_xdp :: bool
  cli_no_xdp :: bool
  cli_max_outstanding :: "nat option"
  cli_nic_stats :: bool
  cli_wire_latency :: bool

record config =
  c_server :: ip_addr
  c_servers :: "ip_addr list"
  c_port :: u16
  c_query_file :: "string option"
  c_concurrent :: nat
  c_qps :: u64
  c_duration_secs :: u64
  c_timeout_ms :: u64
  c_threads :: nat
  c_quiet :: bool
  c_verbose :: bool
  c_stats_interval_secs :: u64
  c_ramp :: bool
  c_random :: bool
  c_random_domain :: string
  c_random_qtype :: u16
  c_compare :: "ip_addr option"
  c_protocol :: protocol
  c_json_output :: bool
  c_csv_file :: "string option"
  c_no_tui :: bool
  c_force_xdp :: bool
  c_no_xdp :: bool
  c_max_outstanding :: nat
  c_nic_stats :: bool

datatype main_error =
  SharedNic ip_addr ip_addr string | NoAfXdp | UnknownProtocol string | BadClients string

section \<open>Checking the targets\<close>

fun dedup_servers :: "ip_addr list \<Rightarrow> ip_addr list \<Rightarrow> ip_addr list" where
  "dedup_servers seen [] = []"
| "dedup_servers seen (s # ss) =
     (if s \<in> set seen then dedup_servers seen ss else s # dedup_servers (s # seen) ss)"

text \<open>
  The interfaces found so far with their targets; the outer option is the panic of \<^const>\<open>iface_for_addr\<close>.
\<close>

fun check_nics :: "host \<Rightarrow> (string \<times> ip_addr) list \<Rightarrow> ip_addr list \<Rightarrow> (main_error + (string \<times> ip_addr) list) option" where
  "check_nics h ifaces [] = Some (Inr ifaces)"
| "check_nics h ifaces (srv # srvs) =
     (case iface_for_addr h srv of
        None \<Rightarrow> None
      | Some None \<Rightarrow> check_nics h ifaces srvs
      | Some (Some iface) \<Rightarrow>
          (case map_of ifaces iface of
             Some prev \<Rightarrow> Some (Inl (SharedNic prev srv iface))
           | None \<Rightarrow> check_nics h ((iface, srv) # ifaces) srvs))"

section \<open>Building the configuration\<close>

definition auto_ramp :: "cli \<Rightarrow> bool" where
  "auto_ramp c = (\<not> cli_ramp c \<and> cli_qps c = 0 \<and> cli_duration c = None \<and> \<not> cli_random c \<and> cli_compare c = None \<and>
     \<not> cli_wire_latency c)"

definition default_outstanding :: "cli \<Rightarrow> bool \<Rightarrow> nat" where
  "default_outstanding c ramp = (if cli_xdp c then 0 else if ramp then 32 else 100)"

text \<open>\<^verbatim>\<open>-c\<close>: automatic, or a number of at least one.\<close>

definition parse_clients :: "nat \<Rightarrow> string \<Rightarrow> nat option" where
  "parse_clients auto_concurrent s =
     (if s = ''auto'' \<or> s = ''0'' then Some auto_concurrent else map_option (\<lambda>n. max n 1) (parse_usize s))"

definition make_config :: "cli \<Rightarrow> ip_addr \<Rightarrow> ip_addr list \<Rightarrow> nat \<Rightarrow> nat \<Rightarrow> protocol \<Rightarrow> config" where
  "make_config c primary servers concurrent threads proto =
     (let ramp = cli_ramp c \<or> auto_ramp c
      in \<lparr>c_server = primary, c_servers = servers, c_port = cli_port c, c_query_file = cli_query_file c,
          c_concurrent = concurrent, c_qps = cli_qps c,
          c_duration_secs = (case cli_duration c of Some d \<Rightarrow> d | None \<Rightarrow> 30), c_timeout_ms = cli_timeout_ms c,
          c_threads = threads, c_quiet = cli_quiet c, c_verbose = cli_verbose c,
          c_stats_interval_secs = cli_stats_interval c, c_ramp = ramp, c_random = cli_random c,
          c_random_domain = cli_random_domain c,
          c_random_qtype = (if to_lowercase (cli_random_type c) = ''aaaa'' then 28 else 1),
          c_compare = cli_compare c, c_protocol = proto, c_json_output = cli_json c, c_csv_file = cli_csv c,
          c_no_tui = (cli_no_tui c \<or> cli_quiet c), c_force_xdp = cli_xdp c, c_no_xdp = cli_no_xdp c,
          c_max_outstanding = (case cli_max_outstanding c of Some m \<Rightarrow> m | None \<Rightarrow> default_outstanding c ramp),
          c_nic_stats = cli_nic_stats c\<rparr>)"

text \<open>
  \<^verbatim>\<open>main\<close> up to the configuration, in a build with the \<^verbatim>\<open>xdp\<close> feature: \<open>None\<close> is a panic, \<open>Inl\<close> an error exit.
  \<open>af_xdp\<close> tells whether an AF\_XDP socket can be opened, \<open>n_cpus\<close> how many CPUs the \<^verbatim>\<open>num_cpus\<close> library reports when the
  process is confined to the given ones.
\<close>

definition build_config :: "host \<Rightarrow> (nat list option \<Rightarrow> nat) \<Rightarrow> bool \<Rightarrow> cli \<Rightarrow> (main_error + config) option" where
  "build_config h n_cpus af_xdp c =
     (case dedup_servers [] (cli_server c) of
        [] \<Rightarrow> None
      | primary # rest \<Rightarrow>
          let servers = primary # rest
          in (case (if rest \<noteq> [] then check_nics h [] servers else Some (Inr [])) of
                None \<Rightarrow> None
              | Some (Inl err) \<Rightarrow> Some (Inl err)
              | Some (Inr _) \<Rightarrow>
                  if cli_xdp c \<and> \<not> af_xdp then Some (Inl NoAfXdp)
                  else
                    (case init_cpu_pinning h primary None of
                       None \<Rightarrow> None
                     | Some _ \<Rightarrow>
                         (case (if rest = [] then confine_to_nic_node h primary else Some (None, None)) of
                            None \<Rightarrow> None
                          | Some (affinity, _) \<Rightarrow>
                              (case protocol_from_str (cli_protocol c) of
                                 None \<Rightarrow> Some (Inl (UnknownProtocol (cli_protocol c)))
                               | Some proto \<Rightarrow>
                                   (case parse_clients (max (length (physical_cores h)) 8) (cli_clients c) of
                                      None \<Rightarrow> Some (Inl (BadClients (cli_clients c)))
                                    | Some concurrent \<Rightarrow>
                                        let threads = max (case cli_threads c of Some t \<Rightarrow> t | None \<Rightarrow> n_cpus affinity) 1
                                        in Some (Inr (make_config c primary servers concurrent threads proto))))))))"

section \<open>The run mode\<close>

datatype run_mode = WireLatencyRun nat u64 | CompareRun ip_addr | MultiNicRun | SingleRun

definition wire_rate :: "config \<Rightarrow> u64" where
  "wire_rate cfg = (if 0 < c_qps cfg then c_qps cfg else 5000)"

definition wire_count :: "config \<Rightarrow> nat" where
  "wire_count cfg = unat (min (max (sat_mul (wire_rate cfg) (c_duration_secs cfg)) 200) 2000000)"

definition run_mode :: "cli \<Rightarrow> config \<Rightarrow> run_mode" where
  "run_mode c cfg =
     (if cli_wire_latency c then WireLatencyRun (wire_count cfg) (wire_rate cfg)
      else case c_compare cfg of
             Some secondary \<Rightarrow> CompareRun secondary
           | None \<Rightarrow> if 1 < length (c_servers cfg) then MultiNicRun else SingleRun)"

section \<open>Lemmas\<close>

lemma dedup_servers_spec:
  "set (dedup_servers seen ss) = set ss - set seen \<and> distinct (dedup_servers seen ss)"
  by (induction seen ss rule: dedup_servers.induct) auto

text \<open>The interface a target is routed through, if one is found.\<close>

definition nic_of :: "host \<Rightarrow> ip_addr \<Rightarrow> string option" where
  "nic_of h srv = (case iface_for_addr h srv of Some x \<Rightarrow> x | None \<Rightarrow> None)"

lemma filter_map_Cons: "filter_map f (x # xs) = (case f x of None \<Rightarrow> filter_map f xs | Some y \<Rightarrow> y # filter_map f xs)"
  by (simp add: filter_map_def flatten_opt_def split: option.split)

lemma check_nics_distinct:
  "check_nics h ifaces srvs = Some (Inr r) \<Longrightarrow>
     distinct (filter_map (nic_of h) srvs) \<and> set (filter_map (nic_of h) srvs) \<inter> fst ` set ifaces = {}"
proof (induction h ifaces srvs rule: check_nics.induct)
  case (1 h ifaces)
  then show ?case by (simp add: filter_map_def flatten_opt_def)
next
  case (2 h ifaces srv srvs)
  from 2(3) obtain x where x: "iface_for_addr h srv = Some x" by (cases "iface_for_addr h srv") auto
  show ?case
  proof (cases x)
    case None
    then show ?thesis using 2 x by (simp add: filter_map_Cons nic_of_def)
  next
    case (Some i)
    have free: "map_of ifaces i = None" using 2(3) x Some by (auto split: option.splits)
    then have "i \<notin> fst ` set ifaces" by (simp add: map_of_eq_None_iff)
    then show ?thesis using 2(2) [OF x Some free] 2(3) x Some free by (auto simp: filter_map_Cons nic_of_def)
  qed
qed

lemma to_lowercase_protocol: "protocol_from_str (protocol_as_str p) = Some p"
  by (cases p; simp only:; code_simp)

text \<open>What every configuration satisfies.\<close>

definition config_wf :: "host \<Rightarrow> config \<Rightarrow> bool" where
  "config_wf h cfg \<longleftrightarrow>
     c_servers cfg \<noteq> [] \<and> distinct (c_servers cfg) \<and> c_server cfg = hd (c_servers cfg) \<and>
     (1 < length (c_servers cfg) \<longrightarrow> distinct (filter_map (nic_of h) (c_servers cfg))) \<and>
     0 < c_concurrent cfg \<and> 0 < c_threads cfg \<and> c_random_qtype cfg \<in> {1, 28} \<and>
     (c_quiet cfg \<longrightarrow> c_no_tui cfg)"

lemma parse_clients_pos: "0 < a \<Longrightarrow> parse_clients a s = Some n \<Longrightarrow> 0 < n"
  by (auto simp: parse_clients_def split: if_splits)

lemma make_config_fields:
  "c_servers (make_config c p ss n t pr) = ss" "c_server (make_config c p ss n t pr) = p"
  "c_concurrent (make_config c p ss n t pr) = n" "c_threads (make_config c p ss n t pr) = t"
  "c_random_qtype (make_config c p ss n t pr) \<in> {1, 28}" "c_no_tui (make_config c p ss n t pr) = (cli_no_tui c \<or> cli_quiet c)"
  "c_quiet (make_config c p ss n t pr) = cli_quiet c" "c_protocol (make_config c p ss n t pr) = pr"
  by (simp_all add: make_config_def Let_def)

lemma build_config_ok:
  assumes "build_config h n_cpus x c = Some (Inr cfg)"
  obtains primary rest n t pr ifs where "dedup_servers [] (cli_server c) = primary # rest"
    "rest \<noteq> [] \<longrightarrow> check_nics h [] (primary # rest) = Some (Inr ifs)"
    "parse_clients (max (length (physical_cores h)) 8) (cli_clients c) = Some n" "0 < t"
    "protocol_from_str (cli_protocol c) = Some pr" "cfg = make_config c primary (primary # rest) n t pr"
proof -
  obtain primary rest where d: "dedup_servers [] (cli_server c) = primary # rest"
    using assms by (cases "dedup_servers [] (cli_server c)") (auto simp: build_config_def)
  obtain ifs where ifs: "(if rest \<noteq> [] then check_nics h [] (primary # rest) else Some (Inr [])) = Some (Inr ifs)"
    using assms d by (auto simp: build_config_def Let_def split: option.splits sum.splits if_splits)
  obtain n pr k where p: "parse_clients (max (length (physical_cores h)) 8) (cli_clients c) = Some n"
    "protocol_from_str (cli_protocol c) = Some pr"
    "cfg = make_config c primary (primary # rest) n (max (case cli_threads c of Some t \<Rightarrow> t | None \<Rightarrow> k) 1) pr"
    using assms d ifs by (auto simp: build_config_def Let_def split: option.splits if_splits simp del: check_nics.simps)
  show ?thesis by (rule that [OF d _ p(1) _ p(2) p(3)]) (use ifs in \<open>auto simp del: check_nics.simps\<close>)
qed

lemma build_config_wf:
  assumes "build_config h n_cpus af_xdp c = Some (Inr cfg)"
  shows "config_wf h cfg \<and> set (c_servers cfg) = set (cli_server c)"
proof -
  obtain primary rest n t pr ifs where b: "dedup_servers [] (cli_server c) = primary # rest"
    "rest \<noteq> [] \<longrightarrow> check_nics h [] (primary # rest) = Some (Inr ifs)"
    "parse_clients (max (length (physical_cores h)) 8) (cli_clients c) = Some n" "0 < t"
    "protocol_from_str (cli_protocol c) = Some pr" "cfg = make_config c primary (primary # rest) n t pr"
    by (rule build_config_ok [OF assms])
  have d: "set (primary # rest) = set (cli_server c)" "distinct (primary # rest)"
    using dedup_servers_spec [of "[]" "cli_server c"] unfolding b(1) by auto
  have n: "0 < n" using parse_clients_pos [OF _ b(3)] by simp
  have nics: "rest \<noteq> [] \<Longrightarrow> distinct (filter_map (nic_of h) (primary # rest))"
    using check_nics_distinct b(2) by blast
  show ?thesis unfolding config_wf_def b(6) make_config_fields using d n b(4) nics
    make_config_fields(5) [of c primary "primary # rest" n t pr] by auto
qed

section \<open>Properties\<close>

text \<open>C26: Every configuration the program builds is well formed: at least one target, no target twice, the
  primary first, several targets only through pairwise different network cards, at least one worker
  and one runtime thread, a record type of A or AAAA for random queries, no dashboard in quiet mode;
  and the targets are exactly those of the command line.\<close>

theorem build_config_well_formed:
  assumes "build_config h n_cpus af_xdp c = Some (Inr cfg)"
  shows "config_wf h cfg \<and> set (c_servers cfg) = set (cli_server c)"
  using assms by (rule build_config_wf)

definition test_cli :: cli where
  "test_cli =
     \<lparr>cli_server = [V4 (Ipv4 10 0 1 9), V4 (Ipv4 192 168 1 1), V4 (Ipv4 10 0 1 9)], cli_port = 53, cli_query_file = None,
      cli_clients = ''auto'', cli_qps = 0, cli_duration = None, cli_timeout_ms = 3000, cli_threads = None,
      cli_quiet = True, cli_verbose = False, cli_stats_interval = 1, cli_ramp = False, cli_random = False,
      cli_random_domain = ''bench.invalid.'', cli_random_type = ''a'', cli_compare = None, cli_protocol = ''udp'',
      cli_json = False, cli_csv = None, cli_no_tui = False, cli_xdp = False, cli_no_xdp = False,
      cli_max_outstanding = None, cli_nic_stats = False, cli_wire_latency = False\<rparr>"

definition route_host :: host where
  "route_host = test_host (\<lambda>_. Some route_text) (\<lambda>_. None)"

lemma route_host_ifaces:
  "iface_for_addr route_host (V4 (Ipv4 10 0 1 9)) = Some (Some ''eth1'')"
  "iface_for_addr route_host (V4 (Ipv4 192 168 1 1)) = Some (Some ''eth0'')"
proof -
  have w: "split_whitespace ''eth0 00000000 0101A8C0 0003 0 0 0 00000000 0 0 0'' =
      [''eth0'', ''00000000'', ''0101A8C0'', ''0003'', ''0'', ''0'', ''0'', ''00000000'', ''0'', ''0'', ''0'']"
    "split_whitespace ''eth1 0000000A 00000000 0001 0 0 0 000000FF 0 0 0'' =
      [''eth1'', ''0000000A'', ''00000000'', ''0001'', ''0'', ''0'', ''0'', ''000000FF'', ''0'', ''0'', ''0'']"
    "split_whitespace ''eth2 0001000A 00000000 0001 0 0 0 00FFFFFF 0 0 0'' =
      [''eth2'', ''0001000A'', ''00000000'', ''0001'', ''0'', ''0'', ''0'', ''00FFFFFF'', ''0'', ''0'', ''0'']"
    by (simp_all add: split_whitespace_def is_ws_def)
  have h: "parse_hex_u32 ''00000000'' = Some 0" "parse_hex_u32 ''0000000A'' = Some 0x0A" "parse_hex_u32 ''000000FF'' = Some 0xFF"
    "parse_hex_u32 ''0001000A'' = Some 0x0001000A" "parse_hex_u32 ''00FFFFFF'' = Some 0x00FFFFFF"
    by (simp_all add: parse_hex_u32_def parse_hex_def parse_radix_def drop_plus_def hex_val_def)
  have f: "read_to_string route_host path = Some route_text" for path by (simp add: route_host_def test_host_def)
  show "iface_for_addr route_host (V4 (Ipv4 10 0 1 9)) = Some (Some ''eth1'')"
    "iface_for_addr route_host (V4 (Ipv4 192 168 1 1)) = Some (Some ''eth0'')"
    unfolding iface_for_addr_def f option.case route_text_lines
    by (simp_all add: w h swap_bytes_def Let_def)
qed

lemma route_host_builds: "\<exists>cfg. build_config route_host (\<lambda>_. 2) False test_cli = Some (Inr cfg)"
proof -
  have "dedup_servers [] (cli_server test_cli) = [V4 (Ipv4 10 0 1 9), V4 (Ipv4 192 168 1 1)]"
    by (simp add: test_cli_def)
  moreover have "protocol_from_str ''udp'' = Some Udp" by code_simp
  ultimately show ?thesis
    by (simp add: build_config_def route_host_ifaces init_cpu_pinning_def Let_def)
      (simp add: test_cli_def parse_clients_def Let_def)
qed

theorem build_config_well_formed_witness:
  "\<exists>cfg. build_config route_host (\<lambda>_. 2) False test_cli = Some (Inr cfg) \<and> config_wf route_host cfg \<and>
     set (c_servers cfg) = {V4 (Ipv4 10 0 1 9), V4 (Ipv4 192 168 1 1)}"
proof -
  obtain cfg where b: "build_config route_host (\<lambda>_. 2) False test_cli = Some (Inr cfg)" using route_host_builds by blast
  from build_config_well_formed [OF b] b show ?thesis by (auto simp: test_cli_def)
qed

text \<open>The wire-latency probe is always given between 200 and two million samples and a positive rate, and the
  other modes are told apart: comparison first, then several cards, then the plain run.\<close>

theorem run_mode_bounds:
  "case run_mode c cfg of
     WireLatencyRun n rate \<Rightarrow> 200 \<le> n \<and> n \<le> 2000000 \<and> 0 < rate
   | CompareRun s \<Rightarrow> c_compare cfg = Some s
   | MultiNicRun \<Rightarrow> c_compare cfg = None \<and> 2 \<le> length (c_servers cfg)
   | SingleRun \<Rightarrow> c_compare cfg = None \<and> length (c_servers cfg) \<le> 1"
proof -
  have "200 \<le> unat (min (max x 200) (2000000 :: u64)) \<and> unat (min (max x 200) (2000000 :: u64)) \<le> 2000000" for x
    by (auto simp: min_def max_def word_le_nat_alt)
  moreover have "0 < wire_rate cfg" by (simp add: wire_rate_def)
  ultimately show ?thesis by (auto simp: run_mode_def wire_count_def split: option.splits)
qed

end
