(* ===== verification/Multi_Nic.thy ===== *)
theory Multi_Nic
  imports Config Stats
begin

text \<open>
  The multi-card run (\<^verbatim>\<open>src/engine/multi_nic.rs\<close>): the distribution of the workers, the configuration of each
  stack, the collection of the results, and the merge of the snapshots. The runs themselves are a
  parameter: the list of their outcomes.
\<close>

section \<open>Merging snapshots\<close>

definition f_sum :: "f64 list \<Rightarrow> f64" where
  "f_sum xs = foldl f_add (Fin 0) xs"

definition max_or_0 :: "u64 list \<Rightarrow> u64" where
  "max_or_0 xs = foldr max xs 0"

definition min_nonzero :: "u64 list \<Rightarrow> u64" where
  "min_nonzero xs = (case filter (\<lambda>v. 0 < v) xs of [] \<Rightarrow> 0 | v # vs \<Rightarrow> foldr min vs v)"

definition positive_sum :: "f64 option list \<Rightarrow> f64 option" where
  "positive_sum xs = (let w = f_sum (flatten_opt xs) in if f_lt (Fin 0) w then Some w else None)"

definition opt_mul :: "f64 option \<Rightarrow> f64 option \<Rightarrow> f64 option" where
  "opt_mul a b = do { x \<leftarrow> a; y \<leftarrow> b; Some (f_mul x y) }"

definition empty_snapshot :: stats_snapshot where
  "empty_snapshot =
     \<lparr>queries_sent = 0, queries_completed = 0, queries_lost = 0, snap_noerror = 0, snap_nxdomain = 0,
      snap_servfail = 0, snap_refused = 0, snap_other = 0, run_time_s = Fin 0, send_qps = Fin 0, avg_qps = Fin 0,
      min_us = 0, avg_us = Fin 0, p50_us = 0, p95_us = 0, p99_us = 0, p999_us = 0, max_us = 0,
      inflight_mean = Fin 0, snap_inflight_max = 0, wire_qps = None, server_rx_qps = None,
      server_rx_avg_bytes = None, link_mbps = None, ramp_capacity = None\<rparr>"

definition weighted_avg :: "stats_snapshot list \<Rightarrow> u64 \<Rightarrow> f64" where
  "weighted_avg snaps total_done =
     (let weight_sum = f_of_u64 total_done
      in if weight_sum = Fin 0 then Fin 0
         else f_div (f_sum (map (\<lambda>s. f_mul (avg_us s) (f_of_u64 (queries_completed s))) snaps)) weight_sum)"

definition merge_snapshots :: "stats_snapshot list \<Rightarrow> stats_snapshot" where
  "merge_snapshots snaps =
     (if snaps = [] then empty_snapshot
      else
        let total_done = sum_list (map queries_completed snaps);
            max_time = foldl f_max (Fin 0) (map run_time_s snaps);
            mbps = sum_list (flatten_opt (map link_mbps snaps));
            num = f_sum (flatten_opt (map (\<lambda>s. opt_mul (server_rx_avg_bytes s) (server_rx_qps s)) snaps));
            den = f_sum (flatten_opt (map server_rx_qps (filter (\<lambda>s. server_rx_avg_bytes s \<noteq> None) snaps)))
        in \<lparr>queries_sent = sum_list (map queries_sent snaps), queries_completed = total_done,
            queries_lost = sum_list (map queries_lost snaps),
            snap_noerror = sum_list (map snap_noerror snaps), snap_nxdomain = sum_list (map snap_nxdomain snaps),
            snap_servfail = sum_list (map snap_servfail snaps), snap_refused = sum_list (map snap_refused snaps),
            snap_other = sum_list (map snap_other snaps), run_time_s = max_time,
            send_qps = f_sum (map send_qps snaps),
            avg_qps = (if f_lt (Fin 0) max_time then f_div (f_of_u64 total_done) max_time else Fin 0),
            min_us = min_nonzero (map min_us snaps), avg_us = weighted_avg snaps total_done,
            p50_us = max_or_0 (map p50_us snaps), p95_us = max_or_0 (map p95_us snaps),
            p99_us = max_or_0 (map p99_us snaps), p999_us = max_or_0 (map p999_us snaps),
            max_us = max_or_0 (map max_us snaps),
            inflight_mean = f_div (f_sum (map inflight_mean snaps)) (f_of_u64 (of_nat (max (length snaps) 1))),
            snap_inflight_max = max_or_0 (map snap_inflight_max snaps),
            wire_qps = positive_sum (map wire_qps snaps), server_rx_qps = positive_sum (map server_rx_qps snaps),
            server_rx_avg_bytes = (if f_lt (Fin 0) den then Some (f_div num den) else None),
            link_mbps = (if 0 < mbps then Some mbps else None),
            ramp_capacity = positive_sum (map ramp_capacity snaps)\<rparr>)"

section \<open>The stacks\<close>

text \<open>\<^verbatim>\<open>usize\<close> arithmetic of a release build: the subtraction for the last card wraps.\<close>

definition base_workers :: "u64 \<Rightarrow> nat \<Rightarrow> u64" where
  "base_workers total_c n_nics = max (total_c div of_nat n_nics) 1"

definition nic_workers :: "u64 \<Rightarrow> nat \<Rightarrow> nat \<Rightarrow> u64" where
  "nic_workers total_c n_nics i =
     max (if i = n_nics - 1 then total_c - base_workers total_c n_nics * of_nat (n_nics - 1)
          else base_workers total_c n_nics) 1"

definition nic_config :: "config \<Rightarrow> nat \<Rightarrow> ip_addr \<Rightarrow> config" where
  "nic_config cfg i target =
     cfg\<lparr>c_server := target, c_servers := [target],
         c_concurrent := unat (nic_workers (of_nat (c_concurrent cfg)) (length (c_servers cfg)) i), c_no_tui := True\<rparr>"

definition nic_configs :: "config \<Rightarrow> config list" where
  "nic_configs cfg = map (\<lambda>(i, target). nic_config cfg i target) (enumerate 0 (c_servers cfg))"

text \<open>The outcome of a stack: a snapshot, an error, or a panic of its task.\<close>

datatype 'e nic_outcome = NicDone stats_snapshot | NicFailed 'e | NicPanicked

fun collect_nics :: "(ip_addr \<times> 'e nic_outcome) list \<Rightarrow> (ip_addr \<times> stats_snapshot) list \<Rightarrow> 'e option \<Rightarrow>
    (ip_addr \<times> stats_snapshot) list \<times> 'e option" where
  "collect_nics [] per_nic first_err = (per_nic, first_err)"
| "collect_nics ((addr, r) # rs) per_nic first_err =
     (case r of
        NicDone s \<Rightarrow> collect_nics rs (per_nic @ [(addr, s)]) first_err
      | NicFailed e \<Rightarrow> collect_nics rs per_nic (if first_err = None then Some e else first_err)
      | NicPanicked \<Rightarrow> collect_nics rs per_nic first_err)"

text \<open>\<open>run\<close> is the engine run of a configuration; \<open>Inl None\<close> is the error \<^verbatim>\<open>all NICs failed\<close>.\<close>

definition run_multi_nic :: "(config \<Rightarrow> 'e nic_outcome) \<Rightarrow> config \<Rightarrow> 'e option + stats_snapshot" where
  "run_multi_nic run cfg =
     (case collect_nics (map (\<lambda>c. (c_server c, run c)) (nic_configs cfg)) [] None of
        (per_nic, first_err) \<Rightarrow>
          if per_nic = [] then Inl first_err else Inr (merge_snapshots (map snd per_nic)))"

text \<open>The snapshots of the cards that finished, and what a snapshot of one run satisfies.\<close>

definition nic_snapshots :: "(config \<Rightarrow> 'e nic_outcome) \<Rightarrow> config \<Rightarrow> stats_snapshot list" where
  "nic_snapshots run cfg = filter_map (\<lambda>c. case run c of NicDone s \<Rightarrow> Some s | _ \<Rightarrow> None) (nic_configs cfg)"

definition snapshot_consistent :: "stats_snapshot \<Rightarrow> bool" where
  "snapshot_consistent s \<longleftrightarrow>
     queries_completed s = snap_noerror s + snap_nxdomain s + snap_servfail s + snap_refused s + snap_other s \<and>
     min_us s \<le> p50_us s \<and> p50_us s \<le> p95_us s \<and> p95_us s \<le> p99_us s \<and> p99_us s \<le> p999_us s \<and>
     p999_us s \<le> max_us s"

section \<open>Lemmas\<close>

lemma max_or_0_upper: "x \<in> set xs \<Longrightarrow> x \<le> max_or_0 xs"
  by (induction xs) (auto simp: max_or_0_def le_max_iff_disj)

lemma max_or_0_member: "xs \<noteq> [] \<Longrightarrow> max_or_0 xs \<in> set xs"
proof (induction xs)
  case (Cons x xs)
  then show ?case by (cases "xs = []") (auto simp: max_or_0_def max_def)
qed simp

lemma max_or_0_mono: "\<forall>s \<in> set ss. f s \<le> g s \<Longrightarrow> max_or_0 (map f ss) \<le> max_or_0 (map g ss)"
  by (induction ss) (auto simp: max_or_0_def max_def)

lemma collect_nics_eq:
  "collect_nics rs acc err =
     (acc @ filter_map (\<lambda>(a, r). case r of NicDone s \<Rightarrow> Some (a, s) | _ \<Rightarrow> None) rs,
      case err of
        Some e \<Rightarrow> Some e
      | None \<Rightarrow> (case filter_map (\<lambda>(a, r). case r of NicFailed e \<Rightarrow> Some e | _ \<Rightarrow> None) rs of [] \<Rightarrow> None | e # _ \<Rightarrow> Some e))"
  by (induction rs acc err rule: collect_nics.induct)
    (auto simp: filter_map_Cons filter_map_def flatten_opt_def split: option.splits nic_outcome.splits)

text \<open>The configurations of the stacks, indexed by the card.\<close>

lemma nic_configs_nth:
  "length (nic_configs cfg) = length (c_servers cfg)"
  "i < length (c_servers cfg) \<Longrightarrow> nic_configs cfg ! i = nic_config cfg i (c_servers cfg ! i)"
  by (simp_all add: nic_configs_def nth_enumerate_eq)

lemma nic_workers_values:
  assumes "0 < n" "n \<le> tot" "tot < 2 ^ 64"
  shows "unat (nic_workers (of_nat tot) n i) = (if i = n - 1 then tot - tot div n * (n - 1) else tot div n)"
proof -
  have q: "1 \<le> tot div n" using assms by (simp add: Suc_le_eq div_greater_zero_iff)
  have u: "unat (of_nat tot :: u64) = tot" "unat (of_nat n :: u64) = n" "unat (of_nat (n - 1) :: u64) = n - 1"
    using assms by (simp_all add: unat_of_nat del: of_nat_diff)
  have b: "unat (base_workers (of_nat tot) n) = tot div n"
    using q u by (simp add: base_workers_def max_def word_le_nat_alt unat_div)
  have le: "tot div n * (n - 1) \<le> tot"
    by (metis diff_le_self div_times_less_eq_dividend dual_order.trans mult_le_mono2)
  have lt: "tot div n * n \<le> tot" by simp
  have p: "unat (base_workers (of_nat tot) n * of_nat (n - 1)) = tot div n * (n - 1)"
    using le assms(3) unfolding unat_word_ariths(2) b u(3) by simp
  have d: "unat (of_nat tot - base_workers (of_nat tot) n * of_nat (n - 1)) = tot - tot div n * (n - 1)"
    using le p u(1) by (simp add: unat_sub word_le_nat_alt)
  have pos: "1 \<le> tot - tot div n * (n - 1)"
  proof -
    have "tot div n * (n - 1) + tot div n = tot div n * n" using assms(1) by (cases n) simp_all
    then show ?thesis using lt q by linarith
  qed
  show ?thesis using b d q pos by (auto simp: nic_workers_def max_def word_le_nat_alt)
qed

lemma nic_workers_sum:
  assumes "0 < n" "n \<le> tot" "tot < 2 ^ 64"
  shows "(\<Sum>i<n. unat (nic_workers (of_nat tot) n i)) = tot"
proof -
  obtain m where n: "n = Suc m" using assms(1) gr0_conv_Suc by blast
  have "(\<Sum>i<m. unat (nic_workers (of_nat tot) n i)) = m * (tot div n)"
    using nic_workers_values [OF assms] n by simp
  moreover have "tot div n * m \<le> tot"
    by (metis div_times_less_eq_dividend dual_order.trans le_SucI mult_le_mono2 n order_refl)
  ultimately show ?thesis using nic_workers_values [OF assms, of m] n by (simp add: mult.commute)
qed

lemma nic_workers_ge_1: "1 \<le> unat (nic_workers w n i)"
  by (simp add: nic_workers_def max_def word_le_nat_alt)

lemma nic_workers_wrap:
  assumes "0 < tot" "tot + 1 < n" "n < 2 ^ 64"
  shows "unat (nic_workers (of_nat tot) n (n - 1)) = 2 ^ 64 - (n - 1 - tot)"
proof -
  have u: "unat (of_nat tot :: u64) = tot" "unat (of_nat n :: u64) = n" "unat (of_nat (n - 1) :: u64) = n - 1"
    using assms by (simp_all add: unat_of_nat del: of_nat_diff)
  have "(of_nat tot :: u64) div of_nat n = 0" using assms u by (simp add: word_arith_nat_div)
  then have b: "base_workers (of_nat tot) n = 1" by (simp add: base_workers_def)
  have lt: "(of_nat tot :: u64) < of_nat (n - 1)" using u assms by (simp add: word_less_nat_alt)
  have "unat (of_nat tot - of_nat (n - 1) :: u64) = 2 ^ 64 - (n - 1 - tot)"
    using lt u assms by (simp add: unat_sub_if_size word_le_nat_alt word_size)
  then show ?thesis using b assms by (simp add: nic_workers_def max_def word_le_nat_alt)
qed

lemma run_multi_nic_eq:
  "run_multi_nic run cfg =
     (case nic_snapshots run cfg of
        [] \<Rightarrow> Inl (case filter_map (\<lambda>c. case run c of NicFailed e \<Rightarrow> Some e | _ \<Rightarrow> None) (nic_configs cfg) of
                  [] \<Rightarrow> None | e # _ \<Rightarrow> Some e)
      | _ # _ \<Rightarrow> Inr (merge_snapshots (nic_snapshots run cfg)))"
proof -
  have s: "map snd (filter_map (\<lambda>(a, r). case r of NicDone s \<Rightarrow> Some (a, s) | _ \<Rightarrow> None) (map (\<lambda>c. (c_server c, run c)) cs)) =
      filter_map (\<lambda>c. case run c of NicDone s \<Rightarrow> Some s | _ \<Rightarrow> None) cs" for cs
    by (induction cs) (auto simp: filter_map_Cons filter_map_def flatten_opt_def split: nic_outcome.splits)
  have f: "filter_map (\<lambda>(a, r). case r of NicFailed e \<Rightarrow> Some e | _ \<Rightarrow> None) (map (\<lambda>c. (c_server c, run c)) cs) =
      filter_map (\<lambda>c. case run c of NicFailed e \<Rightarrow> Some e | _ \<Rightarrow> None) cs" for cs
    by (induction cs) (auto simp: filter_map_Cons filter_map_def flatten_opt_def split: nic_outcome.splits)
  show ?thesis
    using s [of "nic_configs cfg"]
    by (auto simp: run_multi_nic_def collect_nics_eq f nic_snapshots_def split: list.splits)
qed

lemma min_nonzero_le: "x \<in> set xs \<Longrightarrow> 0 < x \<Longrightarrow> min_nonzero xs \<le> x"
proof -
  have f: "y \<in> set (v # vs) \<Longrightarrow> foldr min vs v \<le> y" for y v :: u64 and vs
    by (induction vs) (auto simp: min_le_iff_disj)
  assume "x \<in> set xs" "0 < x"
  then have "x \<in> set (filter (\<lambda>v. 0 < v) xs)" by simp
  then show ?thesis using f [of x] by (cases "filter (\<lambda>v. 0 < v) xs") (simp_all only: min_nonzero_def list.case, simp)
qed

lemma min_nonzero_cases: "min_nonzero xs = 0 \<or> (min_nonzero xs \<in> set xs \<and> 0 < min_nonzero xs)"
proof -
  have f: "foldr min vs v \<in> set (v # vs)" for v :: u64 and vs
    by (induction vs) (auto simp: min_def)
  show ?thesis
  proof (cases "filter (\<lambda>v. 0 < v) xs")
    case (Cons v vs)
    then have "min_nonzero xs \<in> set (filter (\<lambda>v. 0 < v) xs)" using f [of vs v] by (simp add: min_nonzero_def)
    then show ?thesis by simp
  qed (simp add: min_nonzero_def)
qed

lemma min_nonzero_mono:
  assumes "\<forall>s \<in> set ss. f s \<le> g s" shows "min_nonzero (map f ss) \<le> max_or_0 (map g ss)"
proof (cases "min_nonzero (map f ss) = 0")
  case False
  then obtain s where "s \<in> set ss" "min_nonzero (map f ss) = f s" using min_nonzero_cases [of "map f ss"] by auto
  then show ?thesis using assms max_or_0_upper [of "g s" "map g ss"] by (metis imageI list.set_map order_trans)
qed simp

lemma merge_consistent:
  assumes "\<forall>s \<in> set ss. snapshot_consistent s" shows "snapshot_consistent (merge_snapshots ss)"
proof (cases "ss = []")
  case True
  then show ?thesis by (simp add: merge_snapshots_def snapshot_consistent_def empty_snapshot_def)
next
  case False
  have "sum_list (map queries_completed ss) =
      sum_list (map (\<lambda>s. snap_noerror s + snap_nxdomain s + snap_servfail s + snap_refused s + snap_other s) ss)"
    using assms by (intro arg_cong [of _ _ sum_list] map_cong) (auto simp: snapshot_consistent_def)
  moreover have "min_nonzero (map min_us ss) \<le> max_or_0 (map p50_us ss)"
    using assms by (intro min_nonzero_mono) (simp add: snapshot_consistent_def)
  ultimately show ?thesis
    using False assms
    by (simp add: merge_snapshots_def snapshot_consistent_def Let_def max_or_0_mono sum_list_addf)
qed

text \<open>A concrete run: two cards, one much slower than the other, and a third whose task fails.\<close>

definition test_snap :: "u64 \<Rightarrow> u64 \<Rightarrow> u64 \<Rightarrow> stats_snapshot" where
  "test_snap n_sent n_done p99 =
     empty_snapshot\<lparr>queries_sent := n_sent, queries_completed := n_done, queries_lost := n_sent - n_done,
       snap_noerror := n_done, min_us := 50, p50_us := 100, p95_us := 200, p99_us := p99, p999_us := 900, max_us := 1200\<rparr>"

definition test_config :: "nat \<Rightarrow> ip_addr list \<Rightarrow> config" where
  "test_config c srvs =
     \<lparr>c_server = hd srvs, c_servers = srvs, c_port = 53, c_query_file = None, c_concurrent = c, c_qps = 0,
      c_duration_secs = 30, c_timeout_ms = 3000, c_threads = 8, c_quiet = True, c_verbose = False,
      c_stats_interval_secs = 1, c_ramp = False, c_random = True, c_random_domain = ''bench.invalid.'',
      c_random_qtype = 1, c_compare = None, c_protocol = Udp, c_json_output = False, c_csv_file = None,
      c_no_tui = True, c_force_xdp = False, c_no_xdp = True, c_max_outstanding = 100, c_nic_stats = True\<rparr>"

definition test_targets :: "ip_addr list" where
  "test_targets = [V4 (Ipv4 10 10 10 2), V4 (Ipv4 10 10 20 2), V4 (Ipv4 10 10 30 2), V4 (Ipv4 10 10 40 2)]"

definition test_nic_run :: "config \<Rightarrow> unit nic_outcome" where
  "test_nic_run c =
     (if c_server c = V4 (Ipv4 10 10 10 2) then NicDone (test_snap 900 890 200)
      else if c_server c = V4 (Ipv4 10 10 20 2) then NicDone (test_snap 100 100 800)
      else NicFailed ())"

lemma test_nic_snapshots:
  "nic_snapshots test_nic_run (test_config 16 test_targets) = [test_snap 900 890 200, test_snap 100 100 800]"
  by (simp add: nic_snapshots_def nic_configs_def nic_config_def test_config_def test_targets_def test_nic_run_def
      filter_map_def flatten_opt_def)

section \<open>Properties\<close>

text \<open>C24: The aggregate of a multi-card run is exactly the merge of the cards that finished: the query counters are their
  sums, it is as consistent as they are (the completed queries are the sum of the response-code counters, and the
  percentiles are ordered), and its 99th percentile is that of the worst card.\<close>

theorem multi_nic_aggregate:
  assumes "run_multi_nic run cfg = Inr m"
    and "\<forall>s \<in> set (nic_snapshots run cfg). snapshot_consistent s"
  shows "snapshot_consistent m \<and>
    queries_sent m = sum_list (map queries_sent (nic_snapshots run cfg)) \<and>
    queries_completed m = sum_list (map queries_completed (nic_snapshots run cfg)) \<and>
    queries_lost m = sum_list (map queries_lost (nic_snapshots run cfg)) \<and>
    (\<forall>s \<in> set (nic_snapshots run cfg). p99_us s \<le> p99_us m) \<and>
    p99_us m \<in> p99_us ` set (nic_snapshots run cfg)"
proof -
  have ne: "nic_snapshots run cfg \<noteq> []" and m: "m = merge_snapshots (nic_snapshots run cfg)"
    using assms(1) by (auto simp: run_multi_nic_eq split: list.splits)
  moreover have "max_or_0 (map p99_us (nic_snapshots run cfg)) \<in> p99_us ` set (nic_snapshots run cfg)"
    using max_or_0_member [of "map p99_us (nic_snapshots run cfg)"] ne by simp
  ultimately show ?thesis
    using merge_consistent [OF assms(2)] max_or_0_upper [of _ "map p99_us (nic_snapshots run cfg)"]
    by (auto simp: merge_snapshots_def Let_def)
qed

theorem multi_nic_aggregate_witness:
  "\<exists>m. run_multi_nic test_nic_run (test_config 16 test_targets) = Inr m \<and> queries_sent m = 1000 \<and>
     queries_completed m = 990 \<and> queries_lost m = 10 \<and> p99_us m \<in> {200, 800} \<and> 800 \<le> p99_us m"
proof -
  obtain m where m: "run_multi_nic test_nic_run (test_config 16 test_targets) = Inr m"
    by (simp add: run_multi_nic_eq test_nic_snapshots)
  have "\<forall>s \<in> set (nic_snapshots test_nic_run (test_config 16 test_targets)). snapshot_consistent s"
    by (simp add: test_nic_snapshots snapshot_consistent_def test_snap_def empty_snapshot_def)
  from multi_nic_aggregate [OF m this] m show ?thesis
    by (simp add: test_nic_snapshots test_snap_def)
qed

text \<open>When there is at least one worker per card, the workers of the cards add up to the configured number and
  every card has one; each stack targets its own server alone.\<close>

theorem multi_nic_workers_add_up:
  assumes "c_servers cfg \<noteq> []" "length (c_servers cfg) \<le> c_concurrent cfg" "c_concurrent cfg < 2 ^ 64"
  shows "sum_list (map c_concurrent (nic_configs cfg)) = c_concurrent cfg \<and>
    map c_servers (nic_configs cfg) = map (\<lambda>s. [s]) (c_servers cfg) \<and>
    (\<forall>c \<in> set (nic_configs cfg). 1 \<le> c_concurrent c)"
proof (intro conjI ballI)
  let ?n = "length (c_servers cfg)"
  have w: "map c_concurrent (nic_configs cfg) =
      map (\<lambda>i. unat (nic_workers (of_nat (c_concurrent cfg)) ?n i)) [0..<?n]"
    by (rule nth_equalityI) (simp_all add: nic_configs_nth nic_config_def)
  show "sum_list (map c_concurrent (nic_configs cfg)) = c_concurrent cfg"
    using nic_workers_sum [of ?n "c_concurrent cfg"] assms
    by (simp add: w interv_sum_list_conv_sum_set_nat atLeast0LessThan)
  show "map c_servers (nic_configs cfg) = map (\<lambda>s. [s]) (c_servers cfg)"
    by (rule nth_equalityI) (simp_all add: nic_configs_nth nic_config_def)
  fix c assume "c \<in> set (nic_configs cfg)"
  then obtain i where "c_concurrent c = unat (nic_workers (of_nat (c_concurrent cfg)) ?n i)"
    by (auto simp: in_set_conv_nth nic_configs_nth nic_config_def)
  then show "1 \<le> c_concurrent c" by (simp only: nic_workers_ge_1)
qed

theorem multi_nic_workers_add_up_witness:
  "sum_list (map c_concurrent (nic_configs (test_config 18 test_targets))) = 18"
  using multi_nic_workers_add_up [of "test_config 18 test_targets"] by (simp add: test_config_def test_targets_def)

text \<open>C39: With fewer workers than cards less one, the subtraction for the last card wraps in a release build and its
  stack is configured with close to two to the sixty-four workers.\<close>

theorem multi_nic_workers_wrap:
  assumes "0 < c_concurrent cfg" "c_concurrent cfg + 1 < length (c_servers cfg)" "length (c_servers cfg) < 2 ^ 64"
  shows "c_concurrent (last (nic_configs cfg)) = 2 ^ 64 - (length (c_servers cfg) - 1 - c_concurrent cfg)"
proof -
  have "last (nic_configs cfg) = nic_configs cfg ! (length (c_servers cfg) - 1)"
    using assms by (subst last_conv_nth) (auto simp: nic_configs_nth simp flip: length_0_conv)
  then show ?thesis using nic_workers_wrap [of "c_concurrent cfg" "length (c_servers cfg)"] assms
    by (simp add: nic_configs_nth nic_config_def)
qed

theorem multi_nic_workers_wrap_witness:
  "c_concurrent (last (nic_configs (test_config 1 test_targets))) = 18446744073709551614"
  using multi_nic_workers_wrap [of "test_config 1 test_targets"] by (simp add: test_config_def test_targets_def)

end
