(* ===== verification/Wire_Latency.thy ===== *)
theory Wire_Latency
  imports Udp_Workers Query_Sources
begin

text \<open>
  The wire-latency probe (\<^verbatim>\<open>src/transport/wire_latency.rs\<close>): kernel timestamps taken off control messages, the
  serial ping-pong over a socket whose receive queue and error queue are part of the state, and the
  report. What the kernel delivers in an iteration is a record: the result of the send, the stamps that
  appear on the error queue at each poll, the datagrams that arrive before the reply poll returns and
  those that arrive later. A receive on an empty queue takes the next datagram to arrive; \<open>None\<close> is a
  run that blocks for ever, or the panic of an unusable query source.
\<close>

section \<open>Timestamps\<close>

record timespec =
  tv_sec :: u64
  tv_nsec :: u64

datatype cmsg = ScmTimestamping timespec timespec timespec | OtherCmsg

definition ts_to_ns :: "timespec \<Rightarrow> u64" where
  "ts_to_ns t = tv_sec t * 1000000000 + tv_nsec t"

fun extract_timestamp :: "cmsg list \<Rightarrow> u64 option" where
  "extract_timestamp [] = None"
| "extract_timestamp (ScmTimestamping ts0 ts1 ts2 # cs) =
     (if ts_to_ns ts2 \<noteq> 0 then Some (ts_to_ns ts2)
      else if ts_to_ns ts0 \<noteq> 0 then Some (ts_to_ns ts0)
      else extract_timestamp cs)"
| "extract_timestamp (OtherCmsg # cs) = extract_timestamp cs"

fun read_tx_timestamp :: "cmsg list list \<Rightarrow> u64 option \<times> cmsg list list" where
  "read_tx_timestamp [] = (None, [])"
| "read_tx_timestamp (m # q) = (extract_timestamp m, q)"

datatype rx_event = Dgram "cmsg list" nat | RxError

fun recv_with_timestamp :: "rx_event list \<Rightarrow> ((u64 \<times> nat) option \<times> rx_event list) option" where
  "recv_with_timestamp [] = None"
| "recv_with_timestamp (RxError # q) = Some (None, q)"
| "recv_with_timestamp (Dgram c n # q) =
     Some (if n = 0 then None else map_option (\<lambda>ts. (ts, n)) (extract_timestamp c), q)"

section \<open>The probe\<close>

record probe_io =
  io_now :: nat
  io_send_ok :: bool
  io_tx :: "(nat \<times> cmsg list list) list"
  io_poll_err :: bool
  io_replies :: "rx_event list"
  io_late :: "rx_event list"

record 's probe_state =
  wl_id :: u16
  wl_src :: 's
  rtts_ns :: "u64 list"
  tx_missing :: nat
  no_reply :: nat
  sent_total :: nat
  wl_next :: nat
  truncated :: bool
  wl_errq :: "cmsg list list"
  wl_rcvq :: "rx_event list"
  wl_wire :: "bytes list"

definition tx_budget :: nat where "tx_budget = 5000000"

text \<open>The wait for the transmit stamp: one poll and one read per turn, with the time since the send.\<close>

fun tx_wait :: "(nat \<times> cmsg list list) list \<Rightarrow> cmsg list list \<Rightarrow> u64 option \<times> cmsg list list" where
  "tx_wait [] q = (None, q)"
| "tx_wait ((waited, arrived) # ps) q =
     (if waited < tx_budget then
        (case read_tx_timestamp (q @ arrived) of
           (Some t, q') \<Rightarrow> (Some t, q')
         | (None, q') \<Rightarrow> tx_wait ps q')
      else (None, q))"

text \<open>The reply: \<^verbatim>\<open>poll\<close> returns on a datagram, or on a stamp left on the error queue.\<close>

definition await_reply :: "probe_io \<Rightarrow> u64 \<Rightarrow> 's probe_state \<Rightarrow> 's probe_state option" where
  "await_reply io tx_ts p =
     (if io_poll_err io \<or> (wl_rcvq p @ io_replies io = [] \<and> wl_errq p = []) then
        Some (p\<lparr>no_reply := no_reply p + 1, wl_rcvq := wl_rcvq p @ io_replies io @ io_late io\<rparr>)
      else
        (case recv_with_timestamp (wl_rcvq p @ io_replies io @ io_late io) of
           None \<Rightarrow> None
         | Some (r, q) \<Rightarrow>
             Some (p\<lparr>wl_rcvq := q,
                     rtts_ns := (case r of
                         Some (rx_ts, len) \<Rightarrow> if tx_ts < rx_ts then rtts_ns p @ [rx_ts - tx_ts] else rtts_ns p
                       | None \<Rightarrow> rtts_ns p)\<rparr>)))"

definition probe_iter :: "('s \<Rightarrow> (query_entry \<times> 's) option) \<Rightarrow> nat \<Rightarrow> probe_io \<Rightarrow> 's probe_state \<Rightarrow> 's probe_state option" where
  "probe_iter nx interval io p =
     (let p = p\<lparr>wl_next := wl_next p + interval\<rparr>;
          arrived = wl_rcvq p @ io_replies io @ io_late io
      in case nx (wl_src p) of
           None \<Rightarrow> None
         | Some (entry, src) \<Rightarrow>
             let q = build_query (wl_id p) (qe_name entry) (qe_qtype entry);
                 p = p\<lparr>wl_src := src, wl_id := wl_id p + 1\<rparr>
             in if \<not> io_send_ok io then Some (p\<lparr>wl_rcvq := arrived\<rparr>)
                else
                  let p = p\<lparr>sent_total := sent_total p + 1, wl_wire := wl_wire p @ [q]\<rparr>
                  in case tx_wait (io_tx io) (wl_errq p) of
                       (None, eq) \<Rightarrow> Some (p\<lparr>wl_errq := eq, tx_missing := tx_missing p + 1, wl_rcvq := arrived\<rparr>)
                     | (Some tx_ts, eq) \<Rightarrow> await_reply io tx_ts (p\<lparr>wl_errq := eq\<rparr>))"

fun probe_loop :: "('s \<Rightarrow> (query_entry \<times> 's) option) \<Rightarrow> nat \<Rightarrow> nat \<Rightarrow> probe_io list \<Rightarrow> 's probe_state \<Rightarrow>
    's probe_state option" where
  "probe_loop nx interval deadline [] p = Some p"
| "probe_loop nx interval deadline (io # ios) p =
     (if deadline \<le> io_now io then Some (p\<lparr>truncated := True\<rparr>)
      else (case probe_iter nx interval io p of
              None \<Rightarrow> None
            | Some p' \<Rightarrow> probe_loop nx interval deadline ios p'))"

section \<open>The report\<close>

record wire_latency_result =
  wr_samples :: nat
  wr_hw :: bool
  wr_min_us :: f64
  wr_p50_us :: f64
  wr_p95_us :: f64
  wr_p99_us :: f64
  wr_max_us :: f64

datatype probe_error = BindFailed | ConnectFailed | TimestampingFailed | NoRoundTrips nat nat nat

definition ns_to_us :: "u64 \<Rightarrow> f64" where
  "ns_to_us v = f_div (f_of_u64 v) (Fin 1000)"

definition pct_index :: "nat \<Rightarrow> f64 \<Rightarrow> nat" where
  "pct_index n p = min (f_to_nat (2 ^ 64 - 1) (f_mul (fl64 (of_nat n)) p)) (n - 1)"

definition probe_report :: "'s probe_state \<Rightarrow> probe_error + wire_latency_result" where
  "probe_report p =
     (if rtts_ns p = [] then Inl (NoRoundTrips (sent_total p) (tx_missing p) (no_reply p))
      else
        let rtts = sort (rtts_ns p);
            n = length rtts;
            pct = (\<lambda>f. ns_to_us (rtts ! pct_index n f))
        in Inr \<lparr>wr_samples = n, wr_hw = False, wr_min_us = ns_to_us (rtts ! 0), wr_p50_us = pct (f_lit (1 / 2)),
                wr_p95_us = pct (f_lit (19 / 20)), wr_p99_us = pct (f_lit (99 / 100)),
                wr_max_us = ns_to_us (rtts ! (n - 1))\<rparr>)"

text \<open>\<^verbatim>\<open>Duration::from_secs_f64\<close> panics on a negative, infinite or undefined number.\<close>

definition from_secs_f64 :: "f64 \<Rightarrow> nat option" where
  "from_secs_f64 x =
     (case x of Fin v \<Rightarrow> if 0 \<le> v \<and> v < 2 ^ 64 then Some (nat (rne (v * 1000000000))) else None | _ \<Rightarrow> None)"

definition probe_deadline :: "nat \<Rightarrow> nat \<Rightarrow> u64 \<Rightarrow> nat option" where
  "probe_deadline now n_probes rate =
     (let paced_secs = f_div (fl64 (of_nat n_probes)) (f_of_u64 (max rate 1))
      in map_option (\<lambda>d. now + d) (from_secs_f64 (f_add (f_mul paced_secs (Fin 4)) (Fin 10))))"

definition probe_start :: "nat \<Rightarrow> u16 \<Rightarrow> 's \<Rightarrow> 's probe_state" where
  "probe_start now rnd src =
     \<lparr>wl_id = rnd, wl_src = src, rtts_ns = [], tx_missing = 0, no_reply = 0, sent_total = 0, wl_next = now,
      truncated = False, wl_errq = [], wl_rcvq = [], wl_wire = []\<rparr>"

record probe_setup =
  ps_bind :: bool
  ps_connect :: bool
  ps_set_ts :: bool
  ps_now :: nat
  ps_rnd :: u16

definition probe :: "('s \<Rightarrow> (query_entry \<times> 's) option) \<Rightarrow> probe_setup \<Rightarrow> (nat \<Rightarrow> probe_io) \<Rightarrow> 's \<Rightarrow> nat \<Rightarrow> u64 \<Rightarrow>
    (probe_error + wire_latency_result) option" where
  "probe nx su io src n_probes rate =
     (if \<not> ps_bind su then Some (Inl BindFailed)
      else if \<not> ps_connect su then Some (Inl ConnectFailed)
      else if \<not> ps_set_ts su then Some (Inl TimestampingFailed)
      else do {
        deadline \<leftarrow> probe_deadline (ps_now su) n_probes rate;
        p \<leftarrow> probe_loop nx (pace_ns 1 rate) deadline (map io [0..<n_probes]) (probe_start (ps_now su) (ps_rnd su) src);
        Some (probe_report p) })"

section \<open>Monotone rounding\<close>

lemma fl64_mono: "0 \<le> a \<Longrightarrow> a \<le> b \<Longrightarrow> f_le (fl64 a) (fl64 b)"
proof -
  assume ab: "0 \<le> a" "a \<le> b"
  have m: "fl a \<le> fl b" and z: "0 \<le> fl a" using fl_mono_nonneg [OF ab] fl_nonneg [OF ab(1)] .
  have p: "- (2 ^ 1024) < (0 :: rat)" by simp
  have "\<not> fl a \<le> - (2 ^ 1024)" "\<not> fl b \<le> - (2 ^ 1024)" using m z p by linarith+
  then show ?thesis using m by (auto simp: fl64_def Let_def f_le_def)
qed

lemma fl64_nonneg_cases: "0 \<le> a \<Longrightarrow> (\<exists>v. 0 \<le> v \<and> fl64 a = Fin v) \<or> fl64 a = PInf"
proof -
  assume a: "0 \<le> a"
  have p: "- (2 ^ 1024) < (0 :: rat)" by simp
  have "\<not> fl a \<le> - (2 ^ 1024)" using fl_nonneg [OF a] p by linarith
  then show ?thesis using fl_nonneg [OF a] by (simp add: fl64_def Let_def)
qed

lemma f_to_nat_mono: "f_le x y \<Longrightarrow> f_to_nat mx x \<le> f_to_nat mx y"
proof (cases x; cases y)
  fix a b assume "f_le x y" "x = Fin a" "y = Fin b"
  then have "\<lfloor>a\<rfloor> \<le> \<lfloor>b\<rfloor>" by (auto simp: f_le_def intro: floor_mono)
  then show ?thesis using \<open>x = Fin a\<close> \<open>y = Fin b\<close> by (auto simp: min_le_iff_disj nat_mono)
qed (auto simp: f_le_def)

lemma pct_index_mono:
  assumes "0 < p" "p \<le> q" shows "pct_index n (Fin p) \<le> pct_index n (Fin q)"
proof -
  have "f_le (f_mul (fl64 (of_nat n)) (Fin p)) (f_mul (fl64 (of_nat n)) (Fin q))"
    using fl64_nonneg_cases [OF of_nat_0_le_iff, of n] assms
  proof (elim disjE exE conjE)
    fix v assume "0 \<le> v" "fl64 (of_nat n) = Fin v"
    then show ?thesis using assms by (simp add: fl64_mono mult_left_mono)
  qed (simp add: f_inf_def f_le_def)
  then show ?thesis unfolding pct_index_def by (intro min.mono f_to_nat_mono) simp_all
qed

lemma ns_to_us_mono: "a \<le> b \<Longrightarrow> f_le (ns_to_us a) (ns_to_us b)"
proof -
  assume "a \<le> b"
  then have "(of_nat (unat a) :: rat) \<le> of_nat (unat b)" by (simp only: word_le_nat_alt of_nat_le_iff)
  then have "f_le (fl64 (of_nat (unat a))) (fl64 (of_nat (unat b)))" by (rule fl64_mono [OF of_nat_0_le_iff])
  then show ?thesis unfolding ns_to_us_def f_of_u64_def
    using fl64_nonneg_cases [OF of_nat_0_le_iff, of "unat a"] fl64_nonneg_cases [OF of_nat_0_le_iff, of "unat b"]
  proof (elim disjE exE conjE)
    fix v w assume v: "0 \<le> v" "fl64 (of_nat (unat a)) = Fin v" and w: "fl64 (of_nat (unat b)) = Fin w"
      and "f_le (fl64 (of_nat (unat a))) (fl64 (of_nat (unat b)))"
    then have "v / 1000 \<le> w / 1000" by (auto simp: f_le_def)
    then show "f_le (f_div (fl64 (of_nat (unat a))) (Fin 1000)) (f_div (fl64 (of_nat (unat b))) (Fin 1000))"
      unfolding v(2) w using v(1) by (simp add: fl64_mono)
  next
    fix v assume v: "0 \<le> v" "fl64 (of_nat (unat a)) = Fin v" and w: "fl64 (of_nat (unat b)) = PInf"
    then show "f_le (f_div (fl64 (of_nat (unat a))) (Fin 1000)) (f_div (fl64 (of_nat (unat b))) (Fin 1000))"
      unfolding v(2) w using fl64_nonneg_cases [of "v / 1000"] by (auto simp: f_inf_def f_le_def)
  qed (simp_all add: f_inf_def f_le_def)
qed

lemma pct_index_bound: "0 < n \<Longrightarrow> pct_index n p < n"
  by (auto simp: pct_index_def min_def)

lemma pct_literals:
  "\<exists>a b c. f_lit (1 / 2) = Fin a \<and> f_lit (19 / 20) = Fin b \<and> f_lit (99 / 100) = Fin c \<and> 0 < a \<and> a \<le> b \<and> b \<le> c"
proof -
  have e: "fl (1 / 2) = (1 / 2)" using fl_exact [of 1 "- 1"] by (simp add: pow2_def)
  have "fl (1 / 2) \<le> fl (19 / 20)" "fl (19 / 20) \<le> fl (99 / 100)" by (rule fl_mono_nonneg; simp)+
  then show ?thesis
    using fl64_unit [of "1 / 2"] fl64_unit [of "19 / 20"] fl64_unit [of "99 / 100"] e
    by (intro exI [of _ "fl (1 / 2)"] exI [of _ "fl (19 / 20)"] exI [of _ "fl (99 / 100)"]) (simp add: f_lit_def)
qed

lemma report_ordered:
  assumes "probe_report p = Inr r"
  shows "wr_samples r = length (rtts_ns p) \<and> rtts_ns p \<noteq> [] \<and> f_le (wr_min_us r) (wr_p50_us r) \<and>
    f_le (wr_p50_us r) (wr_p95_us r) \<and> f_le (wr_p95_us r) (wr_p99_us r) \<and> f_le (wr_p99_us r) (wr_max_us r)"
proof -
  have ne: "rtts_ns p \<noteq> []" using assms by (auto simp: probe_report_def)
  obtain a b c where l: "f_lit (1 / 2) = Fin a" "f_lit (19 / 20) = Fin b" "f_lit (99 / 100) = Fin c"
    and o: "0 < a" "a \<le> b" "b \<le> c" using pct_literals by blast
  let ?n = "length (rtts_ns p)"
  have i: "pct_index ?n (Fin a) \<le> pct_index ?n (Fin b)" "pct_index ?n (Fin b) \<le> pct_index ?n (Fin c)"
    "pct_index ?n (Fin c) < ?n" "pct_index ?n (Fin b) < ?n" "pct_index ?n (Fin a) < ?n"
    using o ne by (simp_all add: pct_index_mono pct_index_bound)
  have m: "i \<le> j \<Longrightarrow> j < ?n \<Longrightarrow> f_le (ns_to_us (sort (rtts_ns p) ! i)) (ns_to_us (sort (rtts_ns p) ! j))" for i j
    by (intro ns_to_us_mono sorted_nth_mono) simp_all
  show ?thesis using assms ne i
    by (auto simp: probe_report_def Let_def l intro!: m)
qed

section \<open>Accounting\<close>

definition probe_inv :: "'s probe_state \<Rightarrow> bool" where
  "probe_inv p \<longleftrightarrow>
     length (rtts_ns p) + tx_missing p + no_reply p \<le> sent_total p \<and> length (wl_wire p) = sent_total p \<and>
     (\<forall>v \<in> set (rtts_ns p). 0 < v)"

lemma await_reply_inv:
  assumes "await_reply io t p = Some p'" "length (rtts_ns p) + tx_missing p + no_reply p < sent_total p"
    "length (wl_wire p) = sent_total p" "\<forall>v \<in> set (rtts_ns p). 0 < v"
  shows "probe_inv p' \<and> sent_total p' = sent_total p"
proof -
  have pos: "a < b \<Longrightarrow> 0 < b - a" for a b :: u64 by (simp add: word_neq_0_conv [symmetric])
  show ?thesis using assms
    by (auto simp: await_reply_def probe_inv_def pos split: if_splits option.splits)
qed

lemma probe_iter_inv:
  "probe_iter nx iv io p = Some p' \<Longrightarrow> probe_inv p \<Longrightarrow> probe_inv p' \<and> sent_total p' \<le> Suc (sent_total p)"
  by (auto simp: probe_iter_def probe_inv_def Let_def split: option.splits if_splits prod.splits
      dest!: await_reply_inv)

lemma probe_loop_inv:
  "probe_loop nx iv dl ios p = Some p' \<Longrightarrow> probe_inv p \<Longrightarrow> probe_inv p' \<and> sent_total p' \<le> sent_total p + length ios"
proof (induction ios arbitrary: p)
  case (Cons io ios)
  show ?case
  proof (cases "dl \<le> io_now io")
    case True
    then show ?thesis using Cons.prems by (auto simp: probe_inv_def)
  next
    case False
    then obtain p1 where p1: "probe_iter nx iv io p = Some p1" "probe_loop nx iv dl ios p1 = Some p'"
      using Cons.prems(1) by (auto split: option.splits)
    have "probe_inv p1 \<and> sent_total p1 \<le> Suc (sent_total p)" by (rule probe_iter_inv [OF p1(1) Cons.prems(2)])
    then show ?thesis using Cons.IH [OF p1(2)] by auto
  qed
qed simp

section \<open>Iterations that are answered\<close>

text \<open>A stamp, and an iteration whose query leaves at \<open>tx\<close> and whose reply reaches the kernel at \<open>rx\<close>: within the
  iteration, or after its poll has given up.\<close>

definition stamp :: "u64 \<Rightarrow> cmsg list" where
  "stamp t =
     [ScmTimestamping \<lparr>tv_sec = t div 1000000000, tv_nsec = t mod 1000000000\<rparr> \<lparr>tv_sec = 0, tv_nsec = 0\<rparr>
        \<lparr>tv_sec = 0, tv_nsec = 0\<rparr>]"

definition reply_at :: "u64 \<Rightarrow> rx_event" where "reply_at rx = Dgram (stamp rx) 64"

definition answered :: "u64 \<times> u64 \<Rightarrow> probe_io" where
  "answered = (\<lambda>(tx, rx). \<lparr>io_now = 0, io_send_ok = True, io_tx = [(0, [stamp tx])], io_poll_err = False,
      io_replies = [reply_at rx], io_late = []\<rparr>)"

definition answered_late :: "u64 \<times> u64 \<Rightarrow> probe_io" where
  "answered_late = (\<lambda>(tx, rx). \<lparr>io_now = 0, io_send_ok = True, io_tx = [(0, [stamp tx])], io_poll_err = False,
      io_replies = [], io_late = [reply_at rx]\<rparr>)"

text \<open>The stamps of a serial exchange: every query leaves no earlier than the previous reply arrived.\<close>

fun serial :: "u64 \<Rightarrow> (u64 \<times> u64) list \<Rightarrow> bool" where
  "serial prev [] = True"
| "serial prev ((tx, rx) # trs) \<longleftrightarrow> prev \<le> tx \<and> 0 < tx \<and> tx < rx \<and> serial rx trs"

lemma stamp_ns: "ts_to_ns \<lparr>tv_sec = t div 1000000000, tv_nsec = t mod 1000000000\<rparr> = t"
  by (simp add: ts_to_ns_def word_mod_div_equality)

lemma extract_stamp: "0 < t \<Longrightarrow> extract_timestamp (stamp t) = Some t"
  by (simp add: stamp_def stamp_ns) (simp add: ts_to_ns_def)

context query_source
begin

lemma answered_iter:
  assumes "usable (wl_src p)" "wl_errq p = []" "wl_rcvq p = q" "0 < tx" "q @ [reply_at rx] = reply_at r # q'" "0 < r"
  shows "\<exists>p'. probe_iter nxt iv (answered (tx, rx)) p = Some p' \<and> usable (wl_src p') \<and> wl_errq p' = [] \<and> wl_rcvq p' = q' \<and>
    rtts_ns p' = (if tx < r then rtts_ns p @ [r - tx] else rtts_ns p) \<and> no_reply p' = no_reply p \<and>
    tx_missing p' = tx_missing p \<and> sent_total p' = Suc (sent_total p)"
proof -
  obtain e s' where n: "nxt (wl_src p) = Some (e, s')" "usable s'" using nxt_returns assms(1) by blast
  have r: "q @ reply_at rx # [] = Dgram (stamp r) 64 # q'" using assms(5) by (simp add: reply_at_def)
  show ?thesis
    using n assms(2,3,4,6) r
    by (simp add: probe_iter_def answered_def await_reply_def tx_budget_def extract_stamp reply_at_def)
qed

lemma answered_loop:
  assumes "usable (wl_src p)" "wl_errq p = []" "wl_rcvq p = []" "serial prev trs" "0 < dl"
  shows "\<exists>p'. probe_loop nxt iv dl (map answered trs) p = Some p' \<and> no_reply p' = no_reply p \<and>
    tx_missing p' = tx_missing p \<and> sent_total p' = sent_total p + length trs \<and>
    rtts_ns p' = rtts_ns p @ map (\<lambda>(tx, rx). rx - tx) trs"
  using assms
proof (induction trs arbitrary: p prev)
  case (Cons tr trs)
  obtain tx rx where tr: "tr = (tx, rx)" by (cases tr)
  have "0 < tx" "tx < rx" "0 < rx" "serial rx trs" using Cons.prems(4) tr by (auto intro: less_trans)
  with answered_iter [OF Cons.prems(1-3), of tx rx rx "[]" iv] obtain p1 where
    "probe_iter nxt iv (answered (tx, rx)) p = Some p1" "usable (wl_src p1)" "wl_errq p1 = []" "wl_rcvq p1 = []"
    "rtts_ns p1 = rtts_ns p @ [rx - tx]" "no_reply p1 = no_reply p" "tx_missing p1 = tx_missing p"
    "sent_total p1 = Suc (sent_total p)" by auto
  with Cons.IH [of p1 rx] \<open>serial rx trs\<close> Cons.prems(5) tr show ?case by (auto simp: answered_def)
qed simp

lemma stale_loop:
  assumes "usable (wl_src p)" "wl_errq p = []" "wl_rcvq p = [reply_at r]" "serial r trs" "0 < r" "0 < dl"
  shows "\<exists>p'. probe_loop nxt iv dl (map answered trs) p = Some p' \<and> no_reply p' = no_reply p \<and>
    tx_missing p' = tx_missing p \<and> sent_total p' = sent_total p + length trs \<and> rtts_ns p' = rtts_ns p"
  using assms
proof (induction trs arbitrary: p r)
  case (Cons tr trs)
  obtain tx rx where tr: "tr = (tx, rx)" by (cases tr)
  have o: "0 < tx" "tx < rx" "\<not> tx < r" "0 < rx" "serial rx trs" using Cons.prems(4) tr by (auto intro: less_trans)
  with answered_iter [OF Cons.prems(1-3), of tx rx r "[reply_at rx]" iv] Cons.prems(5) obtain p1 where
    "probe_iter nxt iv (answered (tx, rx)) p = Some p1" "usable (wl_src p1)" "wl_errq p1 = []" "wl_rcvq p1 = [reply_at rx]"
    "rtts_ns p1 = rtts_ns p" "no_reply p1 = no_reply p" "tx_missing p1 = tx_missing p"
    "sent_total p1 = Suc (sent_total p)" by auto
  with Cons.IH [of p1 rx] o Cons.prems(6) tr show ?case by (auto simp: answered_def)
qed simp

lemma late_iter:
  assumes "usable (wl_src p)" "wl_errq p = []" "wl_rcvq p = []" "0 < tx"
  shows "\<exists>p'. probe_iter nxt iv (answered_late (tx, rx)) p = Some p' \<and> usable (wl_src p') \<and> wl_errq p' = [] \<and>
    wl_rcvq p' = [reply_at rx] \<and> rtts_ns p' = rtts_ns p \<and> no_reply p' = Suc (no_reply p) \<and>
    tx_missing p' = tx_missing p \<and> sent_total p' = Suc (sent_total p)"
proof -
  obtain e s' where n: "nxt (wl_src p) = Some (e, s')" "usable s'" using nxt_returns assms(1) by blast
  then show ?thesis using assms(2,3,4)
    by (simp add: probe_iter_def answered_late_def await_reply_def tx_budget_def extract_stamp)
qed

lemma late_loop:
  assumes "usable (wl_src p)" "wl_errq p = []" "wl_rcvq p = []" "0 < tx" "0 < rx" "serial rx trs" "0 < dl"
  shows "\<exists>p'. probe_loop nxt iv dl (answered_late (tx, rx) # map answered trs) p = Some p' \<and>
    no_reply p' = Suc (no_reply p) \<and> tx_missing p' = tx_missing p \<and> sent_total p' = Suc (sent_total p + length trs) \<and>
    rtts_ns p' = rtts_ns p"
proof -
  from late_iter [OF assms(1-4), of iv rx] obtain p1 where
    "probe_iter nxt iv (answered_late (tx, rx)) p = Some p1" "usable (wl_src p1)" "wl_errq p1 = []"
    "wl_rcvq p1 = [reply_at rx]" "rtts_ns p1 = rtts_ns p" "no_reply p1 = Suc (no_reply p)"
    "tx_missing p1 = tx_missing p" "sent_total p1 = Suc (sent_total p)" by auto
  with stale_loop [of p1 rx trs dl iv] assms show ?thesis by (auto simp: answered_late_def)
qed

end

section \<open>The deadline\<close>

lemma fl64_upto: "0 \<le> q \<Longrightarrow> q \<le> of_nat n \<Longrightarrow> n < 2 ^ 53 \<Longrightarrow> \<exists>v. fl64 q = Fin v \<and> 0 \<le> v \<and> v \<le> of_nat n"
proof -
  assume q: "0 \<le> q" "q \<le> of_nat n" and n: "n < 2 ^ 53"
  have b: "0 \<le> fl q" "fl q \<le> of_nat n" using fl_nonneg [OF q(1)] fl_mono_nonneg [OF q] fl_nat [OF n] by simp_all
  moreover have "(of_nat n :: rat) < of_nat (2 ^ 53)" using n of_nat_less_iff by blast
  moreover have "(of_nat (2 ^ 53) :: rat) < 2 ^ 1024" by simp
  ultimately have "\<bar>fl q\<bar> < 2 ^ 1024" by linarith
  from fl64_small [OF this] b show ?thesis by simp
qed

lemma f_of_positive_rate: "\<exists>v. f_of_u64 (max rate 1) = Fin v \<and> 1 \<le> v"
proof -
  have one: "(1 :: rat) \<le> of_nat (unat (max rate 1))" by (simp add: max_def word_le_nat_alt del: of_nat_unat)
  have lt: "(of_nat (unat (max rate 1)) :: rat) \<le> of_nat (1 * 2 ^ 64)"
    using unat_lt64 [of "max rate 1"] by (simp only: of_nat_le_iff)
  have "fl (of_nat 1 * pow2 64) = of_nat 1 * pow2 64" by (rule fl_exact) simp_all
  then have f: "fl (of_nat (1 * 2 ^ 64)) = of_nat (1 * 2 ^ 64)" by (simp add: pow2_def)
  have "fl 1 \<le> fl (of_nat (unat (max rate 1)))" using one by (intro fl_mono_nonneg) simp_all
  moreover have "fl (of_nat (unat (max rate 1))) \<le> of_nat (1 * 2 ^ 64)"
    using fl_mono_nonneg [OF of_nat_0_le_iff lt] f by simp
  moreover have "(of_nat (1 * 2 ^ 64) :: rat) < 2 ^ 1024" by simp
  ultimately show ?thesis using fl_nat [of 1] fl64_small [of "of_nat (unat (max rate 1))"] unfolding f_of_u64_def by auto
qed

lemma probe_deadline_some: "n \<le> 2 ^ 50 \<Longrightarrow> \<exists>dl. probe_deadline now n rate = Some dl \<and> 0 < dl"
proof -
  assume n: "n \<le> 2 ^ 50"
  then have n53: "n < 2 ^ 53" by simp
  obtain r where r: "f_of_u64 (max rate 1) = Fin r" "1 \<le> r" using f_of_positive_rate by blast
  have "of_nat n / r \<le> of_nat n" using r(2) by (simp add: divide_le_eq mult_le_cancel_left1)
  then obtain v where v: "fl64 (of_nat n / r) = Fin v" "0 \<le> v" "v \<le> of_nat n"
    using fl64_upto [of "of_nat n / r" n] r(2) n53 by auto
  obtain w where w: "fl64 (v * 4) = Fin w" "0 \<le> w" "w \<le> of_nat (n * 4)"
    using fl64_upto [of "v * 4" "n * 4"] v n by auto
  obtain u where u: "fl64 (w + 10) = Fin u" "0 \<le> u" "u \<le> of_nat (n * 4 + 10)"
    using fl64_upto [of "w + 10" "n * 4 + 10"] w n by auto
  have u10: "10 \<le> u"
  proof -
    have "f_le (fl64 10) (fl64 (w + 10))" using w(2) by (intro fl64_mono) simp_all
    then show ?thesis using u(1) fl64_nat [of 10] by (auto simp: f_le_def)
  qed
  have "u < 2 ^ 64"
  proof -
    have "(of_nat (n * 4 + 10) :: rat) < of_nat (2 ^ 64)" using n by (simp only: of_nat_less_iff) simp
    then show ?thesis using u(3) by simp
  qed
  moreover have "0 < rne (u * 1000000000)"
    using rne_ge_int [of 1 "u * 1000000000"] u10 by simp
  ultimately show ?thesis
    using r v w u u10 fl64_nat [OF n53] by (simp add: probe_deadline_def from_secs_f64_def)
qed

lemma sort_ends: "xs \<noteq> [] \<Longrightarrow> sort xs ! 0 = Min (set xs) \<and> sort xs ! (length xs - 1) = Max (set (xs :: u64 list))"
proof -
  assume ne: "xs \<noteq> []"
  have lt: "length xs - 1 < length (sort xs)" using ne by (cases xs) simp_all
  have "\<forall>x \<in> set (sort xs). sort xs ! 0 \<le> x \<and> x \<le> sort xs ! (length xs - 1)"
    by (auto simp only: in_set_conv_nth length_sort intro!: sorted_nth_mono [OF sorted_sort])
  moreover have "sort xs ! 0 \<in> set (sort xs)" "sort xs ! (length xs - 1) \<in> set (sort xs)"
    using lt by (intro nth_mem; linarith)+
  ultimately show ?thesis by (auto intro!: Min_eqI [symmetric] Max_eqI [symmetric])
qed

section \<open>Properties\<close>

definition setup_ok :: "nat \<Rightarrow> u16 \<Rightarrow> probe_setup" where
  "setup_ok now rnd = \<lparr>ps_bind = True, ps_connect = True, ps_set_ts = True, ps_now = now, ps_rnd = rnd\<rparr>"

lemma probe_eq:
  assumes "probe_deadline now (length ios) rate = Some dl"
    and "probe_loop nx (pace_ns 1 rate) dl ios (probe_start now rnd src) = Some p"
  shows "probe nx (setup_ok now rnd) ((!) ios) src (length ios) rate = Some (probe_report p)"
  using assms by (simp add: probe_def setup_ok_def map_nth)

text \<open>A successful wire-latency probe reports at least one and at most as many samples as it was asked for, its
  percentiles are in order between the minimum and the maximum, and a failed one accounts for its
  sends.\<close>

theorem probe_report_sound:
  "case probe nx su io src n rate of
     Some (Inr r) \<Rightarrow> 1 \<le> wr_samples r \<and> wr_samples r \<le> n \<and> f_le (wr_min_us r) (wr_p50_us r) \<and>
       f_le (wr_p50_us r) (wr_p95_us r) \<and> f_le (wr_p95_us r) (wr_p99_us r) \<and> f_le (wr_p99_us r) (wr_max_us r)
   | Some (Inl (NoRoundTrips sends missing silent)) \<Rightarrow> missing + silent \<le> sends \<and> sends \<le> n
   | _ \<Rightarrow> True"
proof (cases "probe nx su io src n rate")
  case (Some res)
  show ?thesis
  proof (cases "ps_bind su \<and> ps_connect su \<and> ps_set_ts su")
    case True
    then obtain dl p where
      p: "probe_loop nx (pace_ns 1 rate) dl (map io [0..<n]) (probe_start (ps_now su) (ps_rnd su) src) = Some p"
      and r: "res = probe_report p" using Some by (auto simp: probe_def split: Option.bind_splits)
    have "probe_inv (probe_start (ps_now su) (ps_rnd su) src)" by (simp add: probe_inv_def probe_start_def)
    from probe_loop_inv [OF p this]
    have inv: "length (rtts_ns p) + tx_missing p + no_reply p \<le> sent_total p" "sent_total p \<le> n"
      by (auto simp: probe_inv_def probe_start_def)
    show ?thesis
    proof (cases res)
      case (Inl e)
      then show ?thesis using r inv Some by (auto simp: probe_report_def Let_def split: if_splits)
    next
      case (Inr q)
      then show ?thesis using report_ordered [of p q] r inv Some by (cases "rtts_ns p") auto
    qed
  next
    case False
    then show ?thesis using Some by (auto simp: probe_def split: if_splits)
  qed
qed simp

text \<open>C13: When every reply arrives in time, the probe measures every exchange: as many samples as queries, and the
  minimum and maximum are those of the differences of the kernel stamps.\<close>

theorem probe_measures_exchanges:
  assumes "list_usable src" "trs \<noteq> []" "length trs \<le> 2 ^ 50" "serial 0 trs"
  shows "\<exists>r. probe file_next (setup_ok now rnd) ((!) (map answered trs)) src (length trs) rate = Some (Inr r) \<and>
    wr_samples r = length trs \<and>
    wr_min_us r = ns_to_us (Min (set (map (\<lambda>(tx, rx). rx - tx) trs))) \<and>
    wr_max_us r = ns_to_us (Max (set (map (\<lambda>(tx, rx). rx - tx) trs)))"
proof -
  let ?d = "map (\<lambda>(tx, rx). rx - tx) trs"
  obtain dl where dl: "probe_deadline now (length (map answered trs)) rate = Some dl" "0 < dl"
    using probe_deadline_some assms(3) by (metis length_map)
  obtain p where p: "probe_loop file_next (pace_ns 1 rate) dl (map answered trs) (probe_start now rnd src) = Some p"
    "rtts_ns p = ?d"
    using file_src.answered_loop [of "probe_start now rnd src" 0 trs dl "pace_ns 1 rate"] assms dl
    by (auto simp: probe_start_def)
  have "sort ?d ! 0 = Min (set ?d) \<and> sort ?d ! (length ?d - 1) = Max (set ?d)" using assms(2) by (intro sort_ends) simp
  then show ?thesis using probe_eq [OF dl(1) p(1)] p(2) assms(2)
    by (simp add: probe_report_def Let_def del: set_map)
qed

definition test_source :: list_source where
  "test_source = \<lparr>entries = [\<lparr>qe_name = ''example.com'', qe_qtype = 1\<rparr>], index = 0\<rparr>"

theorem probe_measures_exchanges_witness:
  "\<exists>r. probe file_next (setup_ok 0 7) ((!) (map answered [(1000, 41000), (90000, 120000)])) test_source 2 1000 = Some (Inr r) \<and>
     wr_samples r = 2 \<and> wr_min_us r = ns_to_us 30000 \<and> wr_max_us r = ns_to_us 40000"
proof -
  have l: "length [(1000 :: u64, 41000 :: u64), (90000, 120000)] = 2" by simp
  show ?thesis
    using probe_measures_exchanges [of test_source "[(1000, 41000), (90000, 120000)]" 0 7 1000, unfolded l]
    by (simp add: list_usable_def test_source_def)
qed



end
