(* ===== verification/Stream_Workers.thy ===== *)
theory Stream_Workers
  imports Dns_Message Query_Sources Stats
begin

text \<open>
  The TCP and DNS-over-TLS workers (\<^verbatim>\<open>src/transport/tcp.rs\<close>, \<^verbatim>\<open>src/transport/dot.rs\<close>): one connection per query, two bytes of
  length before every message. What a connection does is a record: the outcome of the connect and of
  the TLS handshake, how many bytes it takes before it fails, and the bytes it delivers before it fails
  or the timeout of the exchange fires. \<open>None\<close> is the panic of an unusable query source. The sleeps of the
  pacing and of the back-off change no state.
\<close>

section \<open>Streams\<close>

datatype io_end = Failed | TimedOut

record stream_io =
  s_shutdown :: bool
  s_connect :: "io_end option"
  s_handshake :: "io_end option"
  s_write :: "(nat \<times> io_end) option"
  s_input :: bytes
  s_input_end :: io_end
  s_rtt_us :: u64

definition frame_msg :: "bytes \<Rightarrow> bytes" where
  "frame_msg m = to_be16 (of_nat (length m)) @ m"

definition write_stream :: "(nat \<times> io_end) option \<Rightarrow> bytes \<Rightarrow> bytes \<times> io_end option" where
  "write_stream fault bs = (case fault of None \<Rightarrow> (bs, None) | Some (n, e) \<Rightarrow> (take n bs, Some e))"

definition read_exact :: "nat \<Rightarrow> bytes \<Rightarrow> io_end \<Rightarrow> io_end + bytes \<times> bytes" where
  "read_exact n bs e = (if n \<le> length bs then Inr (take n bs, drop n bs) else Inl e)"

section \<open>The exchange\<close>

record 'h exchange_out =
  x_wire :: bytes
  x_end :: "io_end option"
  x_stats :: "'h stats"

text \<open>The future both workers await: write the framed query, count it, read the framed reply, count it.\<close>

definition exchange :: "'h hist_ops \<Rightarrow> stream_io \<Rightarrow> bytes \<Rightarrow> 'h stats \<Rightarrow> 'h exchange_out" where
  "exchange H io qbytes s =
     (case write_stream (s_write io) (frame_msg qbytes) of
        (out, Some e) \<Rightarrow> \<lparr>x_wire = out, x_end = Some e, x_stats = s\<rparr>
      | (out, None) \<Rightarrow>
          let s = inc_sent s
          in case read_exact 2 (s_input io) (s_input_end io) of
               Inl e \<Rightarrow> \<lparr>x_wire = out, x_end = Some e, x_stats = s\<rparr>
             | Inr (len_buf, rest) \<Rightarrow>
                 (case read_exact (unat (from_be16 (len_buf ! 0) (len_buf ! 1))) rest (s_input_end io) of
                    Inl e \<Rightarrow> \<lparr>x_wire = out, x_end = Some e, x_stats = s\<rparr>
                  | Inr (resp_buf, _) \<Rightarrow>
                      \<lparr>x_wire = out, x_end = None,
                       x_stats = (case parse_response resp_buf of
                                    Some resp \<Rightarrow> record_response H (resp_rcode resp) (s_rtt_us io) s
                                  | None \<Rightarrow> s)\<rparr>))"

definition count_end :: "io_end option \<Rightarrow> 'h stats \<Rightarrow> 'h stats" where
  "count_end e s = (case e of None \<Rightarrow> s | Some Failed \<Rightarrow> inc_error s | Some TimedOut \<Rightarrow> inc_timeout s)"

section \<open>The workers\<close>

record ('s, 'h) stream_worker =
  sk_id :: u16
  sk_src :: 's
  sk_stats :: "'h stats"
  sk_conns :: "bytes list"

definition stream_query :: "'h hist_ops \<Rightarrow> ('s \<Rightarrow> (query_entry \<times> 's) option) \<Rightarrow> stream_io \<Rightarrow> ('s, 'h) stream_worker \<Rightarrow>
    ('s, 'h) stream_worker option" where
  "stream_query H nx io w =
     (case nx (sk_src w) of
        None \<Rightarrow> None
      | Some (entry, src) \<Rightarrow>
          let x = exchange H io (build_query (sk_id w) (qe_name entry) (qe_qtype entry)) (sk_stats w)
          in Some (w\<lparr>sk_src := src, sk_stats := count_end (x_end x) (x_stats x), sk_conns := sk_conns w @ [x_wire x],
                     sk_id := sk_id w + 1\<rparr>))"

text \<open>A failed TCP connect goes round the loop without touching the id.\<close>

definition tcp_iter :: "'h hist_ops \<Rightarrow> ('s \<Rightarrow> (query_entry \<times> 's) option) \<Rightarrow> stream_io \<Rightarrow> ('s, 'h) stream_worker \<Rightarrow>
    ('s, 'h) stream_worker option" where
  "tcp_iter H nx io w =
     (case s_connect io of
        Some e \<Rightarrow> Some (w\<lparr>sk_stats := count_end (Some e) (sk_stats w)\<rparr>)
      | None \<Rightarrow> stream_query H nx io w)"

text \<open>The DoT worker connects and shakes hands inside the future, and advances the id in every case.\<close>

definition dot_iter :: "'h hist_ops \<Rightarrow> ('s \<Rightarrow> (query_entry \<times> 's) option) \<Rightarrow> stream_io \<Rightarrow> ('s, 'h) stream_worker \<Rightarrow>
    ('s, 'h) stream_worker option" where
  "dot_iter H nx io w =
     (case (s_connect io, s_handshake io) of
        (Some e, _) \<Rightarrow> Some (w\<lparr>sk_stats := count_end (Some e) (sk_stats w), sk_id := sk_id w + 1\<rparr>)
      | (None, Some e) \<Rightarrow> Some (w\<lparr>sk_stats := count_end (Some e) (sk_stats w), sk_id := sk_id w + 1\<rparr>)
      | (None, None) \<Rightarrow> stream_query H nx io w)"

fun stream_loop :: "(stream_io \<Rightarrow> 'w \<Rightarrow> 'w option) \<Rightarrow> stream_io list \<Rightarrow> 'w \<Rightarrow> 'w option" where
  "stream_loop iter [] w = Some w"
| "stream_loop iter (io # ios) w =
     (if s_shutdown io then Some w
      else (case iter io w of None \<Rightarrow> None | Some w' \<Rightarrow> stream_loop iter ios w'))"

definition run_tcp_worker :: "'h hist_ops \<Rightarrow> ('s \<Rightarrow> (query_entry \<times> 's) option) \<Rightarrow> stream_io list \<Rightarrow> ('s, 'h) stream_worker \<Rightarrow>
    ('s, 'h) stream_worker option" where
  "run_tcp_worker H nx ios w = stream_loop (tcp_iter H nx) ios w"

text \<open>\<open>sni_ok\<close>: rustls accepts the server name. When it does not, the worker stops at its first turn.\<close>

definition run_dot_worker :: "bool \<Rightarrow> 'h hist_ops \<Rightarrow> ('s \<Rightarrow> (query_entry \<times> 's) option) \<Rightarrow> stream_io list \<Rightarrow>
    ('s, 'h) stream_worker \<Rightarrow> ('s, 'h) stream_worker option" where
  "run_dot_worker sni_ok H nx ios w = (if sni_ok then stream_loop (dot_iter H nx) ios w else Some w)"

section \<open>Lemmas\<close>

lemma read_frame_msg:
  assumes "length m < 65536"
  shows "read_exact 2 (frame_msg m @ rest) e = Inr (to_be16 (of_nat (length m)), m @ rest)"
    and "read_exact (unat (from_be16 (to_be16 (of_nat (length m)) ! 0) (to_be16 (of_nat (length m)) ! 1))) (m @ rest) e =
      Inr (m, rest)"
  using assms by (simp_all add: read_exact_def frame_msg_def to_be16_def unat_of_nat)

text \<open>What a worker's counters satisfy after at most \<open>n\<close> turns, as numbers: nothing wraps.\<close>

definition counts_ok :: "nat \<Rightarrow> 'h stats \<Rightarrow> bool" where
  "counts_ok n s \<longleftrightarrow>
     stats_consistent s \<and> unat (completed s) \<le> unat (sent s) \<and> unat (sent s) \<le> n \<and>
     unat (completed s) + unat (errors s) + unat (timeouts s) \<le> n"

lemma unat_Suc: "unat w < n \<Longrightarrow> n < 2 ^ 64 \<Longrightarrow> unat (w + 1 :: u64) = Suc (unat w)"
  by (simp add: unat_word_ariths)

lemma counts_ok_mono: "counts_ok n s \<Longrightarrow> counts_ok (Suc n) s"
  by (simp add: counts_ok_def)

lemma count_end_ok: "counts_ok n s \<Longrightarrow> Suc n < 2 ^ 64 \<Longrightarrow> counts_ok (Suc n) (count_end e s)"
  by (auto simp: counts_ok_def count_end_def inc_error_def inc_timeout_def stats_consistent_def unat_Suc [of _ "Suc n"]
      split: option.split io_end.split)

lemma exchange_ok:
  assumes "counts_ok n s" "Suc n < 2 ^ 64"
  shows "counts_ok (Suc n) (count_end (x_end (exchange H io q s)) (x_stats (exchange H io q s)))"
proof -
  have u: "unat w \<le> n \<Longrightarrow> unat (w + 1 :: u64) = Suc (unat w)" for w using assms(2) by (simp add: unat_Suc [of _ "Suc n"])
  have r: "counts_ok (Suc n) (count_end e (inc_sent s))" for e
    using assms
    by (auto simp: counts_ok_def count_end_def inc_sent_def inc_error_def inc_timeout_def stats_consistent_def u
        split: option.split io_end.split)
  have rr: "completed (record_response H rc t s') = completed s' + 1" "sent (record_response H rc t s') = sent s'"
    "errors (record_response H rc t s') = errors s'" "timeouts (record_response H rc t s') = timeouts s'" for rc t s'
    by (simp_all add: record_response_def Let_def)
  have rc: "counts_ok (Suc n) (record_response H rc t (inc_sent s))" for rc t
  proof -
    have "stats_consistent (inc_sent s)" using assms(1) by (simp add: counts_ok_def inc_sent_def stats_consistent_def)
    then show ?thesis using assms(1) by (simp add: counts_ok_def rr) (simp add: inc_sent_def u)
  qed
  show ?thesis
    using count_end_ok [OF assms] r r [of None] rc
    by (auto simp: exchange_def Let_def write_stream_def count_end_def [of None] split: option.split sum.split)
qed

lemma stream_query_ok:
  "stream_query H nx io w = Some w' \<Longrightarrow> counts_ok n (sk_stats w) \<Longrightarrow> Suc n < 2 ^ 64 \<Longrightarrow> counts_ok (Suc n) (sk_stats w')"
  using exchange_ok [of n "sk_stats w"] by (auto simp: stream_query_def Let_def split: option.splits)

lemma tcp_iter_ok:
  "tcp_iter H nx io w = Some w' \<Longrightarrow> counts_ok n (sk_stats w) \<Longrightarrow> Suc n < 2 ^ 64 \<Longrightarrow> counts_ok (Suc n) (sk_stats w')"
  using stream_query_ok [of H nx io w w' n] count_end_ok [of n "sk_stats w"] by (auto simp: tcp_iter_def split: option.splits)

lemma dot_iter_ok:
  "dot_iter H nx io w = Some w' \<Longrightarrow> counts_ok n (sk_stats w) \<Longrightarrow> Suc n < 2 ^ 64 \<Longrightarrow> counts_ok (Suc n) (sk_stats w')"
  using stream_query_ok [of H nx io w w' n] count_end_ok [of n "sk_stats w"] by (auto simp: dot_iter_def split: option.splits)

lemma stream_loop_ok:
  assumes "\<And>io w w' n. iter io w = Some w' \<Longrightarrow> counts_ok n (sk_stats w) \<Longrightarrow> Suc n < 2 ^ 64 \<Longrightarrow> counts_ok (Suc n) (sk_stats w')"
  shows "stream_loop iter ios w = Some w' \<Longrightarrow> counts_ok n (sk_stats w) \<Longrightarrow> n + length ios < 2 ^ 64 \<Longrightarrow>
    counts_ok (n + length ios) (sk_stats w')"
proof (induction ios arbitrary: w n)
  case (Cons io ios)
  show ?case
  proof (cases "s_shutdown io")
    case True
    then show ?thesis using Cons.prems by (simp add: counts_ok_def)
  next
    case False
    then obtain w1 where w1: "iter io w = Some w1" "stream_loop iter ios w1 = Some w'"
      using Cons.prems(1) by (auto split: option.splits)
    have "counts_ok (Suc n) (sk_stats w1)" using assms [OF w1(1) Cons.prems(2)] Cons.prems(3) by simp
    from Cons.IH [OF w1(2) this] show ?thesis using Cons.prems(3) by simp
  qed
qed simp

context query_source
begin

lemma stream_returns:
  "usable (sk_src w) \<Longrightarrow> \<exists>w'. stream_query H nxt io w = Some w' \<and> usable (sk_src w')"
  using nxt_returns [of "sk_src w"] by (auto simp: stream_query_def Let_def)

lemma tcp_returns: "usable (sk_src w) \<Longrightarrow> \<exists>w'. run_tcp_worker H nxt ios w = Some w'"
proof (induction ios arbitrary: w)
  case (Cons io ios)
  have "\<exists>w'. tcp_iter H nxt io w = Some w' \<and> usable (sk_src w')"
    using Cons.prems stream_returns [of w H io] by (auto simp: tcp_iter_def split: option.split)
  then show ?case using Cons.IH by (auto simp: run_tcp_worker_def)
qed (simp add: run_tcp_worker_def)

lemma dot_returns: "usable (sk_src w) \<Longrightarrow> \<exists>w'. run_dot_worker ok H nxt ios w = Some w'"
proof (induction ios arbitrary: w)
  case (Cons io ios)
  have "\<exists>w'. dot_iter H nxt io w = Some w' \<and> usable (sk_src w')"
    using Cons.prems stream_returns [of w H io] by (auto simp: dot_iter_def split: option.split)
  then show ?case using Cons.IH by (cases ok) (auto simp: run_dot_worker_def)
qed (simp add: run_dot_worker_def)

end

section \<open>Properties\<close>

text \<open>A worker at its start.\<close>

definition stream_start :: "'h hist_ops \<Rightarrow> u16 \<Rightarrow> 's \<Rightarrow> ('s, 'h) stream_worker" where
  "stream_start H rnd src = \<lparr>sk_id = rnd, sk_src = src, sk_stats = stats_new H, sk_conns = []\<rparr>"

lemma counts_ok_start: "counts_ok 0 (sk_stats (stream_start H rnd src))"
  by (simp add: counts_ok_def stream_start_def) (simp add: stats_new_def)

text \<open>C22: Whatever the connections do, the TCP and the DoT worker return, and no query is counted twice: the completed
  queries are at most the queries sent, completions, errors and timeouts together are at most the
  turns taken, and the completions are the sum of the response-code counters.\<close>

theorem stream_workers_count_once:
  assumes "list_usable src" "length ios < 2 ^ 64"
  shows "(\<exists>w. run_tcp_worker H file_next ios (stream_start H rnd src) = Some w \<and> counts_ok (length ios) (sk_stats w)) \<and>
    (\<exists>w. run_dot_worker sni_ok H file_next ios (stream_start H rnd src) = Some w \<and> counts_ok (length ios) (sk_stats w))"
proof (intro conjI)
  have u: "list_usable (sk_src (stream_start H rnd src))" using assms(1) by (simp add: stream_start_def)
  obtain w where w: "run_tcp_worker H file_next ios (stream_start H rnd src) = Some w" using file_src.tcp_returns [OF u] by blast
  then show "\<exists>w. run_tcp_worker H file_next ios (stream_start H rnd src) = Some w \<and> counts_ok (length ios) (sk_stats w)"
    using stream_loop_ok [OF tcp_iter_ok _ counts_ok_start] assms(2) by (fastforce simp: run_tcp_worker_def)
  obtain v where v: "run_dot_worker sni_ok H file_next ios (stream_start H rnd src) = Some v"
    using file_src.dot_returns [OF u] by blast
  have "counts_ok (length ios) (sk_stats v)"
  proof (cases sni_ok)
    case True
    then show ?thesis
      using v stream_loop_ok [OF dot_iter_ok _ counts_ok_start] assms(2) by (fastforce simp: run_dot_worker_def)
  next
    case False
    then show ?thesis using v counts_ok_start [of H rnd src] by (auto simp: run_dot_worker_def counts_ok_def)
  qed
  with v show "\<exists>w. run_dot_worker sni_ok H file_next ios (stream_start H rnd src) = Some w \<and> counts_ok (length ios) (sk_stats w)"
    by blast
qed

definition one_name_source :: list_source where
  "one_name_source = \<lparr>entries = [\<lparr>qe_name = ''a.b'', qe_qtype = 1\<rparr>], index = 0\<rparr>"

definition test_reply :: bytes where
  "test_reply = [0, 7, 0x84, 3, 0, 1, 0, 0, 0, 0, 0, 0]"

definition test_stream_io :: stream_io where
  "test_stream_io =
     \<lparr>s_shutdown = False, s_connect = None, s_handshake = None, s_write = None, s_input = frame_msg test_reply @ [9],
      s_input_end = Failed, s_rtt_us = 250\<rparr>"

theorem stream_workers_count_once_witness:
  "(\<exists>w. run_tcp_worker list_hist file_next [test_stream_io] (stream_start list_hist 7 one_name_source) = Some w \<and>
      counts_ok 1 (sk_stats w)) \<and>
   (\<exists>w. run_dot_worker True list_hist file_next [test_stream_io] (stream_start list_hist 7 one_name_source) = Some w \<and>
      counts_ok 1 (sk_stats w))"
  using stream_workers_count_once [of one_name_source "[test_stream_io]" list_hist 7 True]
  by (simp add: list_usable_def one_name_source_def)

lemma test_query: "length (build_query 7 ''a.b'' 1) = 21" by code_simp

lemma test_reply_parses: "parse_response test_reply = Some \<lparr>resp_id = 7, resp_rcode = 3\<rparr>" by code_simp

text \<open>When the peer answers with a framed response, the TCP worker has written exactly one framed query, which
  reads back as the query it built, and counts one sent and one completed query and nothing else.\<close>

theorem tcp_exchange_completes:
  assumes "s_connect io = None" "s_write io = None" "s_input io = frame_msg resp @ extra"
    and "length resp < 65536" "parse_response resp = Some info"
    and "nx (sk_src w) = Some (entry, src)"
    and "q = build_query (sk_id w) (qe_name entry) (qe_qtype entry)" "length q < 65536"
  shows "\<exists>w'. tcp_iter H nx io w = Some w' \<and> sk_conns w' = sk_conns w @ [frame_msg q] \<and>
    read_exact (unat (from_be16 (frame_msg q ! 0) (frame_msg q ! 1))) (drop 2 (frame_msg q)) e = Inr (q, []) \<and>
    sk_stats w' = record_response H (resp_rcode info) (s_rtt_us io) (inc_sent (sk_stats w))"
proof -
  have f: "frame_msg q ! 0 = to_be16 (of_nat (length q)) ! 0" "frame_msg q ! 1 = to_be16 (of_nat (length q)) ! 1"
    "drop 2 (frame_msg q) = q @ []" by (simp_all add: frame_msg_def to_be16_def)
  have "exchange H io q (sk_stats w) =
      \<lparr>x_wire = frame_msg q, x_end = None, x_stats = record_response H (resp_rcode info) (s_rtt_us io) (inc_sent (sk_stats w))\<rparr>"
    using assms(2-5) read_frame_msg [OF assms(4)] by (simp add: exchange_def write_stream_def)
  then show ?thesis
    using assms(1,6,7) read_frame_msg(2) [OF assms(8), of "[]" e] unfolding f
    by (simp add: tcp_iter_def stream_query_def count_end_def)
qed

theorem tcp_exchange_completes_witness:
  "\<exists>w. tcp_iter list_hist file_next test_stream_io (stream_start list_hist 7 one_name_source) = Some w \<and>
     completed (sk_stats w) = 1 \<and> sent (sk_stats w) = 1 \<and> rcode_nxdomain (sk_stats w) = 1 \<and>
     sk_conns w = [frame_msg (build_query 7 ''a.b'' 1)]"
proof -
  let ?w = "stream_start list_hist 7 one_name_source"
  have n: "file_next (sk_src ?w) = Some (\<lparr>qe_name = ''a.b'', qe_qtype = 1\<rparr>, one_name_source\<lparr>index := 1\<rparr>)"
    by (simp add: stream_start_def one_name_source_def file_next_def Let_def idx_def)
  show ?thesis
    using tcp_exchange_completes 
      [where H = list_hist and e = Failed and io = test_stream_io and resp = test_reply and extra = "[9]" and nx = file_next
        and w = "stream_start list_hist 7 one_name_source", OF _ _ _ _ test_reply_parses n refl]
    by (force simp: test_stream_io_def test_query test_reply_def stream_start_def record_response_def inc_sent_def stats_new_def)
qed

end
