(* ===== verification/Engine.thy ===== *)
theory Engine
  imports Multi_Nic Ramp Xdp_Start
begin

text \<open>
  The engine of \<^verbatim>\<open>src/engine/mod.rs\<close>: the NIC counters it reads, the start of a run (query source, pool, probe, rate,
  XDP path, workers), the end of a run as a transition system over the shutdown flag and the
  notification the main task waits for, the final snapshot, the comparison of \<^verbatim>\<open>src/engine/compare.rs\<close> and the memory
  guard of \<^verbatim>\<open>src/stats/oom_guard.rs\<close>. System calls, the environment and the command \<^verbatim>\<open>ethtool\<close> are parameters.
\<close>

section \<open>NIC counters\<close>

text \<open>The standard output of \<^verbatim>\<open>ethtool -S\<close>, when it succeeds.\<close>

definition counter_token :: "string \<Rightarrow> string \<Rightarrow> u64 option" where
  "counter_token key line =
     do { rest \<leftarrow> strip_prefix key (trim line);
          tok \<leftarrow> (case split_whitespace (trim (trim_start_matches (\<lambda>c. c = CHR '':'' \<or> c = CHR '' '') rest)) of
                    [] \<Rightarrow> None | t # _ \<Rightarrow> Some t);
          n \<leftarrow> parse_unsigned (2 ^ 64) tok;
          Some (of_nat n) }"

fun first_counter :: "string list \<Rightarrow> string list \<Rightarrow> u64 option" where
  "first_counter [] ls = None"
| "first_counter (key # keys) ls =
     (case filter_map (counter_token key) ls of [] \<Rightarrow> first_counter keys ls | n # _ \<Rightarrow> Some n)"

definition nic_wire_tx_packets :: "string option \<Rightarrow> u64 option" where
  "nic_wire_tx_packets ethtool_stdout =
     (case ethtool_stdout of
        None \<Rightarrow> None
      | Some s \<Rightarrow> first_counter [''tx_pkts_nic'', ''port.tx_unicast'', ''tx_unicast''] (lines s))"

definition stat_file :: "host \<Rightarrow> string \<Rightarrow> string \<Rightarrow> u64 option" where
  "stat_file h iface f =
     do { s \<leftarrow> read_to_string h (''/sys/class/net/'' @ iface @ ''/statistics/'' @ f);
          n \<leftarrow> parse_unsigned (2 ^ 64) (trim s);
          Some (of_nat n) }"

definition stat_or_0 :: "host \<Rightarrow> string \<Rightarrow> string \<Rightarrow> u64" where
  "stat_or_0 h iface f = (case stat_file h iface f of Some n \<Rightarrow> n | None \<Rightarrow> 0)"

definition nic_rx_packets :: "host \<Rightarrow> string \<Rightarrow> u64 option" where
  "nic_rx_packets h iface =
     do { pkts \<leftarrow> stat_file h iface ''rx_packets'';
          Some (pkts + stat_or_0 h iface ''rx_missed_errors'' + stat_or_0 h iface ''rx_fifo_errors'' +
                stat_or_0 h iface ''rx_over_errors'') }"

definition nic_rx_bytes :: "host \<Rightarrow> string \<Rightarrow> u64 option" where
  "nic_rx_bytes h iface = stat_file h iface ''rx_bytes''"

text \<open>The physical interfaces the targets are reached through, without repetition, in order.\<close>

definition push_new :: "string list \<Rightarrow> string \<Rightarrow> string list" where
  "push_new ifs i = (if i \<in> set ifs then ifs else ifs @ [i])"

definition target_iface :: "host \<Rightarrow> ifaddr_mask list option \<Rightarrow> ip_addr \<Rightarrow> string" where
  "target_iface h ifas srv =
     (let i = iface_for_benchmark h ifas srv in case parent_interface h i of Some p \<Rightarrow> p | None \<Rightarrow> i)"

definition return_ifaces :: "host \<Rightarrow> ifaddr_mask list option \<Rightarrow> config \<Rightarrow> string list" where
  "return_ifaces h ifas cfg =
     (let srvs = (if c_servers cfg = [] then [c_server cfg] else c_servers cfg)
      in foldl (\<lambda>ifs srv. push_new ifs (target_iface h ifas srv)) [] srvs)"

section \<open>Starting a run\<close>

datatype 'r engine_source = RandomSrc "'r random_source" | FileSrc list_source | BuiltinSrc list_source

definition choose_source :: "(string \<Rightarrow> string option) \<Rightarrow> string \<Rightarrow> 'r \<Rightarrow> config \<Rightarrow> load_error + 'r engine_source" where
  "choose_source files corpus rng cfg =
     (if c_random cfg then Inr (RandomSrc (random_new (c_random_domain cfg) (c_random_qtype cfg) rng))
      else
        (case c_query_file cfg of
           Some path \<Rightarrow> map_sum id FileSrc (file_load files path)
         | None \<Rightarrow> Inr (BuiltinSrc (builtin_new corpus))))"

text \<open>The wire-latency mode has its own choice: the file when there is one, else random names.\<close>

definition wire_source :: "(string \<Rightarrow> string option) \<Rightarrow> 'r \<Rightarrow> config \<Rightarrow> load_error + 'r engine_source" where
  "wire_source files rng cfg =
     (case c_query_file cfg of
        Some path \<Rightarrow> map_sum id FileSrc (file_load files path)
      | None \<Rightarrow> Inr (RandomSrc (random_new (c_random_domain cfg) (c_random_qtype cfg) rng)))"

fun source_pairs :: "('r \<Rightarrow> 128 word \<times> 'r) \<Rightarrow> 'r engine_source \<Rightarrow> (string \<times> u16) list \<times> 'r engine_source" where
  "source_pairs rng (RandomSrc s) = (case random_all_wire_pairs rng s of (ps, s') \<Rightarrow> (ps, RandomSrc s'))"
| "source_pairs rng (FileSrc s) = (case file_all_wire_pairs s of (ps, s') \<Rightarrow> (ps, FileSrc s'))"
| "source_pairs rng (BuiltinSrc s) = (case builtin_all_wire_pairs s of (ps, s') \<Rightarrow> (ps, BuiltinSrc s'))"

definition initial_qps_per_worker :: "config \<Rightarrow> u64" where
  "initial_qps_per_worker cfg =
     (if c_ramp cfg then max (current_qps (ramp_new False) div of_nat (max (c_concurrent cfg) 1)) 1
      else if 0 < c_qps cfg then max (c_qps cfg div of_nat (max (c_concurrent cfg) 1)) 1
      else 0)"

definition xdp_cap_hint :: "string \<Rightarrow> string" where
  "xdp_cap_hint e =
     (if contains ''Operation not permitted'' e \<or> contains ''EPERM'' e \<or> contains ''BPF_PROG_LOAD'' e
      then ''To enable XDP: sudo setcap cap_net_raw,cap_net_admin,cap_bpf+eip $(which dnsmark)''
      else [])"

datatype engine_error = QueryFileError load_error | ProbeBindFailed | ServerUnreachable | XdpUnavailable string

datatype worker_task = XdpSenderTask nat | UdpTask nat | TcpTask nat | DotTask nat

record 'r engine_env =
  ee_host :: host
  ee_ifaddrs :: "ifaddr_mask list option"
  ee_corpus :: string
  ee_rng :: "'r \<Rightarrow> 128 word \<times> 'r"
  ee_rng0 :: 'r
  ee_probe_bind :: bool
  ee_probe_connect :: bool
  ee_xdp_tx :: "string option"
  ee_start :: start_env
  ee_err_text :: "start_error \<Rightarrow> string"

definition xdp_tx_enabled :: "string option \<Rightarrow> bool" where
  "xdp_tx_enabled v = (case v of Some s \<Rightarrow> s \<noteq> ''0'' | None \<Rightarrow> True)"

text \<open>Whether the XDP path is used. The branch that would fall back is under the same flag as the attempt.\<close>

definition start_datapath :: "'r engine_env \<Rightarrow> config \<Rightarrow> wire_query_pool \<Rightarrow> xdp_globals \<Rightarrow>
    (engine_error + bool \<times> start_result option) \<times> xdp_globals" where
  "start_datapath e cfg pool g =
     (if c_force_xdp cfg \<and> c_protocol cfg = Udp then
        let iface = iface_for_benchmark (ee_host e) (ee_ifaddrs e) (c_server cfg);
            g = (if xdp_tx_enabled (ee_xdp_tx e)
                 then set_unified_cfg iface
                        \<lparr>uc_pool = pool, uc_max_out = c_max_outstanding cfg, uc_total_qps = c_qps cfg, uc_ramp = c_ramp cfg\<rparr> g
                 else g)
        in (case start_xdp_receive_path (ee_host e) (ee_start e) iface (c_server cfg) (c_port cfg) (c_timeout_ms cfg * 1000000) g of
              (Inr res, g) \<Rightarrow> (Inr (True, Some res), g)
            | (Inl err, g) \<Rightarrow>
                let msg = ee_err_text e err; hint = xdp_cap_hint msg
                in if c_force_xdp cfg then
                     (Inl (XdpUnavailable
                        (if hint = [] then ''XDP unavailable: '' @ msg else ''XDP unavailable: '' @ msg @ [CHR 0x0A] @ hint)), g)
                   else (Inr (False, None), g))
      else (Inr (False, None), g))"

definition spawn_workers :: "bool \<Rightarrow> config \<Rightarrow> worker_task list" where
  "spawn_workers xdp_on cfg =
     (if xdp_on then map XdpSenderTask [0..<c_concurrent cfg]
      else map (case c_protocol cfg of Udp \<Rightarrow> UdpTask | Tcp \<Rightarrow> TcpTask | Dot \<Rightarrow> DotTask) [0..<c_concurrent cfg])"

record 'r started =
  en_source :: "'r engine_source"
  en_pool :: wire_query_pool
  en_qps :: u64
  en_use_xdp :: bool
  en_workers :: "worker_task list"

text \<open>\<^verbatim>\<open>run_with_shutdown\<close> up to the spawned workers; \<open>None\<close> is the panic of a pool built from no pairs.\<close>

definition engine_start :: "'r engine_env \<Rightarrow> config \<Rightarrow> xdp_globals \<Rightarrow> ((engine_error + 'r started) \<times> xdp_globals) option" where
  "engine_start e cfg g =
     (case choose_source (read_to_string (ee_host e)) (ee_corpus e) (ee_rng0 e) cfg of
        Inl err \<Rightarrow> Some (Inl (QueryFileError err), g)
      | Inr src0 \<Rightarrow>
          (case source_pairs (ee_rng e) src0 of
             (pairs, src) \<Rightarrow>
               do { pool \<leftarrow> from_pairs pairs;
                    if c_protocol cfg = Udp \<and> \<not> ee_probe_bind e then Some (Inl ProbeBindFailed, g)
                    else if c_protocol cfg = Udp \<and> \<not> ee_probe_connect e then Some (Inl ServerUnreachable, g)
                    else
                      (case start_datapath e cfg pool g of
                         (Inl err, g) \<Rightarrow> Some (Inl err, g)
                       | (Inr (xdp_on, res), g) \<Rightarrow>
                           let qps0 = initial_qps_per_worker cfg;
                               qps = (case res of Some r \<Rightarrow> (case sr_rate r of Some q \<Rightarrow> q | None \<Rightarrow> qps0) | None \<Rightarrow> qps0)
                           in Some (Inr \<lparr>en_source = src, en_pool = pool, en_qps = qps, en_use_xdp = xdp_on,
                                         en_workers = spawn_workers xdp_on cfg\<rparr>, g)) }))"

section \<open>The end of a run\<close>

text \<open>Seconds of warm-up before the window is reset: \<open>None\<close> when there is none.\<close>

definition warmup_secs :: "string option \<Rightarrow> config \<Rightarrow> u64 option" where
  "warmup_secs env cfg =
     (if c_ramp cfg then None
      else
        let warmup = (case env of
              Some v \<Rightarrow> (case parse_unsigned (2 ^ 64) v of Some n \<Rightarrow> of_nat n | None \<Rightarrow> 5)
            | None \<Rightarrow> 5)
        in if 0 < warmup \<and> warmup < c_duration_secs cfg then Some warmup else None)"

record nic_reading =
  nr_ethtool :: "string \<Rightarrow> string option"
  nr_host :: host

definition wire_total :: "nic_reading \<Rightarrow> string list \<Rightarrow> u64" where
  "wire_total r ifs = sum_list (filter_map (\<lambda>i. nic_wire_tx_packets (nr_ethtool r i)) ifs)"

definition rx_total :: "nic_reading \<Rightarrow> string list \<Rightarrow> u64" where
  "rx_total r ifs = sum_list (filter_map (nic_rx_packets (nr_host r)) ifs)"

definition rx_bytes_total :: "nic_reading \<Rightarrow> string list \<Rightarrow> u64" where
  "rx_bytes_total r ifs = sum_list (filter_map (nic_rx_bytes (nr_host r)) ifs)"

definition link_total :: "nic_reading \<Rightarrow> string list \<Rightarrow> u64" where
  "link_total r ifs = sum_list (filter_map (\<lambda>i. map_option of_nat (nic_speed_mbps (nr_host r) i)) ifs)"

text \<open>The snapshot of the counters, with the peak of the ramp and the deltas of the NIC counters between the
  reading at the start of the window and the one at its end.\<close>

definition add_capacity :: "config \<Rightarrow> u64 \<Rightarrow> stats_snapshot \<Rightarrow> stats_snapshot" where
  "add_capacity cfg peak snap = (if c_ramp cfg \<and> 0 < peak then snap\<lparr>ramp_capacity := Some (f_of_u64 peak)\<rparr> else snap)"

definition add_wire :: "string list option \<Rightarrow> nic_reading \<Rightarrow> nic_reading \<Rightarrow> f64 \<Rightarrow> stats_snapshot \<Rightarrow> stats_snapshot" where
  "add_wire ifs r0 r1 elapsed snap =
     (case ifs of
        None \<Rightarrow> snap
      | Some ifs \<Rightarrow>
          let secs = f_max elapsed (f_lit (1 / 1000000000))
          in snap\<lparr>wire_qps := Some (f_div (f_of_u64 (sat_sub (wire_total r1 ifs) (wire_total r0 ifs))) secs)\<rparr>)"

definition add_rx :: "string list \<Rightarrow> nic_reading \<Rightarrow> nic_reading \<Rightarrow> f64 \<Rightarrow> stats_snapshot \<Rightarrow> stats_snapshot" where
  "add_rx ifs r0 r1 elapsed snap =
     (if 0 < rx_total r0 ifs \<or> ifs \<noteq> [] then
        let secs = f_max elapsed (f_lit (1 / 1000000000));
            dpkts = sat_sub (rx_total r1 ifs) (rx_total r0 ifs);
            dbytes = sat_sub (rx_bytes_total r1 ifs) (rx_bytes_total r0 ifs);
            snap = snap\<lparr>server_rx_qps := Some (f_div (f_of_u64 dpkts) secs)\<rparr>;
            snap = (if 0 < dpkts \<and> 0 < dbytes
                    then snap\<lparr>server_rx_avg_bytes := Some (f_div (f_of_u64 dbytes) (f_of_u64 dpkts))\<rparr> else snap);
            mbps = link_total r1 ifs
        in if 0 < mbps then snap\<lparr>link_mbps := Some mbps\<rparr> else snap
      else snap)"

definition final_snapshot :: "'h hist_ops \<Rightarrow> 'r engine_env \<Rightarrow> config \<Rightarrow> bool \<Rightarrow> u64 \<Rightarrow> nic_reading \<Rightarrow> nic_reading \<Rightarrow>
    f64 \<Rightarrow> 'h stats \<Rightarrow> stats_snapshot" where
  "final_snapshot H e cfg xdp_on peak r0 r1 elapsed st =
     (let ifs = return_ifaces (ee_host e) (ee_ifaddrs e) cfg
      in add_rx ifs r0 r1 elapsed (add_wire (if xdp_on then Some ifs else None) r0 r1 elapsed
           (add_capacity cfg peak (snapshot H elapsed st))))"

section \<open>The memory guard\<close>

datatype guard_tick = GuardStop | GuardSkip | GuardFire | GuardOn

definition oom_tick :: "bool \<Rightarrow> host \<Rightarrow> guard_tick" where
  "oom_tick shut h =
     (if shut then GuardStop
      else (case read_proc_meminfo_total_and_avail_kb h of
              (tot, avail) \<Rightarrow>
                if tot = 0 then GuardSkip else if avail * 100 div tot < 10 then GuardFire else GuardOn))"

section \<open>How a run ends\<close>

text \<open>
  The tasks share the shutdown flag; the main task waits for the timer (fixed duration), for the
  notification of the ramp task (ramp) or for Ctrl-C, then for every task.
\<close>

datatype main_pc = Waiting | Joining | Finished

record run_ctl =
  rc_ramp :: bool
  rc_shutdown :: bool
  rc_notified :: bool
  rc_ramp_live :: bool
  rc_guard_live :: bool
  rc_tui_live :: bool
  rc_workers :: nat
  rc_main :: main_pc

datatype run_event =
  MemoryLow host | GuardStops | WorkerStops | RampStops | RampSaturates | TuiQuits | TuiStops
  | TimerFires | RampDone | CtrlC | AllJoined

inductive run_step :: "run_ctl \<Rightarrow> run_event \<Rightarrow> run_ctl \<Rightarrow> bool" where
  memory_low: "rc_guard_live s \<Longrightarrow> oom_tick (rc_shutdown s) h = GuardFire \<Longrightarrow>
    run_step s (MemoryLow h) (s\<lparr>rc_shutdown := True, rc_guard_live := False\<rparr>)"
| guard_stops: "rc_guard_live s \<Longrightarrow> oom_tick (rc_shutdown s) h = GuardStop \<Longrightarrow>
    run_step s GuardStops (s\<lparr>rc_guard_live := False\<rparr>)"
| worker_stops: "rc_shutdown s \<Longrightarrow> 0 < rc_workers s \<Longrightarrow> run_step s WorkerStops (s\<lparr>rc_workers := rc_workers s - 1\<rparr>)"
| ramp_stops: "rc_ramp_live s \<Longrightarrow> rc_shutdown s \<Longrightarrow> run_step s RampStops (s\<lparr>rc_ramp_live := False\<rparr>)"
| ramp_saturates: "rc_ramp_live s \<Longrightarrow>
    run_step s RampSaturates (s\<lparr>rc_shutdown := True, rc_notified := True, rc_ramp_live := False\<rparr>)"
| tui_quits: "rc_tui_live s \<Longrightarrow> run_step s TuiQuits (s\<lparr>rc_shutdown := True, rc_tui_live := False\<rparr>)"
| tui_stops: "rc_tui_live s \<Longrightarrow> rc_shutdown s \<Longrightarrow> run_step s TuiStops (s\<lparr>rc_tui_live := False\<rparr>)"
| timer: "rc_main s = Waiting \<Longrightarrow> \<not> rc_ramp s \<Longrightarrow> run_step s TimerFires (s\<lparr>rc_shutdown := True, rc_main := Joining\<rparr>)"
| ramp_done: "rc_main s = Waiting \<Longrightarrow> rc_ramp s \<Longrightarrow> rc_notified s \<Longrightarrow>
    run_step s RampDone (s\<lparr>rc_shutdown := True, rc_notified := False, rc_main := Joining\<rparr>)"
| ctrl_c: "rc_main s = Waiting \<Longrightarrow> run_step s CtrlC (s\<lparr>rc_shutdown := True, rc_main := Joining\<rparr>)"
| all_joined: "rc_main s = Joining \<Longrightarrow> rc_workers s = 0 \<Longrightarrow> \<not> rc_ramp_live s \<Longrightarrow> \<not> rc_tui_live s \<Longrightarrow>
    run_step s AllJoined (s\<lparr>rc_main := Finished\<rparr>)"

inductive run_steps :: "run_ctl \<Rightarrow> run_event list \<Rightarrow> run_ctl \<Rightarrow> bool" where
  steps_nil: "run_steps s [] s"
| steps_cons: "run_step s ev s' \<Longrightarrow> run_steps s' evs s'' \<Longrightarrow> run_steps s (ev # evs) s''"

definition run_start :: "bool \<Rightarrow> bool \<Rightarrow> nat \<Rightarrow> run_ctl" where
  "run_start ramp tui n_workers =
     \<lparr>rc_ramp = ramp, rc_shutdown = False, rc_notified = False, rc_ramp_live = ramp, rc_guard_live = True,
      rc_tui_live = tui, rc_workers = n_workers, rc_main = Waiting\<rparr>"

section \<open>Comparison\<close>

definition compare_config :: "config \<Rightarrow> ip_addr \<Rightarrow> config" where
  "compare_config cfg secondary = cfg\<lparr>c_server := secondary, c_no_tui := True\<rparr>"

record compare_result =
  cr_primary :: stats_snapshot
  cr_secondary :: stats_snapshot
  cr_primary_addr :: ip_addr
  cr_secondary_addr :: ip_addr

definition run_compare :: "(config \<Rightarrow> 'e + stats_snapshot) \<Rightarrow> config \<Rightarrow> ip_addr \<Rightarrow> 'e + compare_result" where
  "run_compare run cfg secondary =
     (case run cfg of
        Inl e \<Rightarrow> Inl e
      | Inr a \<Rightarrow>
          (case run (compare_config cfg secondary) of
             Inl e \<Rightarrow> Inl e
           | Inr b \<Rightarrow> Inr \<lparr>cr_primary = a, cr_secondary = b, cr_primary_addr = c_server cfg, cr_secondary_addr = secondary\<rparr>))"

inductive_cases run_stepE: "run_step s ev s'"
inductive_cases run_steps_consE: "run_steps s (ev # evs) s'"
inductive_cases run_steps_nilE: "run_steps s [] s'"

section \<open>Lemmas on ending\<close>

text \<open>A ramp run whose main task can only be ended by Ctrl-C.\<close>

definition hung :: "run_ctl \<Rightarrow> bool" where
  "hung s \<longleftrightarrow> rc_main s = Waiting \<and> rc_ramp s \<and> \<not> rc_ramp_live s \<and> \<not> rc_notified s"

lemma hung_step: "run_step s ev s' \<Longrightarrow> hung s \<Longrightarrow> ev \<noteq> CtrlC \<Longrightarrow> hung s'"
  by (erule run_stepE) (auto simp: hung_def)

lemma hung_steps: "run_steps s evs s' \<Longrightarrow> hung s \<Longrightarrow> CtrlC \<notin> set evs \<Longrightarrow> hung s'"
  by (induction rule: run_steps.induct) (auto dest: hung_step)

lemma run_steps_append: "run_steps s es s' \<Longrightarrow> run_steps s' fs s'' \<Longrightarrow> run_steps s (es @ fs) s''"
  by (induction rule: run_steps.induct) (auto intro: run_steps.intros)

text \<open>Joining implies that the shutdown flag is set, so every task stops and the main task finishes.\<close>

definition run_inv :: "run_ctl \<Rightarrow> bool" where
  "run_inv s \<longleftrightarrow> (rc_main s \<noteq> Waiting \<longrightarrow> rc_shutdown s)"

lemma run_inv_step: "run_step s ev s' \<Longrightarrow> run_inv s \<Longrightarrow> run_inv s'"
  by (erule run_stepE) (auto simp: run_inv_def)

lemma run_inv_steps: "run_steps s evs s' \<Longrightarrow> run_inv s \<Longrightarrow> run_inv s'"
  by (induction rule: run_steps.induct) (auto dest: run_inv_step)

lemma workers_stop:
  "rc_shutdown s \<Longrightarrow> run_steps s (replicate (rc_workers s) WorkerStops) (s\<lparr>rc_workers := 0\<rparr>)"
proof (induction "rc_workers s" arbitrary: s)
  case 0
  then show ?case using steps_nil [of s] by (cases s) simp
next
  case (Suc n)
  then have "run_step s WorkerStops (s\<lparr>rc_workers := n\<rparr>)" using worker_stops [of s] by (metis diff_Suc_1 zero_less_Suc)
  moreover have "run_steps (s\<lparr>rc_workers := n\<rparr>) (replicate n WorkerStops) (s\<lparr>rc_workers := 0\<rparr>)"
    using Suc(1) [of "s\<lparr>rc_workers := n\<rparr>"] Suc(3) by simp
  ultimately show ?case unfolding Suc(2) [symmetric] replicate_Suc by (rule steps_cons)
qed

lemma joining_finishes:
  assumes "rc_main s = Joining" "rc_shutdown s"
  shows "\<exists>evs s'. run_steps s evs s' \<and> rc_main s' = Finished \<and> CtrlC \<notin> set evs"
proof -
  let ?a = "s\<lparr>rc_workers := 0\<rparr>" and ?b = "s\<lparr>rc_workers := 0, rc_ramp_live := False\<rparr>"
  let ?c = "s\<lparr>rc_workers := 0, rc_ramp_live := False, rc_tui_live := False\<rparr>"
  have a: "run_steps s (replicate (rc_workers s) WorkerStops) ?a" using workers_stop assms(2) .
  have b: "\<exists>es. run_steps ?a es ?b \<and> CtrlC \<notin> set es"
  proof (cases "rc_ramp_live s")
    case True
    then have "run_step ?a RampStops ?b" using ramp_stops [of ?a] assms(2) by simp
    then show ?thesis using steps_cons [OF _ steps_nil] by (intro exI [of _ "[RampStops]"]) simp
  next
    case False
    then show ?thesis using steps_nil [of ?a] by (intro exI [of _ "[]"]) (cases s; simp)
  qed
  have c: "\<exists>es. run_steps ?b es ?c \<and> CtrlC \<notin> set es"
  proof (cases "rc_tui_live s")
    case True
    then have "run_step ?b TuiStops ?c" using tui_stops [of ?b] assms(2) by simp
    then show ?thesis using steps_cons [OF _ steps_nil] by (intro exI [of _ "[TuiStops]"]) simp
  next
    case False
    then show ?thesis using steps_nil [of ?b] by (intro exI [of _ "[]"]) (cases s; simp)
  qed
  have d: "run_steps ?c [AllJoined] (?c\<lparr>rc_main := Finished\<rparr>)"
    using all_joined [of ?c] assms(1) by (intro steps_cons [OF _ steps_nil]) simp
  from b c obtain es fs where "run_steps ?a es ?b" "run_steps ?b fs ?c" "CtrlC \<notin> set es" "CtrlC \<notin> set fs" by blast
  with a d have "run_steps s (replicate (rc_workers s) WorkerStops @ es @ fs @ [AllJoined]) (?c\<lparr>rc_main := Finished\<rparr>)"
    by (blast intro: run_steps_append)
  with \<open>CtrlC \<notin> set es\<close> \<open>CtrlC \<notin> set fs\<close> show ?thesis
    by (intro exI [of _ "replicate (rc_workers s) WorkerStops @ es @ fs @ [AllJoined]"]
        exI [of _ "?c\<lparr>rc_main := Finished\<rparr>"]) simp
qed

lemma waiting_finishes:
  assumes "rc_main s = Waiting" "\<not> hung s"
  shows "\<exists>evs s'. run_steps s evs s' \<and> rc_main s' = Finished \<and> CtrlC \<notin> set evs"
proof -
  have "\<exists>evs s'. run_steps s evs s' \<and> rc_main s' = Joining \<and> rc_shutdown s' \<and> CtrlC \<notin> set evs"
  proof (cases "rc_ramp s")
    case False
    then have "run_steps s [TimerFires] (s\<lparr>rc_shutdown := True, rc_main := Joining\<rparr>)"
      using assms(1) by (intro steps_cons [OF timer steps_nil])
    then show ?thesis by fastforce
  next
    case True
    show ?thesis
    proof (cases "rc_notified s")
      case True
      then have "run_steps s [RampDone] (s\<lparr>rc_shutdown := True, rc_notified := False, rc_main := Joining\<rparr>)"
        using assms(1) \<open>rc_ramp s\<close> by (intro steps_cons [OF ramp_done steps_nil])
      then show ?thesis by fastforce
    next
      case False
      let ?t = "s\<lparr>rc_shutdown := True, rc_notified := True, rc_ramp_live := False\<rparr>"
      have "run_step s RampSaturates ?t" using assms False \<open>rc_ramp s\<close> by (intro ramp_saturates) (simp add: hung_def)
      moreover have "run_steps ?t [RampDone] (?t\<lparr>rc_shutdown := True, rc_notified := False, rc_main := Joining\<rparr>)"
        using assms(1) \<open>rc_ramp s\<close> by (intro steps_cons [OF ramp_done steps_nil]) simp_all
      ultimately have "run_steps s [RampSaturates, RampDone]
          (?t\<lparr>rc_shutdown := True, rc_notified := False, rc_main := Joining\<rparr>)" by (rule steps_cons)
      then show ?thesis by fastforce
    qed
  qed
  then obtain es t where t: "run_steps s es t" "rc_main t = Joining" "rc_shutdown t" "CtrlC \<notin> set es" by blast
  from joining_finishes [OF t(2,3)] obtain fs u where "run_steps t fs u" "rc_main u = Finished" "CtrlC \<notin> set fs" by blast
  with t run_steps_append [OF t(1)] show ?thesis by (metis Un_iff set_append)
qed

lemma finishes_iff:
  assumes "run_inv s"
  shows "(\<exists>evs s'. run_steps s evs s' \<and> rc_main s' = Finished \<and> CtrlC \<notin> set evs) \<longleftrightarrow> \<not> hung s"
proof
  assume "\<exists>evs s'. run_steps s evs s' \<and> rc_main s' = Finished \<and> CtrlC \<notin> set evs"
  then show "\<not> hung s" using hung_steps by (fastforce simp: hung_def)
next
  assume h: "\<not> hung s"
  show "\<exists>evs s'. run_steps s evs s' \<and> rc_main s' = Finished \<and> CtrlC \<notin> set evs"
  proof (cases "rc_main s")
    case Waiting
    then show ?thesis using waiting_finishes h by blast
  next
    case Joining
    then show ?thesis using joining_finishes assms by (simp add: run_inv_def)
  next
    case Finished
    then show ?thesis using steps_nil by (metis empty_iff empty_set)
  qed
qed

section \<open>Other lemmas\<close>

lemma return_ifaces_servers:
  "c_servers cfg \<noteq> [] \<Longrightarrow> c_servers cfg' = c_servers cfg \<Longrightarrow> return_ifaces h ifas cfg' = return_ifaces h ifas cfg"
  by (simp add: return_ifaces_def)

lemma push_new_distinct: "distinct ifs \<Longrightarrow> distinct (push_new ifs i)"
  by (simp add: push_new_def)

lemma return_ifaces_fold:
  "distinct acc \<Longrightarrow> distinct (foldl (\<lambda>ifs srv. push_new ifs (f srv)) acc srvs) \<and>
     set (foldl (\<lambda>ifs srv. push_new ifs (f srv)) acc srvs) = set acc \<union> f ` set srvs"
proof (induction srvs arbitrary: acc)
  case (Cons srv srvs)
  have "set (push_new acc (f srv)) = insert (f srv) (set acc)" by (auto simp: push_new_def)
  then show ?case using Cons.IH [of "push_new acc (f srv)"] Cons.prems push_new_distinct by auto
qed simp

lemma rate_share:
  fixes q :: u64
  assumes "0 < c" "c < 2 ^ 64"
  shows "unat (max (q div of_nat c) 1) * c \<le> max (unat q) c \<and> unat q < Suc (unat (max (q div of_nat c) 1)) * c"
proof -
  have d: "unat (q div of_nat c) = unat q div c" using assms(2) by (simp add: unat_div unat_of_nat)
  have b: "unat q div c * c \<le> unat q" "unat q < Suc (unat q div c) * c"
    using assms(1) dividend_less_times_div [of c "unat q"] by (simp_all add: mult.commute)
  show ?thesis
  proof (cases "unat q div c = 0")
    case True
    then have "unat q < c" using b(2) by simp
    moreover have "max (q div of_nat c) 1 = 1" using d True by (simp add: unat_eq_zero)
    ultimately show ?thesis by simp
  next
    case False
    then have "1 \<le> q div of_nat c" using d by (simp add: word_le_nat_alt)
    then have "max (q div of_nat c) 1 = q div of_nat c" by (rule max_absorb1)
    then show ?thesis using b d by (simp add: le_max_iff_disj)
  qed
qed

lemma start_datapath_uses:
  "start_datapath e cfg pool g = (Inr (on, res), g') \<Longrightarrow>
     on = (c_force_xdp cfg \<and> c_protocol cfg = Udp) \<and> (\<not> on \<longrightarrow> res = None)"
  by (auto simp: start_datapath_def Let_def split: if_splits prod.splits sum.splits)

lemma engine_start_cases:
  assumes "engine_start e cfg g = Some (Inr s, g')"
  shows "en_use_xdp s = (c_force_xdp cfg \<and> c_protocol cfg = Udp) \<and>
    (\<not> en_use_xdp s \<longrightarrow> en_qps s = initial_qps_per_worker cfg) \<and> en_workers s = spawn_workers (en_use_xdp s) cfg"
  using assms
  by (auto simp: engine_start_def Let_def split: sum.splits prod.splits Option.bind_splits if_splits
      dest!: start_datapath_uses)

section \<open>Properties\<close>


definition kernel_env :: "unit engine_env" where
  "kernel_env =
     \<lparr>ee_host = route_host, ee_ifaddrs = None, ee_corpus = ''example.com A'', ee_rng = (\<lambda>_. (0, ())), ee_rng0 = (),
      ee_probe_bind = True, ee_probe_connect = True, ee_xdp_tx = None, ee_start = start_ok, ee_err_text = (\<lambda>_. [])\<rparr>"

lemma kernel_starts:
  assumes "c_protocol cfg = Udp" "\<not> c_force_xdp cfg" "\<not> c_random cfg" "c_query_file cfg = None"
  shows "\<exists>s. engine_start kernel_env cfg globals_new = Some (Inr s, globals_new)"
proof -
  have "parse_corpus ''example.com A'' \<noteq> []" by code_simp
  then have "\<exists>pool. from_pairs (map entry_pair (parse_corpus ''example.com A'')) = Some pool" by (simp add: from_pairs_def)
  then show ?thesis
    using assms
    by (auto simp: engine_start_def choose_source_def kernel_env_def builtin_new_def builtin_all_wire_pairs_def start_datapath_def Let_def)
qed


text \<open>C11: Every run can end by itself, without Ctrl-C, from every state it reaches, except from those where the ramp task has
  stopped without notifying the main task.\<close>

theorem run_ends_unless_hung:
  assumes "run_steps (run_start ramp tui n_workers) evs s"
  shows "(\<exists>evs' s'. run_steps s evs' s' \<and> rc_main s' = Finished \<and> CtrlC \<notin> set evs') \<longleftrightarrow> \<not> hung s"
  using run_inv_steps [OF assms] by (intro finishes_iff) (simp add: run_inv_def run_start_def)

theorem run_ends_unless_hung_witness:
  "\<exists>evs s. run_steps (run_start True False 4) evs s \<and> rc_main s = Finished \<and> CtrlC \<notin> set evs"
  using run_ends_unless_hung [OF steps_nil, of True False 4] by (simp add: hung_def run_start_def)

text \<open>C35: In a ramp, a request to stop from the memory guard or from the terminal interface makes the ramp task leave
  without notifying: the main task then waits for ever, whatever else happens short of Ctrl-C.\<close>

theorem ramp_stop_request_hangs:
  assumes "run_steps (run_start True tui n_workers) [ev, RampStops] s" "ev \<noteq> CtrlC"
    and "run_steps s evs s'" "CtrlC \<notin> set evs"
  shows "rc_main s' = Waiting"
proof -
  have "hung s" using assms(1,2)
    by (auto elim!: run_steps_consE run_steps_nilE run_stepE simp: hung_def run_start_def)
  from hung_steps [OF assms(3) this assms(4)] show ?thesis by (simp add: hung_def)
qed

definition low_memory_host :: host where
  "low_memory_host =
     test_host (\<lambda>_. Some (''MemTotal: 1000 kB'' @ [CHR 0x0A] @ ''MemAvailable: 90 kB'')) (\<lambda>_. None)"

lemma low_memory_fires: "oom_tick False low_memory_host = GuardFire"
proof -
  have "lines (read_or_default low_memory_host ''/proc/meminfo'') = [''MemTotal: 1000 kB'', ''MemAvailable: 90 kB'']"
    unfolding low_memory_host_def by code_simp
  moreover have "split_whitespace '' 1000 kB'' = [nat_to_string 1000, ''kB'']" "split_whitespace '' 90 kB'' = [nat_to_string 90, ''kB'']"
    by code_simp+
  then have "first_number '' 1000 kB'' = 1000" "first_number '' 90 kB'' = 90"
    by (simp_all add: first_number_def parse_unsigned_nat_to_string)
  ultimately have "read_proc_meminfo_total_and_avail_kb low_memory_host = (1000, 90)"
    by (simp add: read_proc_meminfo_total_and_avail_kb_def meminfo_line_def)
  then show ?thesis by (simp add: oom_tick_def)
qed

theorem ramp_stop_request_hangs_witness:
  "(\<exists>s. run_steps (run_start True True 0) [TuiQuits, RampStops] s \<and> rc_main s = Waiting) \<and>
   (\<exists>s. run_steps (run_start True False 1) [MemoryLow low_memory_host, RampStops, WorkerStops] s \<and> rc_main s = Waiting)"
proof (intro conjI)
  have "\<exists>s. run_steps (run_start True True 0) [TuiQuits, RampStops] s"
    by (rule exI, rule steps_cons, rule tui_quits, simp add: run_start_def, rule steps_cons, rule ramp_stops,
        simp add: run_start_def, simp, rule steps_nil)
  then obtain s where s: "run_steps (run_start True True 0) [TuiQuits, RampStops] s" by blast
  then show "\<exists>s. run_steps (run_start True True 0) [TuiQuits, RampStops] s \<and> rc_main s = Waiting"
    using ramp_stop_request_hangs [OF s _ steps_nil] by auto
  have "\<exists>t. run_steps (run_start True False 1) [MemoryLow low_memory_host, RampStops] t \<and> rc_shutdown t \<and> rc_workers t = 1"
    by (rule exI, rule conjI, rule steps_cons, rule memory_low, simp add: run_start_def, simp add: run_start_def low_memory_fires,
        rule steps_cons, rule ramp_stops, simp add: run_start_def, simp, rule steps_nil, simp add: run_start_def)
  then obtain t where t: "run_steps (run_start True False 1) [MemoryLow low_memory_host, RampStops] t" "rc_shutdown t" "rc_workers t = 1"
    by blast
  then have u: "run_steps t [WorkerStops] (t\<lparr>rc_workers := 0\<rparr>)" using workers_stop [of t] by simp
  then have "rc_main (t\<lparr>rc_workers := 0\<rparr>) = Waiting" using ramp_stop_request_hangs [OF t(1) _ u] by simp
  with run_steps_append [OF t(1) u]
  show "\<exists>s. run_steps (run_start True False 1) [MemoryLow low_memory_host, RampStops, WorkerStops] s \<and> rc_main s = Waiting" by auto
qed

text \<open>A comparison measures the primary's card for both servers: with the same readings of the NIC counters, the
  reply rate, the reply size and the link speed reported for the secondary do not depend on which server it is.\<close>

theorem compare_reads_primary_nic:
  assumes "c_servers cfg \<noteq> []"
  shows "final_snapshot H e (compare_config cfg secondary) xdp_on peak r0 r1 elapsed st =
      final_snapshot H e cfg xdp_on peak r0 r1 elapsed st \<and>
    return_ifaces h ifas (compare_config cfg secondary) = return_ifaces h ifas cfg"
proof -
  have r: "return_ifaces h' ifas' (compare_config cfg secondary) = return_ifaces h' ifas' cfg" for h' ifas'
    by (rule return_ifaces_servers [OF assms]) (simp add: compare_config_def)
  then show ?thesis by (simp add: final_snapshot_def add_capacity_def) (simp add: compare_config_def)
qed

theorem compare_reads_primary_nic_witness:
  "return_ifaces route_host None (compare_config (test_config 3 [V4 (Ipv4 10 0 1 9)]) (V4 (Ipv4 192 168 1 1))) =
   return_ifaces route_host None (test_config 3 [V4 (Ipv4 10 0 1 9)])"
  by (rule compare_reads_primary_nic [THEN conjunct2]) (simp add: test_config_def)

end
