(* ===== verification/Kernel_Run.thy ===== *)
theory Kernel_Run
  imports Engine
begin

text \<open>
  A whole fixed-rate run over kernel UDP (\<^verbatim>\<open>run_with_shutdown\<close> of \<^verbatim>\<open>src/engine/mod.rs\<close>): the closed-loop workers that \<^verbatim>\<open>engine_start\<close>
  spawned work on one collector, the window is reset after the warm-up, and the final snapshot is taken when
  the workers have stopped. The iterations of the workers interleave in any order; within an iteration a
  worker touches only its own slots and adds to the shared counters, and additions commute.
\<close>

section \<open>The workers and their collector\<close>

record 'h fleet =
  kr_stats :: "'h stats"
  kr_workers :: "'h closed_loop list"

text \<open>What a worker draws and reads when it starts: the first id, the first template, and two clock readings.\<close>

type_synonym worker_seed = "u16 \<times> u64 \<times> nat \<times> nat"

definition fleet_new :: "'h hist_ops \<Rightarrow> u64 \<Rightarrow> worker_seed list \<Rightarrow> 'h fleet" where
  "fleet_new H qps seeds =
     \<lparr>kr_stats = stats_new H,
      kr_workers = map (\<lambda>(rid, ridx, now, now'). closed_loop_new rid ridx qps now now' (stats_new H)) seeds\<rparr>"

definition fleet_iter :: "'h hist_ops \<Rightarrow> wire_query_pool \<Rightarrow> nat \<Rightarrow> u64 \<Rightarrow> bool \<Rightarrow> nat \<times> iter_env \<Rightarrow> 'h fleet \<Rightarrow> 'h fleet option" where
  "fleet_iter H pool max_out timeout_ns ramp = (\<lambda>(i, env) f.
     if i < length (kr_workers f) then
       (case closed_loop_iter H pool max_out timeout_ns ramp env ((kr_workers f ! i)\<lparr>cl_stats := kr_stats f\<rparr>) of
          None \<Rightarrow> None
        | Some w \<Rightarrow> Some \<lparr>kr_stats = cl_stats w, kr_workers = (kr_workers f)[i := w]\<rparr>)
     else Some f)"

fun fleet_run :: "'h hist_ops \<Rightarrow> wire_query_pool \<Rightarrow> nat \<Rightarrow> u64 \<Rightarrow> bool \<Rightarrow> (nat \<times> iter_env) list \<Rightarrow> 'h fleet \<Rightarrow> 'h fleet option" where
  "fleet_run H pool max_out timeout_ns ramp [] f = Some f"
| "fleet_run H pool max_out timeout_ns ramp (ev # evs) f =
     (case fleet_iter H pool max_out timeout_ns ramp ev f of
        None \<Rightarrow> None
      | Some f' \<Rightarrow> fleet_run H pool max_out timeout_ns ramp evs f')"

section \<open>The run\<close>

text \<open>
  \<open>warm\<close> and \<open>evs\<close> are the iterations before and after the reset of the window at \<open>t\<close>; without a warm-up there is no
  reset and the window is the whole run. The result is the state of the workers when the window opens
  and when they stop.
\<close>

definition kernel_window ::
  "'h hist_ops \<Rightarrow> string option \<Rightarrow> config \<Rightarrow> 'r started \<Rightarrow> worker_seed list \<Rightarrow> (nat \<times> iter_env) list \<Rightarrow> u64 \<Rightarrow>
   (nat \<times> iter_env) list \<Rightarrow> ('h fleet \<times> 'h fleet) option" where
  "kernel_window H warm_env cfg s seeds warm t evs =
     (let run = fleet_run H (en_pool s) (c_max_outstanding cfg) (c_timeout_ms cfg * 1000000) (c_ramp cfg);
          f0 = fleet_new H (en_qps s) seeds
      in do { f1 \<leftarrow> (case warmup_secs warm_env cfg of
                 None \<Rightarrow> Some f0
               | Some _ \<Rightarrow> map_option (\<lambda>f. f\<lparr>kr_stats := reset_window H t (kr_stats f)\<rparr>) (run warm f0));
              f2 \<leftarrow> run evs f1;
              Some (f1, f2) })"

definition in_flight :: "'h fleet \<Rightarrow> nat" where
  "in_flight f = sum_list (map outstanding (kr_workers f))"

text \<open>The queries the pool of a run is built from.\<close>

definition engine_pairs :: "'r engine_env \<Rightarrow> config \<Rightarrow> (string \<times> u16) list" where
  "engine_pairs e cfg =
     (case choose_source (read_to_string (ee_host e)) (ee_corpus e) (ee_rng0 e) cfg of
        Inl err \<Rightarrow> []
      | Inr src \<Rightarrow> fst (source_pairs (ee_rng e) src))"

section \<open>An iteration on a shared collector\<close>

text \<open>
  A worker adds to the counters and never reads them, so an iteration commutes with a change of the sent
  count. The invariant of the worker on a collector of its own carries over to a shared one.
\<close>

definition shift_sent :: "u64 \<Rightarrow> 'h closed_loop \<Rightarrow> 'h closed_loop" where
  "shift_sent d s = s\<lparr>cl_stats := (cl_stats s)\<lparr>sent := sent (cl_stats s) + d\<rparr>\<rparr>"

lemma shift_sent_simps [simp]:
  "cl_slots (shift_sent d s) = cl_slots s" "outstanding (shift_sent d s) = outstanding s"
  "cl_next_id (shift_sent d s) = cl_next_id s" "cl_tmpl_idx (shift_sent d s) = cl_tmpl_idx s"
  "cl_buf (shift_sent d s) = cl_buf s" "cl_qps (shift_sent d s) = cl_qps s" "cl_step (shift_sent d s) = cl_step s"
  "cl_next_send (shift_sent d s) = cl_next_send s" "cl_last_sweep (shift_sent d s) = cl_last_sweep s"
  "cl_stats (shift_sent d s) = (cl_stats s)\<lparr>sent := sent (cl_stats s) + d\<rparr>"
  by (simp_all add: shift_sent_def)

lemma after_send_shift: "after_send e qid (shift_sent d s) = shift_sent d (after_send e qid s)"
  by (simp add: after_send_def shift_sent_def inc_sent_def Let_def algebra_simps)

lemma reload_rate_shift: "reload_rate ramp env (shift_sent d s) = shift_sent d (reload_rate ramp env s)"
  by (simp add: reload_rate_def shift_sent_def)

definition drawn :: "bytes \<Rightarrow> 'h closed_loop \<Rightarrow> 'h closed_loop" where
  "drawn buf s = s\<lparr>cl_next_id := cl_next_id s + 1, cl_tmpl_idx := cl_tmpl_idx s + 1, cl_buf := buf\<rparr>"

lemma drawn_simps [simp]: "outstanding (drawn buf s) = outstanding s" "cl_stats (drawn buf s) = cl_stats s"
  by (simp_all add: drawn_def)

lemma drawn_shift: "drawn buf (shift_sent d s) = shift_sent d (drawn buf s)"
  by (simp add: drawn_def shift_sent_def)

lemma send_fill_step:
  "send_fill pool m ev k did s =
     (if outstanding s < m \<and> \<not> (0 < cl_qps s \<and> se_due (ev k) < cl_next_send s) then
        (case write_with_index pool (unat (cl_tmpl_idx s)) (cl_next_id s) (cl_buf s) of
           None \<Rightarrow> None
         | Some (len, buf) \<Rightarrow> (case se_ret (ev k) of
               WouldBlock \<Rightarrow> Some (did, drawn buf s)
             | SendError \<Rightarrow> Some (did, (drawn buf s)\<lparr>cl_stats := inc_error (cl_stats s)\<rparr>)
             | Sent \<Rightarrow> send_fill pool m ev (Suc k) True (after_send (ev k) (cl_next_id s) (drawn buf s))))
      else Some (did, s))"
  by (subst send_fill.simps) (simp add: Let_def drawn_def split: option.split prod.split send_ret.split)

lemma outstanding_after_send [simp]: "outstanding (after_send e qid s) = Suc (outstanding s)"
  by (simp add: after_send_def Let_def)

lemma send_fill_shift:
  "send_fill pool m ev k did (shift_sent d s) = map_option (map_prod (\<lambda>x. x) (shift_sent d)) (send_fill pool m ev k did s)"
proof (induction "m - outstanding s" arbitrary: s k did rule: less_induct)
  case less
  have err: "(shift_sent d s')\<lparr>cl_stats := inc_error ((cl_stats s)\<lparr>sent := sent (cl_stats s) + d\<rparr>)\<rparr> =
      shift_sent d (s'\<lparr>cl_stats := inc_error (cl_stats s)\<rparr>)" for s' :: "'a closed_loop"
    by (simp add: shift_sent_def inc_error_def)
  show ?case
    unfolding send_fill_step [of pool m ev k did] drawn_shift after_send_shift
    by (auto simp: less err split: option.split prod.split send_ret.split)
qed

lemma recv_one_shift: "recv_one H to ns msg (shift_sent d s) = shift_sent d (recv_one H to ns msg s)"
  unfolding recv_one_def Let_def
  by (simp add: shift_sent_def record_response_def count_rcode_def record_rcodes_eq Let_def)

lemma fold_recv_shift: "fold (recv_one H to ns) msgs (shift_sent d s) = shift_sent d (fold (recv_one H to ns) msgs s)"
  by (induction msgs arbitrary: s) (simp_all add: recv_one_shift)

lemma inc_timeout_shift: "(inc_timeout ^^ n) (st\<lparr>sent := v\<rparr>) = ((inc_timeout ^^ n) st)\<lparr>sent := v\<rparr>"
  by (induction n) (simp_all add: inc_timeout_def)

lemma sweep_slots_shift: "sweep_slots to now (shift_sent d s) = shift_sent d (sweep_slots to now s)"
  by (simp add: sweep_slots_def Let_def split: prod.split) (simp add: shift_sent_def inc_timeout_shift inc_timeout_pow)

lemma last_sweep_shift: "(shift_sent d s)\<lparr>cl_last_sweep := t\<rparr> = shift_sent d (s\<lparr>cl_last_sweep := t\<rparr>)"
  by (simp add: shift_sent_def)

lemmas iter_shift = send_fill_shift reload_rate_shift fold_recv_shift sweep_slots_shift last_sweep_shift

lemma closed_loop_iter_shift:
  "closed_loop_iter H pool m to ramp env (shift_sent d s) = map_option (shift_sent d) (closed_loop_iter H pool m to ramp env s)"
  by (simp add: closed_loop_iter_def Let_def iter_shift split: option.split prod.split)

text \<open>The invariant of a worker whose collector has \<open>d\<close> sends too few to balance.\<close>

definition cl_shared :: "nat \<Rightarrow> u64 \<Rightarrow> 'h closed_loop \<Rightarrow> bool" where
  "cl_shared m d s \<longleftrightarrow> cl_inv m 0 (shift_sent d s)"

lemma closed_loop_iter_shared:
  assumes "pool_fits pool" "cl_shared m d s"
  shows "\<exists>s'. closed_loop_iter H pool m to ramp env s = Some s' \<and> cl_shared m d s'"
  using closed_loop_iter_inv [OF assms(1), of m 0 "shift_sent d s" H to ramp env] assms(2)
  by (auto simp: cl_shared_def closed_loop_iter_shift)

section \<open>The counters of the fleet\<close>

lemma send_fill_consistent:
  "send_fill pool m ev k did s = Some (did', s') \<Longrightarrow> stats_consistent (cl_stats s) \<Longrightarrow> stats_consistent (cl_stats s')"
proof (induction "m - outstanding s" arbitrary: s k did rule: less_induct)
  case less
  have a: "stats_consistent (cl_stats (after_send e qid (drawn buf s)))" for e qid buf
    using less.prems(2) by (simp add: after_send_def Let_def inc_sent_def stats_consistent_def)
  have b: "stats_consistent (inc_error (cl_stats s))" using less.prems(2) by (simp add: inc_error_def stats_consistent_def)
  show ?case
    using less.prems a b less.hyps [OF _ _ a]
    by (subst (asm) send_fill_step) (auto split: if_splits option.splits prod.splits send_ret.splits)
qed

lemma count_rcode_consistent [simp]: "stats_consistent st \<Longrightarrow> stats_consistent (count_rcode rc st)"
  by (simp add: count_rcode_def)

lemma inc_timeout_consistent [simp]: "stats_consistent st \<Longrightarrow> stats_consistent ((inc_timeout ^^ n) st)"
  by (induction n) (simp_all add: inc_timeout_def stats_consistent_def)

lemma recv_one_consistent: "stats_consistent (cl_stats s) \<Longrightarrow> stats_consistent (cl_stats (recv_one H to ns msg s))"
  by (simp add: recv_one_def Let_def)

lemma fold_recv_consistent:
  "stats_consistent (cl_stats s) \<Longrightarrow> stats_consistent (cl_stats (fold (recv_one H to ns) msgs s))"
  by (induction msgs arbitrary: s) (simp_all add: recv_one_consistent)

lemma closed_loop_iter_consistent:
  "closed_loop_iter H pool m to ramp env s = Some s' \<Longrightarrow> stats_consistent (cl_stats s) \<Longrightarrow> stats_consistent (cl_stats s')"
  by (auto simp: closed_loop_iter_def reload_rate_def Let_def sweep_slots_def fold_recv_consistent
      dest!: send_fill_consistent split: option.splits prod.splits if_splits)

text \<open>
  Every worker keeps its own invariant, and over the whole fleet the sends and what was in flight when the
  window opened (\<open>carried\<close>) are the completions, the timeouts and what is in flight now.
\<close>

definition worker_ok :: "nat \<Rightarrow> 'h closed_loop \<Rightarrow> bool" where
  "worker_ok m w \<longleftrightarrow> (\<exists>d. cl_shared m d w)"

definition fleet_ok :: "nat \<Rightarrow> nat \<Rightarrow> 'h fleet \<Rightarrow> bool" where
  "fleet_ok m carried f \<longleftrightarrow>
     (\<forall>w \<in> set (kr_workers f). worker_ok m w) \<and> stats_consistent (kr_stats f) \<and>
     sent (kr_stats f) + of_nat carried = completed (kr_stats f) + timeouts (kr_stats f) + of_nat (in_flight f)"

lemma cl_sharedD:
  assumes "cl_shared m d s"
  shows "sent (cl_stats s) + d = completed (cl_stats s) + timeouts (cl_stats s) + of_nat (outstanding s)" "outstanding s \<le> m"
  using assms by (simp_all add: cl_shared_def cl_inv_def)

lemma worker_ok_stats:
  assumes "worker_ok m w"
  shows "cl_shared m (completed st + timeouts st + of_nat (outstanding w) - sent st) (w\<lparr>cl_stats := st\<rparr>)"
  using assms by (auto simp: worker_ok_def cl_shared_def cl_inv_def)

lemma sum_list_update_nat: "i < length ns \<Longrightarrow> sum_list (ns[i := n]) + ns ! i = sum_list ns + (n :: nat)"
proof (induction ns arbitrary: i)
  case (Cons a ns)
  then show ?case by (cases i) (fastforce simp: algebra_simps)+
qed simp

lemma in_flight_update:
  assumes "i < length (kr_workers f)"
  shows "in_flight \<lparr>kr_stats = st, kr_workers = (kr_workers f)[i := w]\<rparr> + outstanding (kr_workers f ! i) =
    in_flight f + outstanding w"
  using sum_list_update_nat [of i "map outstanding (kr_workers f)" "outstanding w"] assms by (simp add: in_flight_def map_update)

lemma in_flight_bound: "\<forall>w \<in> set (kr_workers f). worker_ok m w \<Longrightarrow> in_flight f \<le> length (kr_workers f) * m"
  using sum_list_mono [of "kr_workers f" outstanding "\<lambda>_. m"]
  by (auto simp: in_flight_def worker_ok_def sum_list_triv dest: cl_sharedD)

lemma balance:
  fixes S :: u64
  assumes "S' + (C + T + a - S) = C' + T' + b" "n' + a = n + b" "S + c = C + T + n"
  shows "S' + c = C' + T' + n'"
proof -
  have "S' = C' + T' + b - (C + T + a - S)" using assms(1) by (metis add_diff_cancel_right')
  moreover have "n' = n + b - a" using assms(2) by (metis add_diff_cancel_right')
  moreover have "c = C + T + n - S" using assms(3) by (metis add_diff_cancel_left')
  ultimately show ?thesis by simp
qed

lemma fleet_iter_ok:
  assumes "pool_fits pool" "fleet_ok m carried f"
  shows "\<exists>f'. fleet_iter H pool m to ramp ev f = Some f' \<and> fleet_ok m carried f' \<and> length (kr_workers f') = length (kr_workers f)"
proof (cases "fst ev < length (kr_workers f)")
  case True
  let ?w = "kr_workers f ! fst ev" and ?st = "kr_stats f"
  let ?d = "completed ?st + timeouts ?st + of_nat (outstanding ?w) - sent ?st"
  have "worker_ok m ?w" using True assms(2) by (simp add: fleet_ok_def)
  from closed_loop_iter_shared [OF assms(1) worker_ok_stats [OF this, of ?st], of H to ramp "snd ev"]
  obtain w where w: "closed_loop_iter H pool m to ramp (snd ev) (?w\<lparr>cl_stats := ?st\<rparr>) = Some w" "cl_shared m ?d w" by blast
  let ?f = "\<lparr>kr_stats = cl_stats w, kr_workers = (kr_workers f)[fst ev := w]\<rparr>"
  have bal: "sent (cl_stats w) + ?d = completed (cl_stats w) + timeouts (cl_stats w) + of_nat (outstanding w)"
    using cl_sharedD(1) [OF w(2)] .
  have "in_flight ?f + outstanding ?w = in_flight f + outstanding w"
    by (rule in_flight_update [OF True])
  then have "of_nat (in_flight ?f) + of_nat (outstanding ?w) = (of_nat (in_flight f) + of_nat (outstanding w) :: u64)"
    by (simp flip: of_nat_add)
  moreover have "sent ?st + of_nat carried = completed ?st + timeouts ?st + of_nat (in_flight f)"
    using assms(2) by (simp add: fleet_ok_def)
  ultimately have "sent (cl_stats w) + of_nat carried = completed (cl_stats w) + timeouts (cl_stats w) + of_nat (in_flight ?f)"
    using balance [OF bal] by blast
  moreover have "\<forall>v \<in> set (kr_workers ?f). worker_ok m v"
    using assms(2) w(2) by (auto simp: fleet_ok_def worker_ok_def dest!: set_update_subset_insert [THEN subsetD])
  moreover have "stats_consistent (cl_stats w)"
    using closed_loop_iter_consistent [OF w(1)] assms(2) by (simp add: fleet_ok_def)
  ultimately show ?thesis using True w(1) by (simp add: fleet_iter_def fleet_ok_def split_beta)
next
  case False
  then show ?thesis using assms(2) by (simp add: fleet_iter_def split_beta)
qed

lemma fleet_run_ok:
  assumes "pool_fits pool"
  shows "fleet_ok m carried f \<Longrightarrow>
    \<exists>f'. fleet_run H pool m to ramp evs f = Some f' \<and> fleet_ok m carried f' \<and> length (kr_workers f') = length (kr_workers f)"
proof (induction evs arbitrary: f)
  case (Cons ev evs)
  from fleet_iter_ok [OF assms Cons.prems, of H to ramp ev] obtain f' where
    f': "fleet_iter H pool m to ramp ev f = Some f'" "fleet_ok m carried f'" "length (kr_workers f') = length (kr_workers f)" by blast
  from Cons.IH [OF f'(2)] f' show ?case by auto
qed simp

section \<open>The report\<close>

lemma fleet_new_ok:
  assumes "0 < m"
  shows "fleet_ok m 0 (fleet_new H qps seeds)"
proof -
  have "in_flight (fleet_new H qps seeds) = 0"
    by (auto simp: in_flight_def fleet_new_def closed_loop_new_def)
  moreover have "worker_ok m (closed_loop_new rid ridx qps now now' (stats_new H))" for rid ridx now now'
    using cl_inv_new [OF assms, of "stats_new H" rid ridx qps now now']
    by (auto simp: worker_ok_def cl_shared_def shift_sent_def stats_new_def closed_loop_new_def intro!: exI [of _ 0])
  ultimately show ?thesis by (auto simp: fleet_ok_def fleet_new_def) (simp_all add: stats_new_def)
qed

lemma fleet_reset_ok:
  assumes "fleet_ok m c f"
  shows "fleet_ok m (in_flight f) (f\<lparr>kr_stats := reset_window H t (kr_stats f)\<rparr>)"
  using assms by (simp add: fleet_ok_def in_flight_def reset_window_def stats_consistent_def)

lemma engine_pool:
  assumes "engine_start e cfg g = Some (Inr s, g')"
  shows "from_pairs (engine_pairs e cfg) = Some (en_pool s)"
  using assms
  by (auto simp: engine_start_def engine_pairs_def Let_def split: sum.splits prod.splits if_splits Option.bind_splits)

lemma kernel_window_ok:
  assumes "pool_fits (en_pool s)" "0 < c_max_outstanding cfg"
  shows "\<exists>f1 f2. kernel_window H warm_env cfg s seeds warm t evs = Some (f1, f2) \<and>
    fleet_ok (c_max_outstanding cfg) (in_flight f1) f1 \<and> fleet_ok (c_max_outstanding cfg) (in_flight f1) f2 \<and>
    length (kr_workers f2) = length seeds"
proof -
  let ?m = "c_max_outstanding cfg" and ?to = "c_timeout_ms cfg * 1000000"
  let ?f0 = "fleet_new H (en_qps s) seeds"
  let ?reset = "\<lambda>f. f\<lparr>kr_stats := reset_window H t (kr_stats f)\<rparr>"
  have z: "in_flight ?f0 = 0" "length (kr_workers ?f0) = length seeds"
    by (auto simp: in_flight_def fleet_new_def closed_loop_new_def)
  have "\<exists>f1. (case warmup_secs warm_env cfg of
        None \<Rightarrow> Some ?f0 | Some _ \<Rightarrow> map_option ?reset (fleet_run H (en_pool s) ?m ?to (c_ramp cfg) warm ?f0)) = Some f1 \<and>
      fleet_ok ?m (in_flight f1) f1 \<and> length (kr_workers f1) = length seeds"
  proof (cases "warmup_secs warm_env cfg")
    case None
    then show ?thesis using fleet_new_ok [OF assms(2), of H "en_qps s" seeds] z by simp
  next
    case (Some secs)
    obtain f where f: "fleet_run H (en_pool s) ?m ?to (c_ramp cfg) warm ?f0 = Some f" "fleet_ok ?m 0 f" "length (kr_workers f) = length seeds"
      using fleet_run_ok [OF assms(1) fleet_new_ok [OF assms(2), of H "en_qps s" seeds]] z(2) by metis
    have "in_flight (?reset f) = in_flight f" by (simp add: in_flight_def)
    with Some f fleet_reset_ok [OF f(2), of H t] show ?thesis by simp
  qed
  then obtain f1 where f1: "(case warmup_secs warm_env cfg of
        None \<Rightarrow> Some ?f0 | Some _ \<Rightarrow> map_option ?reset (fleet_run H (en_pool s) ?m ?to (c_ramp cfg) warm ?f0)) = Some f1"
    "fleet_ok ?m (in_flight f1) f1" "length (kr_workers f1) = length seeds" by blast
  from fleet_run_ok [OF assms(1) f1(2), of H ?to "c_ramp cfg" evs] obtain f2 where
    "fleet_run H (en_pool s) ?m ?to (c_ramp cfg) evs f1 = Some f2" "fleet_ok ?m (in_flight f1) f2"
    "length (kr_workers f2) = length seeds" using f1(3) by auto
  with f1 show ?thesis by (simp add: kernel_window_def)
qed

lemma final_snapshot_consistent:
  assumes "hist_laws H" "stats_consistent st"
  shows "snapshot_consistent (final_snapshot H e cfg on peak r0 r1 el st)"
proof -
  have "snapshot_consistent (snapshot H el st)"
  proof (cases "h_len H (histogram st) = 0")
    case True
    then show ?thesis using assms
      by (auto simp: snapshot_consistent_def snapshot_def stats_consistent_def h_is_empty_def Let_def)
  next
    case False
    from snapshot_percentiles [OF assms(1) this, of el] show ?thesis
      using assms(2) by (simp add: snapshot_consistent_def) (simp add: snapshot_def stats_consistent_def Let_def split: prod.splits)
  qed
  then show ?thesis
    by (auto simp: final_snapshot_def add_rx_def add_wire_def add_capacity_def snapshot_consistent_def Let_def split: option.splits)
qed

lemma final_snapshot_counts:
  "queries_sent (final_snapshot H e cfg on peak r0 r1 el st) = sent st"
  "queries_completed (final_snapshot H e cfg on peak r0 r1 el st) = completed st"
  "queries_lost (final_snapshot H e cfg on peak r0 r1 el st) = sat_sub (sent st) (completed st)"
  by (simp_all add: final_snapshot_def add_rx_def add_wire_def add_capacity_def snapshot_def Let_def split: option.splits prod.splits)


definition sending_iter :: iter_env where
  "sending_iter =
     \<lparr>it_qps = 0, it_start = 0, it_send = (\<lambda>_. \<lparr>se_due = 0, se_ns = 7, se_ret = Sent, se_now = 0\<rparr>),
      it_recv = [], it_recv_ns = 0, it_sweep_at = 0, it_sweep_ns = 0, it_sweep_done = 0\<rparr>"

definition gated_config :: config where
  "gated_config = (test_config 2 test_targets)\<lparr>c_random := False, c_max_outstanding := 4\<rparr>"

lemma kernel_env_pairs: "engine_pairs kernel_env gated_config = [(''example.com'', 1)]"
proof -
  have "map entry_pair (parse_corpus ''example.com A'') = [(''example.com'', 1)]" by code_simp
  then show ?thesis
    by (simp add: engine_pairs_def choose_source_def gated_config_def test_config_def kernel_env_def builtin_new_def
        builtin_all_wire_pairs_def)
qed


end
