(* ===== verification/Host_Tuning.thy ===== *)
theory Host_Tuning
  imports Interfaces
begin

text \<open>
  The frequency governor guard (\<^verbatim>\<open>src/governor.rs\<close>) over the contents of the files under \<^verbatim>\<open>/sys\<close>, the SIMD tier of
  \<^verbatim>\<open>src/simd.rs\<close>, and the banner of \<^verbatim>\<open>log_host_info\<close>. Which files can be written is a parameter.
\<close>

section \<open>The governor guard\<close>

record sys_files =
  contents :: "string \<Rightarrow> string option"
  writable :: "string \<Rightarrow> bool"

definition write_file :: "string \<Rightarrow> string \<Rightarrow> sys_files \<Rightarrow> bool \<times> sys_files" where
  "write_file p v fs =
     (if writable fs p then (True, fs\<lparr>contents := (contents fs)(p \<mapsto> v)\<rparr>) else (False, fs))"

definition governor_path :: "string \<Rightarrow> string" where
  "governor_path name = ''/sys/devices/system/cpu/'' @ name @ ''/cpufreq/scaling_governor''"

fun pin_loop :: "string list \<Rightarrow> sys_files \<Rightarrow> (string \<times> string) list \<Rightarrow> sys_files \<times> (string \<times> string) list" where
  "pin_loop [] fs saved = (fs, saved)"
| "pin_loop (e # es) fs saved =
     (let p = governor_path e
      in case contents fs p of
           None \<Rightarrow> pin_loop es fs saved
         | Some c \<Rightarrow>
             let prev = trim c
             in if prev \<noteq> ''performance'' then
                  (case write_file p ''performance'' fs of
                     (True, fs') \<Rightarrow> pin_loop es fs' (saved @ [(p, prev)])
                   | (False, fs') \<Rightarrow> pin_loop es fs' saved)
                else pin_loop es fs saved)"

definition pin_performance :: "string option list option \<Rightarrow> sys_files \<Rightarrow> sys_files \<times> (string \<times> string) list" where
  "pin_performance dir fs = (case dir of None \<Rightarrow> (fs, []) | Some es \<Rightarrow> pin_loop (flatten_opt es) fs [])"

definition drop_guard :: "(string \<times> string) list \<Rightarrow> sys_files \<Rightarrow> sys_files" where
  "drop_guard saved fs = foldl (\<lambda>fs (p, prev). snd (write_file p prev fs)) fs saved"

section \<open>SIMD tiers\<close>

datatype simd_level = Scalar | Sse2 | Sse42 | Avx2 | Avx512

fun simd_rank :: "simd_level \<Rightarrow> nat" where
  "simd_rank Scalar = 0"
| "simd_rank Sse2 = 1"
| "simd_rank Sse42 = 2"
| "simd_rank Avx2 = 3"
| "simd_rank Avx512 = 4"

lemma simd_rank_inj: "simd_rank a = simd_rank b \<Longrightarrow> a = b"
  by (cases a; cases b; simp)

text \<open>The derived order: the order of the declaration.\<close>

instantiation simd_level :: linorder
begin

definition less_eq_simd_level :: "simd_level \<Rightarrow> simd_level \<Rightarrow> bool" where
  "less_eq_simd_level a b \<longleftrightarrow> simd_rank a \<le> simd_rank b"

definition less_simd_level :: "simd_level \<Rightarrow> simd_level \<Rightarrow> bool" where
  "less_simd_level a b \<longleftrightarrow> simd_rank a < simd_rank b"

instance
  by (intro_classes, unfold less_eq_simd_level_def less_simd_level_def)
    (auto intro: simd_rank_inj)

end

fun simd_as_str :: "simd_level \<Rightarrow> string" where
  "simd_as_str Scalar = ''Scalar''"
| "simd_as_str Sse2 = ''SSE2''"
| "simd_as_str Sse42 = ''SSE4.2''"
| "simd_as_str Avx2 = ''AVX2''"
| "simd_as_str Avx512 = ''AVX-512''"

record cpu_features =
  x86_64 :: bool
  has_avx512f :: bool
  has_avx2 :: bool
  has_sse42 :: bool

definition detect :: "cpu_features \<Rightarrow> simd_level" where
  "detect f =
     (if x86_64 f then
        if has_avx512f f then Avx512 else if has_avx2 f then Avx2 else if has_sse42 f then Sse42 else Sse2
      else Scalar)"

text \<open>The cache: detection runs at the first call only.\<close>

definition cached_simd_level :: "cpu_features \<Rightarrow> simd_level option \<Rightarrow> simd_level \<times> simd_level option" where
  "cached_simd_level f cache = (case cache of Some l \<Rightarrow> (l, cache) | None \<Rightarrow> (detect f, Some (detect f)))"

section \<open>The banner\<close>

definition nic_text :: "host \<Rightarrow> string \<Rightarrow> string" where
  "nic_text h i =
     i @ '' ('' @ (case nic_driver h i of Some d \<Rightarrow> d | None \<Rightarrow> ''?'') @ '', '' @
     (case nic_speed_mbps h i of Some s \<Rightarrow> nat_to_string s @ ''Mb/s'' | None \<Rightarrow> ''?'') @ '')''"

definition log_host_info :: "host \<Rightarrow> ip_addr \<Rightarrow> string option" where
  "log_host_info h target =
     map_option (\<lambda>nic.
       ''[dnsmark] host: '' @ (case cpu_model_name h of Some m \<Rightarrow> m | None \<Rightarrow> ''unknown CPU'') @ '' ('' @
       nat_to_string (num_physical h) @ ''c/'' @ nat_to_string (num_cpus h) @ ''t, '' @ nat_to_string (numa_node_count h) @
       '' NUMA) | egress NIC: '' @ (case nic of Some i \<Rightarrow> nic_text h i | None \<Rightarrow> ''n/a''))
       (iface_for_addr h target)"

section \<open>Lemmas\<close>

lemma trim_idem: "trim (trim s) = trim s"
proof -
  have d: "dropWhile P (dropWhile P xs) = dropWhile P xs" for P and xs :: string by (induction xs) auto
  have e: "dropWhile P (rev (dropWhile P (rev (dropWhile P xs)))) = rev (dropWhile P (rev (dropWhile P xs)))"
    for P and xs :: string
  proof (cases "dropWhile P xs")
    case (Cons y ys)
    then have n: "\<not> P y" using hd_dropWhile [of P xs] by simp
    then have "dropWhile P (rev (y # ys)) = dropWhile P (rev ys) @ [y]" by (simp add: dropWhile_append3)
    then show ?thesis using Cons n by simp
  next
    case Nil
    show ?thesis unfolding Nil by simp
  qed
  show ?thesis by (simp add: trim_def trim_start_matches_def trim_end_matches_def d e)
qed

text \<open>What the guard has done so far: it has saved the trimmed contents of exactly the files it has changed.\<close>

definition guard_inv :: "sys_files \<Rightarrow> sys_files \<Rightarrow> (string \<times> string) list \<Rightarrow> bool" where
  "guard_inv fs0 fs saved \<longleftrightarrow>
     writable fs = writable fs0 \<and> distinct (map fst saved) \<and>
     (\<forall>p prev. (p, prev) \<in> set saved \<longrightarrow>
        writable fs0 p \<and> contents fs p = Some ''performance'' \<and> (\<exists>c. contents fs0 p = Some c \<and> prev = trim c)) \<and>
     (\<forall>p. p \<notin> fst ` set saved \<longrightarrow> contents fs p = contents fs0 p)"

lemma trim_performance: "trim ''performance'' = ''performance''" by code_simp

lemma guard_inv_pin:
  assumes "guard_inv fs0 fs saved" "contents fs p = Some c" "trim c \<noteq> ''performance''" "writable fs p"
  shows "guard_inv fs0 (fs\<lparr>contents := (contents fs)(p \<mapsto> ''performance'')\<rparr>) (saved @ [(p, trim c)])"
proof -
  have "p \<notin> fst ` set saved" using assms(1-3) trim_performance by (fastforce simp: guard_inv_def)
  then show ?thesis using assms by (auto simp: guard_inv_def image_iff)
qed

lemma pin_loop_inv: "guard_inv fs0 fs saved \<Longrightarrow> pin_loop es fs saved = (fs', saved') \<Longrightarrow> guard_inv fs0 fs' saved'"
proof (induction es arbitrary: fs saved)
  case (Cons e es)
  show ?case
  proof (cases "\<exists>c. contents fs (governor_path e) = Some c \<and> trim c \<noteq> ''performance'' \<and> writable fs (governor_path e)")
    case True
    then obtain c where c: "contents fs (governor_path e) = Some c" "trim c \<noteq> ''performance''" "writable fs (governor_path e)"
      by blast
    then have "pin_loop (e # es) fs saved =
        pin_loop es (fs\<lparr>contents := (contents fs)(governor_path e \<mapsto> ''performance'')\<rparr>) (saved @ [(governor_path e, trim c)])"
      by (simp add: write_file_def Let_def)
    then show ?thesis using Cons.IH [OF guard_inv_pin [OF Cons.prems(1) c]] Cons.prems(2) by simp
  next
    case False
    then have "pin_loop (e # es) fs saved = pin_loop es fs saved"
      by (cases "contents fs (governor_path e)") (auto simp: write_file_def Let_def)
    then show ?thesis using Cons.IH [OF Cons.prems(1)] Cons.prems(2) by simp
  qed
qed simp

lemma drop_guard_contents:
  assumes "distinct (map fst saved)" "\<forall>(p, prev) \<in> set saved. writable fs p"
  shows "contents (drop_guard saved fs) p = (case map_of saved p of Some prev \<Rightarrow> Some prev | None \<Rightarrow> contents fs p)"
  using assms
proof (induction saved arbitrary: fs)
  case (Cons x saved)
  obtain q prev where x: "x = (q, prev)" by (cases x)
  have "drop_guard (x # saved) fs = drop_guard saved (fs\<lparr>contents := (contents fs)(q \<mapsto> prev)\<rparr>)"
    using Cons.prems x by (simp add: drop_guard_def write_file_def)
  moreover have "map_of saved q = None" using Cons.prems(1) x by (simp add: map_of_eq_None_iff)
  ultimately show ?case using Cons x by (auto split: option.split)
qed (simp add: drop_guard_def)

section \<open>Properties\<close>

text \<open>Dropping the governor guard puts back what it changed: whatever the processor files contain and whichever of
  them can be written, after the guard every file reads as before it, up to surrounding blanks.\<close>

theorem governor_restored:
  "case pin_performance dir fs of (fs1, saved) \<Rightarrow>
     map_option trim (contents (drop_guard saved fs1) p) = map_option trim (contents fs p)"
proof (cases "pin_performance dir fs")
  case (Pair fs1 saved)
  have "guard_inv fs fs []" by (simp add: guard_inv_def)
  then have g: "guard_inv fs fs1 saved"
    using Pair pin_loop_inv by (auto simp: pin_performance_def split: option.splits)
  then have "contents (drop_guard saved fs1) p = (case map_of saved p of Some prev \<Rightarrow> Some prev | None \<Rightarrow> contents fs1 p)"
    by (intro drop_guard_contents) (auto simp: guard_inv_def)
  moreover have "map_of saved p = None \<Longrightarrow> contents fs1 p = contents fs p"
    using g by (simp add: guard_inv_def map_of_eq_None_iff)
  moreover have "map_of saved p = Some prev \<Longrightarrow> \<exists>c. contents fs p = Some c \<and> prev = trim c" for prev
    using g by (auto simp: guard_inv_def dest!: map_of_SomeD)
  ultimately show ?thesis using Pair by (cases "map_of saved p") (auto simp: trim_idem)
qed

end
