(* ===== verification/Output.thy ===== *)
theory Output
  imports Engine Host_Tuning Wire_Latency
begin

text \<open>
  The reports: the line-rate context of \<^verbatim>\<open>src/output/mod.rs\<close>, the CSV rows, the JSON document and the text of \<^verbatim>\<open>src/output/csv.rs\<close>,
  \<^verbatim>\<open>src/output/json.rs\<close> and \<^verbatim>\<open>src/output/text.rs\<close>, the comparison table of \<^verbatim>\<open>src/engine/compare.rs\<close> and the formatting of the numbers they
  print. Text is a list of lines; characters beyond ASCII are their UTF-8 bytes. The writers of the \<^verbatim>\<open>csv\<close> and
  \<^verbatim>\<open>serde_json\<close> libraries are not modelled: the rows and the document handed to them are.
\<close>

section \<open>Formatting\<close>

fun dec_fixed :: "nat \<Rightarrow> nat \<Rightarrow> string" where
  "dec_fixed 0 n = []"
| "dec_fixed (Suc d) n = dec_fixed d (n div 10) @ [dec_digit (n mod 10)]"

text \<open>\<^verbatim>\<open>{:.d}\<close>: the exact value, rounded to nearest, ties to even.\<close>

definition fmt_nonneg :: "nat \<Rightarrow> rat \<Rightarrow> string" where
  "fmt_nonneg d v =
     (let n = nat (rne (v * 10 ^ d))
      in nat_to_string (n div 10 ^ d) @ (if d = 0 then [] else CHR ''.'' # dec_fixed d (n mod 10 ^ d)))"

fun fmt_fixed :: "nat \<Rightarrow> f64 \<Rightarrow> string" where
  "fmt_fixed d (Fin v) = (if v < 0 then CHR ''-'' # fmt_nonneg d (- v) else fmt_nonneg d v)"
| "fmt_fixed d PInf = ''inf''"
| "fmt_fixed d NInf = ''-inf''"
| "fmt_fixed d NaN = ''NaN''"

definition u64_text :: "u64 \<Rightarrow> string" where
  "u64_text n = nat_to_string (unat n)"

definition pad_right :: "nat \<Rightarrow> string \<Rightarrow> string" where
  "pad_right w s = s @ replicate (w - length s) CHR '' ''"

definition pad_left :: "nat \<Rightarrow> string \<Rightarrow> string" where
  "pad_left w s = replicate (w - length s) CHR '' '' @ s"

definition format_qps :: "u64 \<Rightarrow> string" where
  "format_qps n =
     (if 1000000 \<le> n then fmt_fixed 2 (f_div (f_of_u64 n) (Fin 1000000)) @ ''M''
      else if 1000 \<le> n then fmt_fixed 1 (f_div (f_of_u64 n) (Fin 1000)) @ ''K''
      else u64_text n)"

text \<open>\<^verbatim>\<open>Display\<close> of an address: the first longest run of two or more zero groups of an IPv6 address is contracted.\<close>

fun hex_nat :: "nat \<Rightarrow> string" where
  "hex_nat n = (if n < 16 then [hex_digit n] else hex_nat (n div 16) @ [hex_digit (n mod 16)])"

declare hex_nat.simps [simp del]

fun join_with :: "string \<Rightarrow> string list \<Rightarrow> string" where
  "join_with sep [] = []"
| "join_with sep [s] = s"
| "join_with sep (s # t # ss) = s @ sep @ join_with sep (t # ss)"

definition zero_run :: "u16 list \<Rightarrow> nat \<Rightarrow> nat" where
  "zero_run gs i = length (takeWhile (\<lambda>g. g = 0) (drop i gs))"

definition longest_run :: "u16 list \<Rightarrow> nat \<times> nat" where
  "longest_run gs =
     foldl (\<lambda>(start, len) i. if len < zero_run gs i then (i, zero_run gs i) else (start, len)) (0, 0) [0..<length gs]"

definition groups_text :: "u16 list \<Rightarrow> string" where
  "groups_text gs = join_with '':'' (map (\<lambda>g. hex_nat (unat g)) gs)"

definition v6_text :: "u16 list \<Rightarrow> string" where
  "v6_text gs =
     (if length gs = 8 \<and> take 6 gs = [0, 0, 0, 0, 0, 0xFFFF] then
        ''::ffff:'' @ ipv4_to_string (Ipv4 (hi_byte (gs ! 6)) (lo_byte (gs ! 6)) (hi_byte (gs ! 7)) (lo_byte (gs ! 7)))
      else
        (case longest_run gs of
           (start, len) \<Rightarrow>
             if 1 < len then groups_text (take start gs) @ ''::'' @ groups_text (drop (start + len) gs)
             else groups_text gs))"

fun ip_text :: "ip_addr \<Rightarrow> string" where
  "ip_text (V4 a) = ipv4_to_string a"
| "ip_text (V6 gs) = v6_text gs"

definition CARGO_PKG_VERSION :: string where
  "CARGO_PKG_VERSION = ''1.0.0''"

definition em_dash :: string where
  "em_dash = [CHR 0xE2, CHR 0x80, CHR 0x94]"

definition left_arrow :: string where
  "left_arrow = [CHR 0xE2, CHR 0x86, CHR 0x90]"

definition right_arrow :: string where
  "right_arrow = [CHR 0xE2, CHR 0x86, CHR 0x92]"

section \<open>Line rate\<close>

record line_rate_ctx =
  lr_rate_qps :: f64
  lr_avg_reply_bytes :: f64
  lr_link_mbps :: u64
  lr_line_rate_pps :: f64
  lr_pct :: f64
  lr_wire_bound :: bool

definition line_rate :: "stats_snapshot \<Rightarrow> line_rate_ctx option" where
  "line_rate snap =
     (let rate = (case server_rx_qps snap of Some r \<Rightarrow> if f_lt (Fin 0) r then r else avg_qps snap | None \<Rightarrow> avg_qps snap)
      in do {
        bytes \<leftarrow> server_rx_avg_bytes snap;
        mbps \<leftarrow> link_mbps snap;
        if f_le rate (Fin 0) \<or> f_le bytes (Fin 0) \<or> mbps = 0 then None
        else
          let on_wire = f_add bytes (Fin 24);
              pps = f_div (f_mul (f_of_u64 mbps) (Fin 1000000)) (f_mul on_wire (Fin 8));
              pct = (if f_lt (Fin 0) pps then f_mul (f_div rate pps) (Fin 100) else Fin 0)
          in Some \<lparr>lr_rate_qps = rate, lr_avg_reply_bytes = bytes, lr_link_mbps = mbps, lr_line_rate_pps = pps,
                   lr_pct = pct, lr_wire_bound = f_le (Fin 90) pct\<rparr> })"

section \<open>CSV\<close>

definition csv_header :: "string list" where
  "csv_header =
     [''queries_sent'', ''queries_completed'', ''queries_lost'', ''rcode_noerror'', ''rcode_nxdomain'', ''rcode_servfail'',
      ''rcode_refused'', ''rcode_other'', ''run_time_s'', ''avg_qps'', ''min_us'', ''avg_us'', ''p50_us'', ''p95_us'', ''p99_us'',
      ''p999_us'', ''max_us'']"

definition csv_record :: "stats_snapshot \<Rightarrow> string list" where
  "csv_record snap =
     [u64_text (queries_sent snap), u64_text (queries_completed snap), u64_text (queries_lost snap),
      u64_text (snap_noerror snap), u64_text (snap_nxdomain snap), u64_text (snap_servfail snap),
      u64_text (snap_refused snap), u64_text (snap_other snap), fmt_fixed 3 (run_time_s snap), fmt_fixed 0 (avg_qps snap),
      u64_text (min_us snap), fmt_fixed 1 (avg_us snap), u64_text (p50_us snap), u64_text (p95_us snap),
      u64_text (p99_us snap), u64_text (p999_us snap), u64_text (max_us snap)]"

definition write_csv :: "stats_snapshot \<Rightarrow> string list list" where
  "write_csv snap = [csv_header, csv_record snap]"

section \<open>JSON\<close>

datatype json = JNull | JNum nat | JFloat f64 | JStr string | JArr "json list" | JObj "(string \<times> json) list"

definition jopt :: "('a \<Rightarrow> json) \<Rightarrow> 'a option \<Rightarrow> json" where
  "jopt f x = (case x of None \<Rightarrow> JNull | Some v \<Rightarrow> f v)"

definition ju64 :: "u64 \<Rightarrow> json" where
  "ju64 n = JNum (unat n)"

definition snapshot_json :: "stats_snapshot \<Rightarrow> json" where
  "snapshot_json s =
     JObj [(''queries_sent'', ju64 (queries_sent s)), (''queries_completed'', ju64 (queries_completed s)),
       (''queries_lost'', ju64 (queries_lost s)), (''rcode_noerror'', ju64 (snap_noerror s)),
       (''rcode_nxdomain'', ju64 (snap_nxdomain s)), (''rcode_servfail'', ju64 (snap_servfail s)),
       (''rcode_refused'', ju64 (snap_refused s)), (''rcode_other'', ju64 (snap_other s)),
       (''run_time_s'', JFloat (run_time_s s)), (''send_qps'', JFloat (send_qps s)), (''avg_qps'', JFloat (avg_qps s)),
       (''min_us'', ju64 (min_us s)), (''avg_us'', JFloat (avg_us s)), (''p50_us'', ju64 (p50_us s)), (''p95_us'', ju64 (p95_us s)),
       (''p99_us'', ju64 (p99_us s)), (''p999_us'', ju64 (p999_us s)), (''max_us'', ju64 (max_us s)),
       (''inflight_mean'', JFloat (inflight_mean s)), (''inflight_max'', ju64 (snap_inflight_max s)),
       (''wire_qps'', jopt JFloat (wire_qps s)), (''server_rx_qps'', jopt JFloat (server_rx_qps s)),
       (''server_rx_avg_bytes'', jopt JFloat (server_rx_avg_bytes s)), (''link_mbps'', jopt ju64 (link_mbps s)),
       (''ramp_capacity'', jopt JFloat (ramp_capacity s))]"

definition host_info_json :: "host \<Rightarrow> ip_addr \<Rightarrow> json option" where
  "host_info_json h target =
     map_option (\<lambda>nic.
       JObj [(''role'', JStr ''generator (the host running dnsmark)''),
         (''cpu'', JObj [(''model'', jopt JStr (cpu_model_name h)), (''physical_cores'', JNum (num_physical h)),
            (''logical_threads'', JNum (num_cpus h))]),
         (''numa_nodes'', JNum (numa_node_count h)),
         (''mem_total_mb'', JNum (fst (read_proc_meminfo_total_and_avail_kb h) div 1024)),
         (''nic'', jopt (\<lambda>i. JObj [(''iface'', JStr i), (''driver'', jopt JStr (nic_driver h i)),
            (''speed_mbps'', jopt JNum (nic_speed_mbps h i)), (''numa_node'', jopt JNum (numa_node_for_iface h i))]) nic)])
       (iface_for_addr h target)"

definition line_rate_json :: "line_rate_ctx option \<Rightarrow> json" where
  "line_rate_json lr =
     jopt (\<lambda>l. JObj [(''rate_qps'', JFloat (lr_rate_qps l)), (''avg_reply_bytes'', JFloat (lr_avg_reply_bytes l)),
        (''link_mbps'', ju64 (lr_link_mbps l)), (''line_rate_pps'', JFloat (lr_line_rate_pps l)),
        (''percent_of_line'', JFloat (lr_pct l)),
        (''verdict'', JStr (if lr_wire_bound l then ''wire-bound'' else ''link-headroom''))]) lr"

definition line_rate_notes :: "line_rate_ctx option \<Rightarrow> string list" where
  "line_rate_notes lr =
     (case lr of
        None \<Rightarrow> []
      | Some l \<Rightarrow>
          if lr_wire_bound l then
            [''WIRE-BOUND: '' @ fmt_fixed 0 (lr_pct l) @ ''% of '' @ u64_text (lr_link_mbps l div 1000) @
             '' Gb/s line rate at '' @ fmt_fixed 0 (lr_avg_reply_bytes l) @ '' B/reply. The Ethernet link is saturated '' @ em_dash @
             '' the server is NOT the limit. server_rx_qps is the true throughput (line rate); '' @
             ''faster/more NICs (25/40/100G) are needed to push higher.'']
          else
            [''link has headroom: '' @ fmt_fixed 0 (lr_pct l) @ ''% of '' @ u64_text (lr_link_mbps l div 1000) @
             '' Gb/s line rate. The bottleneck is the server or the generator, NOT the wire '' @ em_dash @
             '' server_rx_qps is the authoritative reply rate.''])"

definition source_json :: "config \<Rightarrow> json" where
  "source_json cfg =
     (if c_random cfg then
        JObj [(''type'', JStr ''random''), (''domain'', JStr (c_random_domain cfg)),
          (''qtype'', JStr (if c_random_qtype cfg = 28 then ''aaaa'' else ''a''))]
      else
        (case c_query_file cfg of
           Some f \<Rightarrow> JObj [(''type'', JStr ''file''), (''path'', JStr f)]
         | None \<Rightarrow> JObj [(''type'', JStr ''builtin''), (''domains'', JNum 2000)]))"

definition print_json :: "json \<Rightarrow> stats_snapshot \<Rightarrow> config \<Rightarrow> json" where
  "print_json host_info snap cfg =
     (let qps_cap = (if c_qps cfg = 0 then JStr ''unlimited'' else ju64 (c_qps cfg));
          lr = (if c_ramp cfg then None else line_rate snap)
      in JObj [(''dnsmark_version'', JStr CARGO_PKG_VERSION), (''host'', host_info),
           (''parameters'', JObj [(''server'', JStr (ip_text (c_server cfg))), (''port'', JNum (unat (c_port cfg))),
              (''protocol'', JStr (protocol_as_str (c_protocol cfg))), (''concurrent'', JNum (c_concurrent cfg)),
              (''qps_cap'', qps_cap), (''duration_secs'', ju64 (c_duration_secs cfg)), (''timeout_ms'', ju64 (c_timeout_ms cfg)),
              (''mode'', JStr (if c_ramp cfg then ''ramp'' else ''fixed'')), (''source'', source_json cfg)]),
           (''statistics'', snapshot_json snap), (''line_rate'', line_rate_json lr),
           (''notes'', JArr (map JStr (line_rate_notes lr)))])"

section \<open>Text\<close>

text \<open>The lines written to standard output, and those written to standard error.\<close>

record report =
  rep_out :: "string list"
  rep_err :: "string list"

definition source_text :: "config \<Rightarrow> string" where
  "source_text cfg =
     (if c_random cfg then
        ''random ('' @ c_random_domain cfg @ '' '' @ (if c_random_qtype cfg = 28 then ''AAAA'' else ''A'') @ '')''
      else (case c_query_file cfg of Some f \<Rightarrow> ''file ('' @ f @ '')'' | None \<Rightarrow> ''builtin (2000 domains)''))"

definition parameter_lines :: "config \<Rightarrow> string list" where
  "parameter_lines cfg =
     [''DNS Performance Testing Tool '' @ em_dash @ '' dnsmark '' @ CARGO_PKG_VERSION,
      ''[DISCLAIMER: authorized testing only]'', [], ''Parameters:'', [],
      ''  Server:       '' @ ip_text (c_server cfg) @ '':'' @ nat_to_string (unat (c_port cfg)),
      ''  Protocol:     '' @ protocol_as_str (c_protocol cfg),
      ''  Clients:      '' @ nat_to_string (c_concurrent cfg),
      ''  QPS cap:      '' @ (if c_qps cfg = 0 then ''unlimited'' else u64_text (c_qps cfg)),
      ''  Duration:     '' @ u64_text (c_duration_secs cfg) @ '' s'',
      ''  Timeout:      '' @ u64_text (c_timeout_ms cfg) @ '' ms'',
      ''  Mode:         '' @ (if c_ramp cfg then ''ramp'' else ''fixed''),
      ''  Source:       '' @ source_text cfg, []]"

definition pct_of :: "u64 \<Rightarrow> u64 \<Rightarrow> f64" where
  "pct_of n d = (if d = 0 then Fin 0 else f_mul (f_div (f_of_u64 n) (f_of_u64 d)) (Fin 100))"

definition count_line :: "string \<Rightarrow> u64 \<Rightarrow> u64 \<Rightarrow> string" where
  "count_line label n d = label @ pad_right 10 (u64_text n) @ ''  ('' @ fmt_fixed 2 (pct_of n d) @ ''%)''"

definition counter_lines :: "stats_snapshot \<Rightarrow> string list" where
  "counter_lines snap =
     [''Statistics:'', [],
      ''  Queries sent:         '' @ u64_text (queries_sent snap),
      count_line ''  Queries completed:    '' (queries_completed snap) (queries_sent snap),
      count_line ''  Queries lost:         '' (queries_lost snap) (queries_sent snap), [],
      ''  Response codes:'',
      count_line ''    NOERROR:            '' (snap_noerror snap) (queries_completed snap),
      count_line ''    NXDOMAIN:           '' (snap_nxdomain snap) (queries_completed snap),
      count_line ''    SERVFAIL:           '' (snap_servfail snap) (queries_completed snap),
      count_line ''    REFUSED:            '' (snap_refused snap) (queries_completed snap), [],
      ''  Send throughput (egress):  '' @ fmt_fixed 0 (send_qps snap) @ '' qps  '' @ left_arrow @ '' match this to rx_packets on receiver NIC'']"

definition wire_wedged :: "stats_snapshot \<Rightarrow> f64 \<Rightarrow> bool" where
  "wire_wedged snap wire \<longleftrightarrow> f_lt (Fin 1000) (send_qps snap) \<and> f_lt wire (f_mul (send_qps snap) (f_lit (1 / 2)))"

definition wire_report :: "stats_snapshot \<Rightarrow> report" where
  "wire_report snap =
     (case wire_qps snap of
        None \<Rightarrow> \<lparr>rep_out = [], rep_err = []\<rparr>
      | Some wire \<Rightarrow>
          \<lparr>rep_out = [''  Wire egress (NIC PHY):     '' @ fmt_fixed 0 wire @ '' qps  (confirmed transmitted)''],
           rep_err = (if wire_wedged snap wire then
             [[CHR 0x1B] @ ''[1;31m[dnsmark] WARNING: reported egress ('' @ fmt_fixed 0 (send_qps snap) @
              '' qps) is NOT reaching the wire - NIC PHY confirmed only '' @ fmt_fixed 0 wire @
              '' qps. The XDP TX path is wedged or misconfigured; the throughput number above is fictional. '' @
              ''(ixgbe X520: try a host reboot; modprobe reload is insufficient.)'' @ [CHR 0x1B] @ ''[0m''] else [])\<rparr>)"

definition round_trip_line :: "stats_snapshot \<Rightarrow> string" where
  "round_trip_line snap =
     (let rt_pct = (if f_lt (Fin 0) (send_qps snap) then f_mul (f_div (avg_qps snap) (send_qps snap)) (Fin 100) else Fin 0)
      in ''  Round-trip completed:      '' @ fmt_fixed 0 (avg_qps snap) @ '' qps  ('' @ fmt_fixed 1 rt_pct @ ''% of egress, userspace)'')"

definition replies_dropped :: "stats_snapshot \<Rightarrow> f64 \<Rightarrow> bool" where
  "replies_dropped snap rx \<longleftrightarrow> f_lt (Fin 1000) (avg_qps snap) \<and> f_lt (f_mul (avg_qps snap) (f_lit (11 / 10))) rx"

definition rx_report :: "stats_snapshot \<Rightarrow> report" where
  "rx_report snap =
     (case server_rx_qps snap of
        None \<Rightarrow> \<lparr>rep_out = [], rep_err = []\<rparr>
      | Some rx \<Rightarrow>
          \<lparr>rep_out = [''  Server throughput (NIC rx):  '' @ fmt_fixed 0 rx @ '' qps  (authoritative '' @ em_dash @ '' replies on the wire)''],
           rep_err = (if replies_dropped snap rx then
             [[CHR 0x1B] @ ''[33m[dnsmark] NOTE: the SERVER answered '' @ fmt_fixed 0 rx @
              '' qps (counted at the NIC, incl. ring-overflow drops) '' @ em_dash @
              '' that is the authoritative throughput. The generator's receive path only delivered '' @
              fmt_fixed 0 (avg_qps snap) @ '' qps to userspace; ~'' @ fmt_fixed 0 (f_sub rx (avg_qps snap)) @
              '' qps of replies were dropped on the GENERATOR side (kernel socket/NIC-ring overflow, '' @
              ''or an RX queue not drained fast enough '' @ em_dash @ '' e.g. a non-NUMA-local stack in multi-NIC). '' @
              ''The SERVER is fine. In kernel-UDP, use --xdp; in --xdp multi-NIC, ensure each stack is NUMA-local to its NIC.'' @
              [CHR 0x1B] @ ''[0m''] else [])\<rparr>)"

definition line_rate_lines :: "stats_snapshot \<Rightarrow> config \<Rightarrow> string list" where
  "line_rate_lines snap cfg =
     (if c_ramp cfg then []
      else (case line_rate snap of
              None \<Rightarrow> []
            | Some lr \<Rightarrow>
                (''  Line rate:                 '' @ fmt_fixed 0 (lr_pct lr) @ ''% of '' @ u64_text (lr_link_mbps lr div 1000) @
                 '' Gb/s wire  ('' @ fmt_fixed 0 (lr_avg_reply_bytes lr) @ '' B replies, ceiling '' @
                 fmt_fixed 2 (f_div (lr_line_rate_pps lr) (Fin 1000000)) @ '' M/s)'') #
                (if lr_wire_bound lr then
                   [''    '' @ right_arrow @ '' WIRE-BOUND: the Ethernet link is saturated '' @ em_dash @ '' this IS the max for this'',
                    ''      reply size on this link. Use faster/more NICs (25/40/100G) to push higher.'']
                 else
                   [''    '' @ right_arrow @ '' link has headroom: the limit is the server or the generator, not the wire'',
                    ''      (raise offered load, or check the generator isn't the bottleneck).''])))"

definition ms_text :: "f64 \<Rightarrow> string" where
  "ms_text us = fmt_fixed 3 (f_div us (Fin 1000)) @ '' ms''"

definition latency_lines :: "stats_snapshot \<Rightarrow> string list" where
  "latency_lines snap =
     [[], ''  Latency:'', ''    min:       '' @ ms_text (f_of_u64 (min_us snap)), ''    avg:       '' @ ms_text (avg_us snap),
      ''    p50:       '' @ ms_text (f_of_u64 (p50_us snap)), ''    p95:       '' @ ms_text (f_of_u64 (p95_us snap)),
      ''    p99:       '' @ ms_text (f_of_u64 (p99_us snap)), ''    p999:      '' @ ms_text (f_of_u64 (p999_us snap)),
      ''    max:       '' @ ms_text (f_of_u64 (max_us snap))] @
     (if 0 < snap_inflight_max snap then
        [''  outstanding:'', ''    mean:      '' @ fmt_fixed 1 (inflight_mean snap), ''    max:       '' @ u64_text (snap_inflight_max snap)]
      else []) @
     [[], ''  Run time: '' @ fmt_fixed 3 (run_time_s snap) @ '' s'']"

definition print_result :: "stats_snapshot \<Rightarrow> config \<Rightarrow> report" where
  "print_result snap cfg =
     (let capacity = (case ramp_capacity snap of
            Some cap \<Rightarrow> [''  Capacity (ramp knee):      '' @ fmt_fixed 0 cap @ '' qps  (NIC-verified peak '' @ em_dash @
                         '' the --ramp throughput answer)'']
          | None \<Rightarrow> [])
      in \<lparr>rep_out = parameter_lines cfg @ counter_lines snap @ rep_out (wire_report snap) @ [round_trip_line snap] @
              rep_out (rx_report snap) @ capacity @ line_rate_lines snap cfg @ latency_lines snap,
          rep_err = rep_err (wire_report snap) @ rep_err (rx_report snap)\<rparr>)"

section \<open>What is written at the end of a run\<close>

datatype printed = PrintedJson json | PrintedText report

definition print_output :: "json \<Rightarrow> stats_snapshot \<Rightarrow> config \<Rightarrow> printed \<times> (string \<times> string list list) option" where
  "print_output host_info snap cfg =
     (if c_json_output cfg then PrintedJson (print_json host_info snap cfg) else PrintedText (print_result snap cfg),
      map_option (\<lambda>path. (path, write_csv snap)) (c_csv_file cfg))"

definition completion_rate :: "stats_snapshot \<Rightarrow> f64" where
  "completion_rate s =
     (if 0 < queries_sent s then f_mul (f_div (f_of_u64 (queries_completed s)) (f_of_u64 (queries_sent s))) (Fin 100) else Fin 0)"

definition rule_line :: string where
  "rule_line = replicate 72 CHR ''=''"

definition compare_row :: "string \<Rightarrow> string \<Rightarrow> string \<Rightarrow> string" where
  "compare_row label a b = ''  '' @ pad_right 30 label @ '' '' @ a @ '' '' @ b"

definition compare_latency :: "string \<Rightarrow> u64 \<Rightarrow> u64 \<Rightarrow> string" where
  "compare_latency label a b =
     compare_row label (pad_left 16 (fmt_fixed 3 (f_div (f_of_u64 a) (Fin 1000))) @ ''ms'')
       (pad_left 16 (fmt_fixed 3 (f_div (f_of_u64 b) (Fin 1000))) @ ''ms'')"

definition print_compare :: "compare_result \<Rightarrow> string list" where
  "print_compare r =
     (let a = cr_primary r; b = cr_secondary r; pa = ip_text (cr_primary_addr r); pb = ip_text (cr_secondary_addr r)
      in [[], rule_line, ''  Comparison: '' @ pa @ '' vs '' @ pb, rule_line,
          compare_row ''Metric'' (pad_left 18 pa) (pad_left 18 pb),
          compare_row (replicate 30 CHR ''-'') (pad_left 18 (replicate 18 CHR ''-'')) (pad_left 18 (replicate 18 CHR ''-'')),
          compare_row ''Average QPS'' (pad_left 17 (fmt_fixed 0 (avg_qps a))) ('' '' @ pad_left 17 (fmt_fixed 0 (avg_qps b))),
          compare_latency ''p50 latency'' (p50_us a) (p50_us b), compare_latency ''p95 latency'' (p95_us a) (p95_us b),
          compare_latency ''p99 latency'' (p99_us a) (p99_us b),
          compare_row ''Completion rate'' (pad_left 17 (fmt_fixed 2 (completion_rate a)) @ ''%'')
            (pad_left 17 (fmt_fixed 2 (completion_rate b)) @ ''%''),
          rule_line, []])"

section \<open>The run modes\<close>

definition wire_latency_lines :: "wire_latency_result \<Rightarrow> string list" where
  "wire_latency_lines r =
     [''  stamps:    '' @ (if wr_hw r then ''raw hardware'' else ''software (driver-level)''),
      ''  samples:   '' @ nat_to_string (wr_samples r),
      ''  wire RTT (server + network, generator overhead excluded):'',
      ''    min:  '' @ ms_text (wr_min_us r), ''    p50:  '' @ ms_text (wr_p50_us r), ''    p95:  '' @ ms_text (wr_p95_us r),
      ''    p99:  '' @ ms_text (wr_p99_us r), ''    max:  '' @ ms_text (wr_max_us r)]"

datatype 'e main_end =
  WireLatencyEnd "string list" | WireLatencyFailed probe_error | RunFailed "'e option"
  | RunEnd "printed \<times> (string \<times> string list list) option" "string list"

text \<open>
  \<^verbatim>\<open>main\<close> after the configuration: \<open>wire\<close> is the probe for a number of samples and a rate, \<open>run\<close> the engine run of a
  configuration. The comparison prints the primary's report and then the table.
\<close>

definition main_run :: "json \<Rightarrow> (nat \<Rightarrow> u64 \<Rightarrow> probe_error + wire_latency_result) \<Rightarrow> (config \<Rightarrow> 'e + stats_snapshot) \<Rightarrow>
    cli \<Rightarrow> config \<Rightarrow> 'e main_end" where
  "main_run info wire run c cfg =
     (case run_mode c cfg of
        WireLatencyRun n rate \<Rightarrow>
          (case wire n rate of Inl e \<Rightarrow> WireLatencyFailed e | Inr r \<Rightarrow> WireLatencyEnd (wire_latency_lines r))
      | CompareRun secondary \<Rightarrow>
          (case run_compare run cfg secondary of
             Inl e \<Rightarrow> RunFailed (Some e)
           | Inr r \<Rightarrow> RunEnd (print_output info (cr_primary r) cfg) (print_compare r))
      | MultiNicRun \<Rightarrow>
          (case run_multi_nic (\<lambda>c. case run c of Inl e \<Rightarrow> NicFailed e | Inr s \<Rightarrow> NicDone s) cfg of
             Inl e \<Rightarrow> RunFailed e
           | Inr s \<Rightarrow> RunEnd (print_output info s cfg) [])
      | SingleRun \<Rightarrow>
          (case run cfg of Inl e \<Rightarrow> RunFailed (Some e) | Inr s \<Rightarrow> RunEnd (print_output info s cfg) []))"

section \<open>Lemmas\<close>

lemma rne_close: "\<bar>of_int (rne q) - q\<bar> \<le> 1 / 2"
proof -
  have "of_int \<lfloor>q\<rfloor> \<le> q" "q < of_int \<lfloor>q\<rfloor> + 1" by linarith+
  then show ?thesis unfolding rne_def Let_def by (auto simp: abs_le_iff)
qed

lemma dec_val_digit: "d < 10 \<Longrightarrow> dec_val (dec_digit d) = Some d"
  using digits_val_nat_to_string [of d] by (simp add: nat_to_string.simps split: option.splits)

lemma dec_fixed_val: "digits_val dec_val 10 acc (dec_fixed d n) = Some (acc * 10 ^ d + n mod 10 ^ d)"
proof (induction d arbitrary: n)
  case (Suc d)
  have "n mod 10 ^ Suc d = n div 10 mod 10 ^ d * 10 + n mod 10" using mod_mult2_eq [of n 10 "10 ^ d"] by simp
  then show ?case by (simp add: Suc.IH digits_val_append dec_val_digit algebra_simps)
qed simp

text \<open>Reading a decimal numeral with \<open>d\<close> places: the number of units of the last place.\<close>

definition read_fixed :: "nat \<Rightarrow> string \<Rightarrow> nat option" where
  "read_fixed d s =
     (case split_by (\<lambda>c. c = CHR ''.'') s of
        [w] \<Rightarrow> if d = 0 then digits_val dec_val 10 0 w else None
      | [w, f] \<Rightarrow> if d = length f then do { n \<leftarrow> digits_val dec_val 10 0 w; digits_val dec_val 10 n f } else None
      | _ \<Rightarrow> None)"

lemma length_dec_fixed [simp]: "length (dec_fixed d n) = d"
  by (induction d arbitrary: n) auto

lemma dec_fixed_digits: "c \<in> set (dec_fixed d n) \<Longrightarrow> is_digit c"
proof (induction d arbitrary: n)
  case (Suc d)
  have "is_digit (dec_digit (n mod 10))" using hd_nat_to_string [of "n mod 10"] by (simp add: nat_to_string.simps)
  then show ?case using Suc by auto
qed simp

lemma digit_not_sep: "is_digit c \<Longrightarrow> c \<noteq> CHR ''.'' \<and> c \<noteq> CHR '','' \<and> c \<noteq> CHR 0x22 \<and> c \<noteq> CHR 0x0A \<and> c \<noteq> CHR 0x0D"
  by (auto simp: is_digit_def)

lemma read_fmt_nonneg: "0 \<le> v \<Longrightarrow> read_fixed d (fmt_nonneg d v) = Some (nat (rne (v * 10 ^ d)))"
proof -
  let ?n = "nat (rne (v * 10 ^ d))"
  have w: "\<forall>c \<in> set (nat_to_string k). c \<noteq> CHR ''.''" for k using nat_to_string_digits digit_not_sep by blast
  have f: "\<forall>c \<in> set (dec_fixed d k). c \<noteq> CHR ''.''" for k using dec_fixed_digits digit_not_sep by blast
  show ?thesis
  proof (cases "d = 0")
    case True
    then show ?thesis
      by (simp add: read_fixed_def fmt_nonneg_def split_by_no_match w digits_val_nat_to_string)
  next
    case False
    then have "split_by (\<lambda>c. c = CHR ''.'') (fmt_nonneg d v) = [nat_to_string (?n div 10 ^ d), dec_fixed d (?n mod 10 ^ d)]"
      using w f by (simp add: fmt_nonneg_def Let_def split_by_append_sep split_by_no_match)
    then show ?thesis using False by (simp add: read_fixed_def digits_val_nat_to_string dec_fixed_val div_mult_mod_eq)
  qed
qed

text \<open>No field of a row needs quoting.\<close>

definition plain_field :: "string \<Rightarrow> bool" where
  "plain_field f \<longleftrightarrow> list_all (\<lambda>c. c \<notin> {CHR '','', CHR 0x22, CHR 0x0A, CHR 0x0D}) f"

lemma plain_append: "plain_field (a @ b) \<longleftrightarrow> plain_field a \<and> plain_field b"
  by (simp add: plain_field_def)

lemma plain_digits: "\<forall>c \<in> set f. is_digit c \<Longrightarrow> plain_field f"
  using digit_not_sep by (fastforce simp: plain_field_def list_all_iff)

lemma plain_numbers: "plain_field (nat_to_string n)" "plain_field (dec_fixed d n)"
  using nat_to_string_digits dec_fixed_digits by (intro plain_digits ballI; blast)+

lemma plain_fmt: "plain_field (fmt_fixed d x)"
proof -
  have "plain_field (CHR ''.'' # dec_fixed d n)" "plain_field ''inf''" "plain_field ''-inf''" "plain_field ''NaN''" for n
    using plain_numbers(2) [of d n] by (simp_all add: plain_field_def)
  then have n: "plain_field (fmt_nonneg d v)" for v
    by (auto simp: fmt_nonneg_def Let_def plain_append plain_numbers) (simp add: plain_field_def)
  then have "plain_field (CHR ''-'' # fmt_nonneg d v)" for v by (simp add: plain_field_def)
  with n show ?thesis by (cases x) (simp_all add: plain_field_def)
qed

definition csv_number :: "stats_snapshot \<Rightarrow> string \<Rightarrow> nat option" where
  "csv_number snap k = do { s \<leftarrow> map_of (zip csv_header (csv_record snap)) k; parse_unsigned (2 ^ 64) s }"

lemma parse_u64_text: "parse_unsigned (2 ^ 64) (u64_text w) = Some (unat w)"
  using unat_lt64 [of w] by (simp add: u64_text_def parse_unsigned_nat_to_string)

section \<open>Properties\<close>

text \<open>The CSV file has one value per column and distinct columns, no field needs quoting, and every counter and percentile
  column parses back to the number in the snapshot.\<close>

theorem csv_columns_roundtrip:
  "length (csv_record snap) = length csv_header \<and> distinct csv_header \<and> list_all plain_field (csv_header @ csv_record snap) \<and>
   map (csv_number snap)
     [''queries_sent'', ''queries_completed'', ''queries_lost'', ''rcode_noerror'', ''rcode_nxdomain'', ''rcode_servfail'',
      ''rcode_refused'', ''rcode_other'', ''min_us'', ''p50_us'', ''p95_us'', ''p99_us'', ''p999_us'', ''max_us''] =
   map (\<lambda>f. Some (unat (f snap)))
     [queries_sent, queries_completed, queries_lost, snap_noerror, snap_nxdomain, snap_servfail, snap_refused, snap_other,
      min_us, p50_us, p95_us, p99_us, p999_us, max_us]"
proof (intro conjI)
  show "length (csv_record snap) = length csv_header" by (simp add: csv_record_def csv_header_def)
  show "distinct csv_header" by (simp add: csv_header_def)
  have "list_all plain_field csv_header" by (simp add: csv_header_def plain_field_def)
  then show "list_all plain_field (csv_header @ csv_record snap)"
    by (simp add: csv_record_def plain_fmt u64_text_def plain_numbers)
qed (simp add: csv_number_def csv_header_def csv_record_def parse_u64_text [simplified])

text \<open>A non-negative number printed with \<open>d\<close> decimal places reads back within half a unit of the last place.\<close>

theorem fixed_format_close:
  assumes "0 \<le> v"
  shows "\<exists>n. read_fixed d (fmt_fixed d (Fin v)) = Some n \<and> \<bar>of_nat n / 10 ^ d - v\<bar> \<le> 1 / (2 * 10 ^ d)"
proof -
  let ?r = "rne (v * 10 ^ d)"
  have "0 \<le> ?r" using assms by (intro rne_ge_int) simp
  then have "(of_nat (nat ?r) :: rat) / 10 ^ d - v = (of_int ?r - v * 10 ^ d) / 10 ^ d" by (simp add: diff_divide_distrib)
  moreover have "\<bar>(of_int ?r - v * 10 ^ d) / 10 ^ d\<bar> \<le> (1 / 2) / 10 ^ d"
    unfolding abs_divide using rne_close [of "v * 10 ^ d"] by (intro frac_le) simp_all
  ultimately have "\<bar>of_nat (nat ?r) / 10 ^ d - v\<bar> \<le> 1 / (2 * 10 ^ d)" by simp
  then show ?thesis using read_fmt_nonneg [OF assms, of d] assms by simp
qed

theorem fixed_format_close_witness:
  "\<exists>n. read_fixed 3 (fmt_fixed 3 (Fin (1234567 / 1000000))) = Some n \<and>
     \<bar>of_nat n / 1000 - (1234567 / 1000000 :: rat)\<bar> \<le> 1 / 2000"
  using fixed_format_close [of "1234567 / 1000000" 3] by simp

end
