(* ===== verification/Tui.thy ===== *)
theory Tui
  imports Output
begin

text \<open>
  The terminal interface (\<^verbatim>\<open>src/output/tui.rs\<close>): what one turn of its loop computes from the counters, the texts it hands to the
  widgets, what the keys do, and the modes of the terminal from the first call to the last, with every call that
  can fail. How a text is painted is up to the \<^verbatim>\<open>ratatui\<close> library: a frame is what is handed to it.
\<close>

section \<open>One frame\<close>

record tui_state =
  qps_history :: "u64 list"
  last_completed :: u64
  paused :: bool
  tui_shutdown :: bool
  tui_running :: bool

record tui_frame =
  fr_title :: string
  fr_progress :: nat
  fr_qps_title :: string
  fr_history :: "u64 list"
  fr_latency :: string
  fr_counters :: "string list"
  fr_footer :: string
  fr_qps :: u64
  fr_peak :: u64

definition tui_start :: tui_state where
  "tui_start = \<lparr>qps_history = [], last_completed = 0, paused = False, tui_shutdown = False, tui_running = True\<rparr>"

definition tui_progress :: "config \<Rightarrow> f64 \<Rightarrow> nat" where
  "tui_progress cfg elapsed =
     (if 0 < c_duration_secs cfg \<and> \<not> c_ramp cfg
      then f_to_nat (2 ^ 16 - 1) (f_min (f_mul (f_div elapsed (f_of_u64 (c_duration_secs cfg))) (Fin 100)) (Fin 100))
      else 0)"

definition peak_of :: "u64 list \<Rightarrow> u64" where
  "peak_of xs = foldr max xs 0"

definition tui_title :: "config \<Rightarrow> f64 \<Rightarrow> string" where
  "tui_title cfg elapsed =
     (let server_str = ip_text (c_server cfg) @ '':'' @ nat_to_string (unat (c_port cfg)) @ '' '' @ em_dash @ '' '' @
            protocol_as_str (c_protocol cfg);
          time_str = (if c_ramp cfg then fmt_fixed 1 elapsed @ ''s''
                      else fmt_fixed 1 elapsed @ ''s / '' @ u64_text (c_duration_secs cfg) @ ''s'')
      in '' dnsmark 0.1.0 '' @ em_dash @ '' '' @ server_str @ '' '' @ em_dash @ '' '' @ time_str @ '' '')"

definition infinity_sign :: string where
  "infinity_sign = [CHR 0xE2, CHR 0x88, CHR 0x9E]"

definition qps_title :: "config \<Rightarrow> u64 \<Rightarrow> u64 \<Rightarrow> string" where
  "qps_title cfg current peak =
     '' QPS (1s window) '' @ em_dash @ '' current: '' @ u64_text current @ ''  target: '' @
     (if 0 < c_qps cfg then u64_text (c_qps cfg) else infinity_sign) @ ''  peak: '' @ u64_text peak @ '' ''"

definition latency_text :: "stats_snapshot \<Rightarrow> string" where
  "latency_text snap =
     (let ms = (\<lambda>us. fmt_fixed 1 (f_div (f_of_u64 us) (Fin 1000)) @ ''ms'')
      in ''  p50: '' @ ms (p50_us snap) @ ''    p95: '' @ ms (p95_us snap) @ ''    p99: '' @ ms (p99_us snap) @
         ''    p999: '' @ ms (p999_us snap))"

definition counters_text :: "'h stats \<Rightarrow> string list" where
  "counters_text st =
     [''  Sent: '' @ pad_left 10 (u64_text (sent st)) @ ''   Recv: '' @ pad_left 10 (u64_text (completed st)) @
      ''   Timeout: '' @ pad_left 8 (u64_text (timeouts st)) @ ''   Error: '' @ pad_left 8 (u64_text (errors st)),
      ''  NOERROR: '' @ pad_left 8 (u64_text (rcode_noerror st)) @ ''   NXDOMAIN: '' @ pad_left 8 (u64_text (rcode_nxdomain st)) @
      ''   SERVFAIL: '' @ pad_left 4 (u64_text (rcode_servfail st)) @ ''   REFUSED: '' @ pad_left 4 (u64_text (rcode_refused st))]"

definition footer_text :: "bool \<Rightarrow> string" where
  "footer_text p =
     (if p then ''  [q] quit   [p] resume   [r] reset stats   '' @ em_dash @ '' PAUSED''
      else ''  [q] quit   [p] pause    [r] reset stats'')"

definition tui_draw :: "'h hist_ops \<Rightarrow> config \<Rightarrow> f64 \<Rightarrow> 'h stats \<Rightarrow> tui_state \<Rightarrow> tui_frame \<times> tui_state" where
  "tui_draw H cfg elapsed st t =
     (let snap = snapshot H elapsed st;
          delta = sat_sub (completed st) (last_completed t);
          hist = (if 60 \<le> length (qps_history t) then tl (qps_history t) else qps_history t) @ [delta];
          peak = peak_of hist
      in (\<lparr>fr_title = tui_title cfg elapsed, fr_progress = tui_progress cfg elapsed, fr_qps_title = qps_title cfg delta peak,
           fr_history = hist, fr_latency = latency_text snap, fr_counters = counters_text st,
           fr_footer = footer_text (paused t), fr_qps = delta, fr_peak = peak\<rparr>,
          t\<lparr>last_completed := completed st, qps_history := hist\<rparr>))"

section \<open>The loop\<close>

datatype key_code = KeyChar char | OtherKey

definition tui_key :: "u64 \<Rightarrow> key_code \<Rightarrow> tui_state \<Rightarrow> tui_state" where
  "tui_key done k t =
     (case k of
        OtherKey \<Rightarrow> t
      | KeyChar c \<Rightarrow>
          if c \<in> {CHR ''q'', CHR ''Q''} then t\<lparr>tui_shutdown := True, tui_running := False\<rparr>
          else if c \<in> {CHR ''p'', CHR ''P''} then t\<lparr>paused := \<not> paused t\<rparr>
          else if c \<in> {CHR ''r'', CHR ''R''} then t\<lparr>last_completed := done, qps_history := []\<rparr>
          else t)"

datatype tui_error =
  RawModeFailed | EnterFailed | TerminalFailed | DrawFailed | PollFailed | ReadFailed | UnrawFailed | LeaveFailed | CursorFailed

text \<open>
  What a turn meets: the shutdown flag, the clock and the counters, whether drawing succeeds, the answer of
  \<^verbatim>\<open>poll\<close> (\<open>None\<close>: it fails) and the event that is read (\<open>None\<close>: reading fails; \<open>Some None\<close>: not a key).
\<close>

record 'h tui_in =
  ti_shutdown :: bool
  ti_elapsed :: f64
  ti_stats :: "'h stats"
  ti_draw :: bool
  ti_poll :: "bool option"
  ti_event :: "key_code option option"

definition tui_event :: "'h tui_in \<Rightarrow> tui_state \<Rightarrow> tui_error option \<times> tui_state" where
  "tui_event i t =
     (case ti_poll i of
        None \<Rightarrow> (Some PollFailed, t)
      | Some False \<Rightarrow> (None, t)
      | Some True \<Rightarrow>
          (case ti_event i of
             None \<Rightarrow> (Some ReadFailed, t)
           | Some None \<Rightarrow> (None, t)
           | Some (Some k) \<Rightarrow> (None, tui_key (completed (ti_stats i)) k t)))"

text \<open>The frame that was drawn, if any, and the error that ends the loop, if any.\<close>

definition tui_turn :: "'h hist_ops \<Rightarrow> config \<Rightarrow> 'h tui_in \<Rightarrow> tui_state \<Rightarrow> tui_frame option \<times> tui_error option \<times> tui_state" where
  "tui_turn H cfg i t =
     (if ti_shutdown i then (None, None, t\<lparr>tui_shutdown := True, tui_running := False\<rparr>)
      else (case tui_draw H cfg (ti_elapsed i) (ti_stats i) t of
              (f, t) \<Rightarrow> if ti_draw i then (Some f, tui_event i t) else (None, Some DrawFailed, t)))"

fun tui_loop :: "'h hist_ops \<Rightarrow> config \<Rightarrow> 'h tui_in list \<Rightarrow> tui_state \<Rightarrow> tui_frame list \<times> tui_error option \<times> tui_state" where
  "tui_loop H cfg [] t = ([], None, t)"
| "tui_loop H cfg (i # is) t =
     (case tui_turn H cfg i t of
        (f, err, t) \<Rightarrow>
          if err = None \<and> tui_running t
          then (case tui_loop H cfg is t of (fs, r) \<Rightarrow> ((case f of Some x \<Rightarrow> x # fs | None \<Rightarrow> fs), r))
          else ((case f of Some x \<Rightarrow> [x] | None \<Rightarrow> []), err, t))"

section \<open>The terminal\<close>

record terminal =
  tm_raw :: bool
  tm_alternate :: bool

definition cooked :: terminal where
  "cooked = \<lparr>tm_raw = False, tm_alternate = False\<rparr>"

text \<open>Whether the calls before and after the loop succeed, in their order.\<close>

record tui_io =
  io_raw :: bool
  io_enter :: bool
  io_terminal :: bool
  io_unraw :: bool
  io_leave :: bool
  io_cursor :: bool

definition restore_terminal :: "tui_io \<Rightarrow> terminal \<Rightarrow> tui_error option \<times> terminal" where
  "restore_terminal io tm =
     (if \<not> io_unraw io then (Some UnrawFailed, tm)
      else
        let tm = tm\<lparr>tm_raw := False\<rparr>
        in if \<not> io_leave io then (Some LeaveFailed, tm)
           else
             let tm = tm\<lparr>tm_alternate := False\<rparr>
             in (if \<not> io_cursor io then Some CursorFailed else None, tm))"

text \<open>
  \<^verbatim>\<open>run_tui\<close> on the turns \<open>is\<close>: the error, the shutdown flag and the terminal when the task ends; \<open>None\<close> when it is still
  running after them.
\<close>

definition run_tui :: "'h hist_ops \<Rightarrow> config \<Rightarrow> tui_io \<Rightarrow> 'h tui_in list \<Rightarrow> (tui_error option \<times> bool \<times> terminal) option" where
  "run_tui H cfg io is =
     (if \<not> io_raw io then Some (Some RawModeFailed, True, cooked)
      else
        let tm = cooked\<lparr>tm_raw := True\<rparr>
        in if \<not> io_enter io then Some (Some EnterFailed, True, tm)
           else
             let tm = tm\<lparr>tm_alternate := True\<rparr>
             in if \<not> io_terminal io then Some (Some TerminalFailed, True, tm)
                else
                  (case tui_loop H cfg is tui_start of
                     (fs, Some err, t) \<Rightarrow> Some (Some err, True, tm)
                   | (fs, None, t) \<Rightarrow>
                       if tui_running t then None
                       else (case restore_terminal io tm of
                               (err, tm) \<Rightarrow> Some (err, tui_shutdown t \<or> err \<noteq> None, tm))))"

section \<open>Lemmas\<close>

lemma peak_of_upper: "x \<in> set xs \<Longrightarrow> x \<le> peak_of xs"
  by (induction xs) (auto simp: peak_of_def le_max_iff_disj)

definition drawn_ok :: "tui_frame \<Rightarrow> bool" where
  "drawn_ok f \<longleftrightarrow>
     length (fr_history f) \<le> 60 \<and> fr_progress f \<le> 100 \<and> fr_history f \<noteq> [] \<and> fr_qps f = last (fr_history f) \<and>
     list_all (\<lambda>v. v \<le> fr_peak f) (fr_history f)"

lemma tui_progress_le: "tui_progress cfg elapsed \<le> 100"
proof -
  have "f_to_nat (2 ^ 16 - 1) (f_min x (Fin 100)) \<le> 100" for x
    by (cases x) (auto simp: f_min_def min_le_iff_disj nat_le_iff floor_le_iff)
  then show ?thesis by (simp add: tui_progress_def)
qed

text \<open>The history stays within its bound, and the loop runs on exactly while the flag has not been seen or set.\<close>

definition tui_inv :: "tui_state \<Rightarrow> bool" where
  "tui_inv t \<longleftrightarrow> length (qps_history t) \<le> 60 \<and> tui_running t = (\<not> tui_shutdown t)"

lemma tui_draw_ok:
  assumes "tui_draw H cfg el st t = (f, t')" "tui_inv t"
  shows "drawn_ok f \<and> tui_inv t'"
  using assms tui_progress_le
  by (auto simp: tui_draw_def Let_def drawn_ok_def tui_inv_def list_all_iff intro!: peak_of_upper)

lemma tui_key_inv: "tui_inv t \<Longrightarrow> tui_inv (tui_key d k t)"
  by (auto simp: tui_key_def tui_inv_def split: key_code.split)

lemma tui_event_ok: "tui_event i t = (err, t') \<Longrightarrow> tui_inv t \<Longrightarrow> tui_inv t' \<and> err \<in> {None, Some PollFailed, Some ReadFailed}"
  by (auto simp: tui_event_def tui_key_inv split: option.splits bool.splits)

lemma tui_turn_ok:
  assumes "tui_turn H cfg i t = (f, err, t')" "tui_inv t"
  shows "pred_option drawn_ok f \<and> tui_inv t' \<and> err \<in> {None, Some DrawFailed, Some PollFailed, Some ReadFailed}"
  using assms tui_draw_ok [of H cfg "ti_elapsed i" "ti_stats i" t] tui_event_ok [of i]
  by (auto simp: tui_turn_def split: if_splits prod.splits) (auto simp: tui_inv_def)

lemma tui_loop_ok:
  "tui_inv t \<Longrightarrow> tui_loop H cfg is t = (fs, err, t') \<Longrightarrow>
     list_all drawn_ok fs \<and> tui_inv t' \<and> err \<in> {None, Some DrawFailed, Some PollFailed, Some ReadFailed}"
proof (induction "is" arbitrary: t fs)
  case (Cons i "is")
  obtain f e t1 where t1: "tui_turn H cfg i t = (f, e, t1)" by (metis prod_cases3)
  note ok = tui_turn_ok [OF t1 Cons.prems(1)]
  show ?case
  proof (cases "e = None \<and> tui_running t1")
    case True
    obtain fs2 where t2: "tui_loop H cfg is t1 = (fs2, err, t')" using Cons.prems(2) t1 True by (auto split: prod.splits)
    with Cons.IH [OF _ t2] ok Cons.prems(2) t1 True show ?thesis by (auto split: option.splits)
  next
    case False
    then show ?thesis using Cons.prems(2) t1 ok by (auto split: option.splits)
  qed
qed auto

lemma tui_start_inv: "tui_inv tui_start"
  by (simp add: tui_inv_def tui_start_def)

section \<open>Properties\<close>

text \<open>Whatever the counters and the keys, every frame of the terminal interface has at most 60 points of history, a
  progress of at most 100 percent (more would be a panic of the gauge), a peak that bounds its history, and the
  current rate as its last point.\<close>

theorem tui_frames_ok: "list_all drawn_ok (fst (tui_loop H cfg is tui_start))"
proof -
  obtain fs e t where l: "tui_loop H cfg is tui_start = (fs, e, t)" by (metis prod_cases3)
  from tui_loop_ok [OF tui_start_inv l] show ?thesis by (simp add: l)
qed

text \<open>C37: When the terminal interface ends, however it ends, the run is asked to stop. If it ends without an error the
  terminal is back in its normal mode; but an error inside the loop, in drawing or in reading the keyboard, leaves the
  terminal in raw mode and on the alternate screen.\<close>

theorem tui_end_of_session:
  assumes "run_tui H cfg io is = Some (err, shut, tm)"
  shows "shut \<and> (err = None \<longrightarrow> tm = cooked) \<and>
    (err \<in> {Some DrawFailed, Some PollFailed, Some ReadFailed} \<longrightarrow> tm_raw tm \<and> tm_alternate tm)"
proof -
  obtain fs e t where l: "tui_loop H cfg is tui_start = (fs, e, t)" by (metis prod_cases3)
  note ok = tui_loop_ok [OF tui_start_inv l]
  show ?thesis using assms ok
    by (auto simp: run_tui_def l cooked_def restore_terminal_def tui_inv_def Let_def split: if_splits option.splits)
qed

definition failing_turn :: "u64 list tui_in" where
  "failing_turn =
     \<lparr>ti_shutdown = False, ti_elapsed = Fin 1, ti_stats = stats_new list_hist, ti_draw = True, ti_poll = None, ti_event = None\<rparr>"

definition working_io :: tui_io where
  "working_io = \<lparr>io_raw = True, io_enter = True, io_terminal = True, io_unraw = True, io_leave = True, io_cursor = True\<rparr>"

theorem tui_end_of_session_witness:
  "\<exists>tm. run_tui list_hist (test_config 4 test_targets) working_io [failing_turn] = Some (Some PollFailed, True, tm) \<and>
     tm_raw tm \<and> tm_alternate tm"
proof -
  have r: "run_tui list_hist (test_config 4 test_targets) working_io [failing_turn] =
      Some (Some PollFailed, True, \<lparr>tm_raw = True, tm_alternate = True\<rparr>)"
    by (simp add: run_tui_def working_io_def tui_turn_def failing_turn_def tui_event_def tui_draw_def cooked_def Let_def)
  from tui_end_of_session [OF r] r show ?thesis by simp
qed

end
