(* ===== verification/Xdp_Filter.thy ===== *)
theory Xdp_Filter
  imports Frame
begin

text \<open>
  The kernel side of the AF\_XDP path: the eBPF program \<^verbatim>\<open>dns_xdp_client\<close> of \<^verbatim>\<open>ebpf/dns_xdp_client.c\<close>, which decides frame by frame
  what reaches an AF\_XDP socket, and the loader of \<^verbatim>\<open>src/transport/xdp/loader.rs\<close> that attaches it and fills its socket map.
  The outcome of every system call and of the calls of the \<^verbatim>\<open>aya\<close> library is a field of a record.
\<close>

section \<open>The program\<close>

datatype xdp_action = XdpPass | XdpRedirect nat

text \<open>The socket map: at most 64 queues. A redirect through an empty entry passes the frame on.\<close>

definition XSKS_ENTRIES :: nat where "XSKS_ENTRIES = 64"

type_synonym xsks = "nat \<Rightarrow> nat option"

definition udp_offset :: "bytes \<Rightarrow> nat option" where
  "udp_offset f =
     (if length f < 14 then None
      else
        let eth_proto = from_be16 (f ! 12) (f ! 13)
        in if eth_proto = 0x0800 then
             if length f < 14 + 20 then None
             else if f ! (14 + 9) \<noteq> 17 then None
             else if f ! 14 AND 0xF \<noteq> 5 then None
             else Some (14 + 20)
           else if eth_proto = 0x86DD then
             if length f < 14 + 40 then None
             else if f ! (14 + 6) \<noteq> 17 then None
             else Some (14 + 40)
           else None)"

definition dns_xdp_client :: "xsks \<Rightarrow> nat \<Rightarrow> bytes \<Rightarrow> xdp_action" where
  "dns_xdp_client m rx_queue f =
     (case udp_offset f of
        None \<Rightarrow> XdpPass
      | Some off \<Rightarrow>
          if length f < off + 8 then XdpPass
          else if from_be16 (f ! off) (f ! (off + 1)) \<noteq> 53 then XdpPass
          else (case m rx_queue of Some fd \<Rightarrow> XdpRedirect fd | None \<Rightarrow> XdpPass))"

section \<open>The loader\<close>

text \<open>\<^verbatim>\<open>to_ne_bytes\<close> on a little-endian machine.\<close>

definition ne16 :: "u16 \<Rightarrow> bytes" where
  "ne16 w = [lo_byte w, hi_byte w]"

definition ne32 :: "u32 \<Rightarrow> bytes" where
  "ne32 w = [ucast w, ucast (drop_bit 8 w), ucast (drop_bit 16 w), ucast (drop_bit 24 w)]"

definition from_ne32 :: "bytes \<Rightarrow> nat" where
  "from_ne32 bs = unat (bs ! 0) + 256 * (unat (bs ! 1) + 256 * (unat (bs ! 2) + 256 * unat (bs ! 3)))"

definition detach_msg :: "u32 \<Rightarrow> bytes" where
  "detach_msg ifindex =
     (let buf = ne32 0;
          buf = buf @ ne16 16;
          buf = buf @ ne16 (0x01 OR 0x04);
          buf = buf @ ne32 1;
          buf = buf @ ne32 0;
          buf = buf @ [0];
          buf = buf @ [0];
          buf = buf @ ne16 0;
          buf = buf @ ne32 ifindex;
          buf = buf @ ne32 0;
          buf = buf @ ne32 0;
          inner_len = 4 + 4;
          nest_len = 4 + inner_len;
          buf = buf @ ne16 nest_len;
          buf = buf @ ne16 (43 OR 0x8000);
          buf = buf @ ne16 inner_len;
          buf = buf @ ne16 1;
          buf = buf @ ne32 (- 1)
      in ne32 (of_nat (length buf)) @ drop 4 buf)"

record load_env =
  ld_ifindex :: "string \<Rightarrow> u32"
  ld_netlink :: bool
  ld_rlimit :: bool
  ld_elf :: bool
  ld_section :: bool
  ld_type :: bool
  ld_prog :: bool
  ld_attach_drv :: bool
  ld_attach_skb :: bool

text \<open>The messages sent to the kernel: none when the name has a NUL byte, the interface is unknown or the socket cannot be opened.\<close>

definition force_detach_xdp :: "load_env \<Rightarrow> string \<Rightarrow> bytes list" where
  "force_detach_xdp e iface =
     (if CHR 0x00 \<in> set iface then []
      else if ld_ifindex e iface = 0 then []
      else if \<not> ld_netlink e then [] else [detach_msg (ld_ifindex e iface)])"

datatype attach_mode = DrvMode | SkbMode

datatype xdp_load_error = RlimitFailed | ElfRejected | SectionMissing | TypeMismatch | ProgLoadFailed | AttachFailed string

definition xdp_load :: "load_env \<Rightarrow> string \<Rightarrow> (xdp_load_error + attach_mode) \<times> bytes list" where
  "xdp_load e iface =
     (if \<not> ld_rlimit e then (Inl RlimitFailed, [])
      else if \<not> ld_elf e then (Inl ElfRejected, [])
      else if \<not> ld_section e then (Inl SectionMissing, [])
      else if \<not> ld_type e then (Inl TypeMismatch, [])
      else if \<not> ld_prog e then (Inl ProgLoadFailed, [])
      else
        let msgs = force_detach_xdp e iface
        in if ld_attach_drv e then (Inr DrvMode, msgs)
           else if ld_attach_skb e then (Inr SkbMode, msgs)
           else (Inl (AttachFailed iface), msgs))"

datatype register_error = MapMissing | NotXskMap | MapSetFailed nat

text \<open>\<open>set_ok\<close>: the kernel accepts the socket. It never accepts an index beyond the map.\<close>

definition register_socket :: "bool \<Rightarrow> bool \<Rightarrow> bool \<Rightarrow> nat \<Rightarrow> nat \<Rightarrow> xsks \<Rightarrow> register_error + xsks" where
  "register_socket has_map is_xsk set_ok queue_id sock_fd m =
     (if \<not> has_map then Inl MapMissing
      else if \<not> is_xsk then Inl NotXskMap
      else if queue_id < XSKS_ENTRIES \<and> set_ok then Inr (m(queue_id \<mapsto> sock_fd))
      else Inl (MapSetFailed queue_id))"

section \<open>Lemmas\<close>

lemma ipv4_low_nibble: "b AND 0xF = 5 \<Longrightarrow> unat (b AND 0xF) * 4 = (20 :: nat)" for b :: u8
  by simp

lemma udp_offset_cases:
  assumes "udp_offset f = Some off"
  obtains (v4) "off = 34" "34 \<le> length f" "from_be16 (f ! 12) (f ! 13) = 0x0800" "f ! 23 = 17" "f ! 14 AND 0xF = 5"
  | (v6) "off = 54" "54 \<le> length f" "from_be16 (f ! 12) (f ! 13) = 0x86DD" "f ! 20 = 17"
  using assms by (auto simp: udp_offset_def Let_def split: if_splits)

lemma parse_at_udp_offset:
  assumes "udp_offset f = Some off" "off + 8 + 12 \<le> length f"
  shows "parse_dns_from_frame f = Some (map_option (\<lambda>r. (resp_id r, resp_rcode r)) (parse_response (drop (off + 8) f)))"
  using assms(1)
proof (cases rule: udp_offset_cases)
  case v4
  then show ?thesis using assms(2)
    by (simp add: parse_dns_from_frame_def l2_offset_def read_be16_def idx_def ip_header_len_def Let_def hdr_consts
        ETH_P_IP_def PROTO_UDP_def)
next
  case v6
  then show ?thesis using assms(2)
    by (simp add: parse_dns_from_frame_def l2_offset_def read_be16_def idx_def ip_header_len_def Let_def hdr_consts
        ETH_P_IP_def ETH_P_IPV6_def IPV6_HDR_def PROTO_UDP_def)
qed

lemma udp_offset_stamped: "udp_offset (stamped sm dm src dst sport dport vlan n @ rest) = (if vlan = None then Some 34 else None)"
proof -
  have "(0x45 :: u8) AND 0xF = 5" by simp
  moreover have "from_be16 0x81 0 \<noteq> 0x86DD" "from_be16 0x81 0 \<noteq> 0x0800" by (simp_all add: be_consts)
  ultimately show ?thesis
    by (cases sm; cases dm; cases vlan)
      (simp_all add: udp_offset_def stamped_def l2_bytes_def eth_type_bytes_def to_be16_def be_consts Let_def nth_append ip_bytes_def)
qed

lemma stamped_source_port:
  "from_be16 ((stamped sm dm src dst sport dport None n @ rest) ! 34) ((stamped sm dm src dst sport dport None n @ rest) ! 35) = sport"
  by (simp add: stamped_def Let_def length_l2_bytes nth_append udp_bytes_def to_be16_def)

text \<open>The detach message has the length it announces and names the interface; its attributes end with it.\<close>

lemma ne32_minus_one: "ne32 (- 1) = [0xFF, 0xFF, 0xFF, 0xFF]"
proof -
  have "(- 1 :: u32) = 0xFFFFFFFF" by simp
  then show ?thesis unfolding ne32_def by (simp only:) simp
qed

lemma detach_msg_well_formed:
  "length (detach_msg i) = 44" "from_ne32 (take 4 (detach_msg i)) = 44" "take 4 (drop 20 (detach_msg i)) = ne32 i"
  "drop 32 (detach_msg i) = ne16 12 @ ne16 0x802B @ ne16 8 @ ne16 1 @ [0xFF, 0xFF, 0xFF, 0xFF]"
  using ne32_minus_one by (simp_all add: detach_msg_def Let_def ne16_def ne32_def from_ne32_def)

section \<open>Properties\<close>

text \<open>C27: Every frame the eBPF program redirects goes to the socket of its queue, carries UDP source port 53, and is found by
  the receive path: if twelve bytes follow its UDP header, the parser of the worker returns the verdict on
  exactly the message behind that header.\<close>

theorem redirected_frames_parse:
  assumes "dns_xdp_client m q f = XdpRedirect fd"
  shows "m q = Some fd \<and> (\<exists>off. udp_offset f = Some off \<and> from_be16 (f ! off) (f ! (off + 1)) = 53 \<and>
    (off + 20 \<le> length f \<longrightarrow>
      parse_dns_from_frame f = Some (map_option (\<lambda>r. (resp_id r, resp_rcode r)) (parse_response (drop (off + 8) f)))))"
  using assms parse_at_udp_offset [of f]
  by (auto simp: dns_xdp_client_def split: option.splits if_splits)

definition reply_header :: "u16 \<Rightarrow> u16 option \<Rightarrow> frame_header option" where
  "reply_header sport vlan =
     new_with_vlan (Mac 0xAA 0xBB 0xCC 0xDD 0xEE 0xFF) (Mac 0x00 0x11 0x22 0x33 0x44 0x55)
       (Ipv4 10 8 0 1) (Ipv4 10 8 0 2) sport 12345 vlan"

definition reply_dns :: bytes where
  "reply_dns = [0xBE, 0xEF, 0x81, 0x83, 0, 1, 0, 0, 0, 0, 0, 0]"

definition reply_frame :: "u16 \<Rightarrow> u16 option \<Rightarrow> bytes" where
  "reply_frame sport vlan =
     stamped (Mac 0xAA 0xBB 0xCC 0xDD 0xEE 0xFF) (Mac 0x00 0x11 0x22 0x33 0x44 0x55) (Ipv4 10 8 0 1) (Ipv4 10 8 0 2)
       sport 12345 vlan 12 @ reply_dns"

lemma reply_dns_parses: "parse_response reply_dns = Some \<lparr>resp_id = 0xBEEF, resp_rcode = 3\<rparr>" by code_simp

theorem redirected_frames_parse_witness:
  "\<exists>off. udp_offset (reply_frame 53 None) = Some off \<and>
     parse_dns_from_frame (reply_frame 53 None) =
       Some (map_option (\<lambda>r. (resp_id r, resp_rcode r)) (parse_response (drop (off + 8) (reply_frame 53 None))))"
proof -
  have r: "dns_xdp_client [0 \<mapsto> 9] 0 (reply_frame 53 None) = XdpRedirect 9"
    using stamped_source_port unfolding reply_frame_def by (simp add: dns_xdp_client_def udp_offset_stamped length_stamped)
  have "length (reply_frame 53 None) = 54" by (simp add: reply_frame_def length_stamped reply_dns_def)
  moreover have "udp_offset (reply_frame 53 None) = Some 34" by (simp add: reply_frame_def udp_offset_stamped)
  ultimately show ?thesis using redirected_frames_parse [OF r] by simp
qed

text \<open>The program redirects a reply exactly when it comes untagged and from port 53: the replies of a server on any other
  port, and replies that arrive with an 802.1Q tag, never reach the AF\_XDP socket, although the worker would
  parse them.\<close>

theorem filter_ignores_configured_port:
  assumes "new_with_vlan sm dm src dst sport dport vlan = Some h" "write_frame h out dns = Some (n, out')"
    and "12 \<le> length dns" "m q = Some fd"
  shows "dns_xdp_client m q (take n out') = (if vlan = None \<and> sport = 53 then XdpRedirect fd else XdpPass) \<and>
    parse_dns_from_frame (take n out') = Some (map_option (\<lambda>r. (resp_id r, resp_rcode r)) (parse_response dns))"
proof -
  from write_frame_cases [OF assms(1,2)] header_offsets [OF assms(1)]
  have f: "take n out' = stamped sm dm src dst sport dport vlan (length dns) @ dns" by (simp add: length_stamped)
  have "dns_xdp_client m q (take n out') = (if vlan = None \<and> sport = 53 then XdpRedirect fd else XdpPass)"
    unfolding f using stamped_source_port [of sm dm src dst sport dport "length dns" dns] assms(4)
    by (cases vlan) (simp_all add: dns_xdp_client_def udp_offset_stamped length_stamped)
  then show ?thesis using parse_stamped [OF assms(3)] f by simp
qed

theorem filter_ignores_configured_port_witness:
  "\<exists>h n out'. reply_header 5353 None = Some h \<and> write_frame h (replicate 64 0) reply_dns = Some (n, out') \<and>
     dns_xdp_client [0 \<mapsto> 9] 0 (take n out') = XdpPass \<and> parse_dns_from_frame (take n out') = Some (Some (0xBEEF, 3))"
proof -
  obtain h where h: "reply_header 5353 None = Some h" by (simp add: reply_header_def new_with_vlan_eq)
  note h' = h [unfolded reply_header_def]
  have "outer h = 42" using header_offsets [OF h'] by simp
  then obtain n out' where w: "write_frame h (replicate 64 0) reply_dns = Some (n, out')"
    using write_frame_eq [OF h', of reply_dns "replicate 64 0"] by (fastforce simp: reply_dns_def)
  have "12 \<le> length reply_dns" by (simp add: reply_dns_def)
  from filter_ignores_configured_port [OF h' w this, of "[0 \<mapsto> 9]" 0 9] h w show ?thesis by (auto simp: reply_dns_parses)
qed

end
