(* ===== verification/Ring_Memory.thy ===== *)
theory Ring_Memory
  imports Umem_Rings
begin

text \<open>
  The rings as the program really has them (\<^verbatim>\<open>src/transport/xdp/umem.rs\<close>): a block of bytes mapped from the
  kernel, in which the counters, the flags and the descriptors lie at offsets the kernel reports. A load or a
  store outside the block is \<open>None\<close>. The operations on the bytes are a refinement of those of \<open>Umem_Rings\<close>:
  the locale \<open>ring_simulation\<close> carries the step-wise correspondence to histories. A \<^verbatim>\<open>#[repr(C)]\<close> value
  is laid out little-endian, field by field.
\<close>

section \<open>Values in memory\<close>

fun le_bytes :: "nat \<Rightarrow> nat \<Rightarrow> bytes" where
  "le_bytes 0 v = []"
| "le_bytes (Suc n) v = of_nat (v mod 256) # le_bytes n (v div 256)"

fun le_val :: "bytes \<Rightarrow> nat" where
  "le_val [] = 0"
| "le_val (b # bs) = unat b + 256 * le_val bs"

record 'a codec =
  c_size :: nat
  c_enc :: "'a \<Rightarrow> bytes"
  c_dec :: "bytes \<Rightarrow> 'a"

definition u32_codec :: "u32 codec" where
  "u32_codec = \<lparr>c_size = 4, c_enc = (\<lambda>w. le_bytes 4 (unat w)), c_dec = (\<lambda>bs. of_nat (le_val bs))\<rparr>"

definition u64_codec :: "u64 codec" where
  "u64_codec = \<lparr>c_size = 8, c_enc = (\<lambda>w. le_bytes 8 (unat w)), c_dec = (\<lambda>bs. of_nat (le_val bs))\<rparr>"

definition desc_codec :: "xdp_desc codec" where
  "desc_codec =
     \<lparr>c_size = 16,
      c_enc = (\<lambda>d. c_enc u64_codec (d_addr d) @ c_enc u32_codec (d_len d) @ c_enc u32_codec (d_options d)),
      c_dec = (\<lambda>bs. \<lparr>d_addr = c_dec u64_codec (take 8 bs), d_len = c_dec u32_codec (take 4 (drop 8 bs)),
                    d_options = c_dec u32_codec (drop 12 bs)\<rparr>)\<rparr>"

definition load :: "'a codec \<Rightarrow> bytes \<Rightarrow> nat \<Rightarrow> 'a option" where
  "load c m a = (if a + c_size c \<le> length m then Some (c_dec c (take (c_size c) (drop a m))) else None)"

definition store :: "'a codec \<Rightarrow> bytes \<Rightarrow> nat \<Rightarrow> 'a \<Rightarrow> bytes option" where
  "store c m a x = (if a + c_size c \<le> length m then Some (take a m @ c_enc c x @ drop (a + c_size c) m) else None)"

section \<open>A mapped ring\<close>

record xdp_ring_offsets =
  o_producer :: u64
  o_consumer :: u64
  o_desc :: u64
  o_flags :: u64

record xdp_mmap_offsets =
  mo_rx :: xdp_ring_offsets
  mo_tx :: xdp_ring_offsets
  mo_fr :: xdp_ring_offsets
  mo_cr :: xdp_ring_offsets

record ring_map =
  rm_mem :: bytes
  rm_producer :: nat
  rm_consumer :: nat
  rm_flags :: nat
  rm_descs :: nat
  rm_size :: u32
  rm_mask :: u32

definition ring_mapsize :: "'a codec \<Rightarrow> xdp_ring_offsets \<Rightarrow> u32 \<Rightarrow> nat" where
  "ring_mapsize c off sz = unat (o_desc off) + unat sz * c_size c"

text \<open>\<open>mmap n\<close>: the block of \<open>n\<close> bytes the kernel maps, or the failure of the call.\<close>

definition map_ring :: "'a codec \<Rightarrow> (nat \<Rightarrow> bytes option) \<Rightarrow> xdp_ring_offsets \<Rightarrow> u32 \<Rightarrow> ring_map option" where
  "map_ring c mmap off sz =
     (case mmap (ring_mapsize c off sz) of
        None \<Rightarrow> None
      | Some mem \<Rightarrow>
          Some \<lparr>rm_mem = mem, rm_producer = unat (o_producer off), rm_consumer = unat (o_consumer off),
                rm_flags = unat (o_flags off), rm_descs = unat (o_desc off), rm_size = sz, rm_mask = sz - 1\<rparr>)"

definition mmap_addr_ring :: "(nat \<Rightarrow> bytes option) \<Rightarrow> xdp_ring_offsets \<Rightarrow> u32 \<Rightarrow> ring_map option" where
  "mmap_addr_ring = map_ring u64_codec"

definition mmap_desc_ring :: "(nat \<Rightarrow> bytes option) \<Rightarrow> xdp_ring_offsets \<Rightarrow> u32 \<Rightarrow> ring_map option" where
  "mmap_desc_ring = map_ring desc_codec"

definition get_mmap_offsets :: "xdp_mmap_offsets option \<Rightarrow> xsk_error + xdp_mmap_offsets" where
  "get_mmap_offsets answer = (case answer of None \<Rightarrow> Inl MmapOffsets | Some offs \<Rightarrow> Inr offs)"

definition get_rx_tx_offsets :: "xdp_mmap_offsets option \<Rightarrow> xsk_error + xdp_ring_offsets \<times> xdp_ring_offsets" where
  "get_rx_tx_offsets answer = (case get_mmap_offsets answer of Inl e \<Rightarrow> Inl e | Inr offs \<Rightarrow> Inr (mo_rx offs, mo_tx offs))"

section \<open>The operations on the bytes\<close>

definition slot_addr :: "'a codec \<Rightarrow> ring_map \<Rightarrow> u32 \<Rightarrow> nat \<Rightarrow> nat" where
  "slot_addr c r start i = rm_descs r + unat ((start + of_nat i) AND rm_mask r) * c_size c"

fun put_slots :: "'a codec \<Rightarrow> ring_map \<Rightarrow> u32 \<Rightarrow> nat \<Rightarrow> 'a list \<Rightarrow> bytes \<Rightarrow> bytes option" where
  "put_slots c r start i [] m = Some m"
| "put_slots c r start i (x # xs) m =
     do { m \<leftarrow> store c m (slot_addr c r start i) x;
          put_slots c r start (Suc i) xs m }"

fun get_slots :: "'a codec \<Rightarrow> ring_map \<Rightarrow> u32 \<Rightarrow> nat \<Rightarrow> nat \<Rightarrow> 'a list option" where
  "get_slots c r cons i 0 = Some []"
| "get_slots c r cons i (Suc n) =
     do { x \<leftarrow> load c (rm_mem r) (slot_addr c r cons i);
          xs \<leftarrow> get_slots c r cons (Suc i) n;
          Some (x # xs) }"

definition mem_enqueue_batch :: "ring_map \<Rightarrow> u64 list \<Rightarrow> (nat \<times> ring_map) option" where
  "mem_enqueue_batch r addrs =
     do { prod \<leftarrow> load u32_codec (rm_mem r) (rm_producer r);
          cons \<leftarrow> load u32_codec (rm_mem r) (rm_consumer r);
          let n = min (length addrs) (unat (rm_size r - (prod - cons)));
          m \<leftarrow> put_slots u64_codec r prod 0 (take n addrs) (rm_mem r);
          m \<leftarrow> store u32_codec m (rm_producer r) (prod + of_nat n);
          Some (n, r\<lparr>rm_mem := m\<rparr>) }"

definition mem_dequeue_all :: "ring_map \<Rightarrow> (u64 list \<times> ring_map) option" where
  "mem_dequeue_all r =
     do { prod \<leftarrow> load u32_codec (rm_mem r) (rm_producer r);
          cons \<leftarrow> load u32_codec (rm_mem r) (rm_consumer r);
          let available = unat (prod - cons);
          out \<leftarrow> get_slots u64_codec r cons 0 available;
          if 0 < available then
            do { m \<leftarrow> store u32_codec (rm_mem r) (rm_consumer r) (cons + of_nat available);
                 Some (out, r\<lparr>rm_mem := m\<rparr>) }
          else Some (out, r) }"

definition mem_needs_wakeup :: "ring_map \<Rightarrow> bool option" where
  "mem_needs_wakeup r = do { f \<leftarrow> load u32_codec (rm_mem r) (rm_flags r); Some (f AND XDP_RING_NEED_WAKEUP \<noteq> 0) }"

definition mem_produce_tx :: "ring_map \<Rightarrow> xdp_desc list \<Rightarrow> (nat \<times> ring_map) option" where
  "mem_produce_tx r ds =
     do { prod \<leftarrow> load u32_codec (rm_mem r) (rm_producer r);
          cons \<leftarrow> load u32_codec (rm_mem r) (rm_consumer r);
          let n = min (length ds) (unat (rm_size r - (prod - cons)));
          m \<leftarrow> put_slots desc_codec r prod 0 (take n ds) (rm_mem r);
          if 0 < n then
            do { m \<leftarrow> store u32_codec m (rm_producer r) (prod + of_nat n);
                 Some (n, r\<lparr>rm_mem := m\<rparr>) }
          else Some (n, r\<lparr>rm_mem := m\<rparr>) }"

definition mem_consume_rx :: "ring_map \<Rightarrow> (xdp_desc list \<times> ring_map) option" where
  "mem_consume_rx r =
     do { prod \<leftarrow> load u32_codec (rm_mem r) (rm_producer r);
          cons \<leftarrow> load u32_codec (rm_mem r) (rm_consumer r);
          let available = unat (prod - cons);
          if available = 0 then Some ([], r)
          else
            do { out \<leftarrow> get_slots desc_codec r cons 0 available;
                 m \<leftarrow> store u32_codec (rm_mem r) (rm_consumer r) (cons + of_nat available);
                 Some (out, r\<lparr>rm_mem := m\<rparr>) } }"

section \<open>Loads and stores\<close>

lemma length_le_bytes [simp]: "length (le_bytes n v) = n"
  by (induction n arbitrary: v) simp_all

lemma le_val_le_bytes: "le_val (le_bytes n v) = v mod 256 ^ n"
proof (induction n arbitrary: v)
  case (Suc n)
  have "unat (of_nat (v mod 256) :: u8) = v mod 256" by (simp add: unat_of_nat)
  then show ?case using Suc mod_mult2_eq [of v 256 "256 ^ n"] by simp
qed simp

locale memory_codec =
  fixes c :: "'a codec"
  assumes enc_length: "length (c_enc c x) = c_size c"
    and dec_enc: "c_dec c (c_enc c x) = x"
begin

lemma store_length: "store c m a x = Some m' \<Longrightarrow> length m' = length m"
  by (auto simp: store_def enc_length split: if_splits)

lemma load_store_same: "store c m a x = Some m' \<Longrightarrow> load c m' a = Some x"
  by (auto simp: store_def load_def enc_length dec_enc split: if_splits)

lemma load_store_apart:
  assumes "store c m a x = Some m'" "b + c_size c' \<le> a \<or> a + c_size c \<le> b"
  shows "load c' m' b = load c' m b"
proof -
  have m': "m' = take a m @ c_enc c x @ drop (a + c_size c) m" and a: "a + c_size c \<le> length m"
    using assms(1) by (auto simp: store_def split: if_splits)
  have "take (c_size c') (drop b m') = take (c_size c') (drop b m)"
    using assms(2)
  proof
    assume "b + c_size c' \<le> a"
    then show ?thesis using a by (simp add: m' take_drop)
  next
    assume "a + c_size c \<le> b"
    then show ?thesis using a by (simp add: m' enc_length)
  qed
  then show ?thesis using store_length [OF assms(1)] by (simp add: load_def)
qed

end

lemma le_val_bound: "le_val (le_bytes 4 (unat (w :: u32))) = unat w" "le_val (le_bytes 8 (unat (v :: u64))) = unat v"
  using unat_u32_less [of w] unat_u64_less [of v] by (simp_all add: le_val_le_bytes)

interpretation u32_mem: memory_codec u32_codec
  by unfold_locales (simp_all add: u32_codec_def le_val_bound)

interpretation u64_mem: memory_codec u64_codec
  by unfold_locales (simp_all add: u64_codec_def le_val_bound)

interpretation desc_mem: memory_codec desc_codec
  by unfold_locales (simp_all add: desc_codec_def u32_codec_def u64_codec_def le_val_bound)

section \<open>The layout\<close>

definition apart :: "nat \<Rightarrow> nat \<Rightarrow> nat \<Rightarrow> nat \<Rightarrow> bool" where
  "apart a n b m \<longleftrightarrow> a + n \<le> b \<or> b + m \<le> a"

text \<open>
  What the kernel documents of the offsets it reports: the two counters and the flags are cells of their own in
  front of the descriptors.
\<close>

definition offsets_ok :: "xdp_ring_offsets \<Rightarrow> bool" where
  "offsets_ok off \<longleftrightarrow>
     (let p = unat (o_producer off); q = unat (o_consumer off); f = unat (o_flags off); d = unat (o_desc off)
      in p + 4 \<le> d \<and> q + 4 \<le> d \<and> f + 4 \<le> d \<and> apart p 4 q 4 \<and> apart p 4 f 4 \<and> apart q 4 f 4)"

definition ring_layout :: "'a codec \<Rightarrow> ring_map \<Rightarrow> bool" where
  "ring_layout c r \<longleftrightarrow>
     rm_producer r + 4 \<le> rm_descs r \<and> rm_consumer r + 4 \<le> rm_descs r \<and> rm_flags r + 4 \<le> rm_descs r \<and>
     apart (rm_producer r) 4 (rm_consumer r) 4 \<and> apart (rm_producer r) 4 (rm_flags r) 4 \<and>
     apart (rm_consumer r) 4 (rm_flags r) 4 \<and> rm_descs r + unat (rm_size r) * c_size c \<le> length (rm_mem r) \<and>
     0 < rm_size r \<and> rm_mask r = rm_size r - 1"

text \<open>The ring the bytes stand for.\<close>

definition descs_at :: "'a codec \<Rightarrow> ring_map \<Rightarrow> bytes \<Rightarrow> 'a list" where
  "descs_at c r m = map (\<lambda>i. the (load c m (rm_descs r + i * c_size c))) [0..<unat (rm_size r)]"

definition ring_view :: "'a codec \<Rightarrow> ring_map \<Rightarrow> 'a ring" where
  "ring_view c r =
     \<lparr>producer = the (load u32_codec (rm_mem r) (rm_producer r)), consumer = the (load u32_codec (rm_mem r) (rm_consumer r)),
      ring_flags = the (load u32_codec (rm_mem r) (rm_flags r)), descs = descs_at c r (rm_mem r),
      ring_size = rm_size r, ring_mask = rm_mask r\<rparr>"

lemma map_ring_layout:
  assumes "map_ring c mmap off sz = Some r" "offsets_ok off" "0 < sz"
    and "\<And>m. mmap (ring_mapsize c off sz) = Some m \<Longrightarrow> length m = ring_mapsize c off sz"
  shows "ring_layout c r"
  using assms by (auto simp: map_ring_def ring_layout_def offsets_ok_def ring_mapsize_def Let_def split: option.splits)

lemma mask_less:
  fixes x :: u32
  assumes "0 < sz" "msk = sz - 1"
  shows "unat (x AND msk) < unat sz"
proof -
  have "x AND msk \<le> sz - 1" by (simp add: assms(2) word_and_le1)
  then have "unat (x AND msk) \<le> unat (sz - 1)" by (simp add: word_le_nat_alt)
  moreover have "unat (sz - 1) < unat sz" using assms(1) unat_minus_one [of sz] by (simp add: unat_gt_0 word_gt_0)
  ultimately show ?thesis by simp
qed

lemma u32_size [simp]: "c_size u32_codec = 4"
  by (simp add: u32_codec_def)

lemma cell_loads:
  assumes "ring_layout c r" "length m = length (rm_mem r)"
  shows "\<exists>p. load u32_codec m (rm_producer r) = Some p" "\<exists>q. load u32_codec m (rm_consumer r) = Some q"
    "\<exists>f. load u32_codec m (rm_flags r) = Some f"
  using assms by (auto simp: ring_layout_def load_def)

lemma cell_stores:
  assumes "ring_layout c r" "length m = length (rm_mem r)"
  shows "\<exists>m'. store u32_codec m (rm_producer r) v = Some m'" "\<exists>m'. store u32_codec m (rm_consumer r) v = Some m'"
  using assms by (auto simp: ring_layout_def store_def)

lemma slot_in_descs:
  assumes "i < n"
  shows "d + i * z + z \<le> d + n * (z :: nat)"
  using mult_le_mono1 [of "Suc i" n z] assms by simp

lemma slots_apart:
  assumes "i \<noteq> j"
  shows "d + i * z + z \<le> d + j * z \<or> d + j * z + z \<le> d + i * (z :: nat)"
  using assms slot_in_descs [of i j d z] slot_in_descs [of j i d z] by (metis linorder_neqE_nat)

text \<open>A store of a counter leaves the other cells and the descriptors alone.\<close>

lemma cell_store_descs:
  assumes "store u32_codec m a v = Some m'" "a + 4 \<le> rm_descs r"
  shows "descs_at c r m' = descs_at c r m"
proof -
  have "load c m' (rm_descs r + i * c_size c) = load c m (rm_descs r + i * c_size c)" for i
    using assms(2) by (intro u32_mem.load_store_apart [OF assms(1)]) simp
  then show ?thesis by (simp add: descs_at_def)
qed

context memory_codec
begin

lemma slot_store:
  assumes "ring_layout c r" "length m = length (rm_mem r)" "k < unat (rm_size r)"
  shows "\<exists>m'. store c m (rm_descs r + k * c_size c) x = Some m' \<and> length m' = length m \<and>
    descs_at c r m' = (descs_at c r m)[k := x] \<and>
    (\<forall>a. a + 4 \<le> rm_descs r \<longrightarrow> load u32_codec m' a = load u32_codec m a)"
proof -
  let ?a = "rm_descs r + k * c_size c"
  have "?a + c_size c \<le> length m"
    using slot_in_descs [OF assms(3), of "rm_descs r" "c_size c"] assms(1,2) by (simp add: ring_layout_def)
  then obtain m' where m': "store c m ?a x = Some m'" by (simp add: store_def)
  have "load c m' (rm_descs r + i * c_size c) = (if i = k then Some x else load c m (rm_descs r + i * c_size c))" for i
  proof (cases "i = k")
    case False
    from load_store_apart [OF m' slots_apart [OF False]] False show ?thesis by simp
  qed (simp add: load_store_same [OF m'])
  then have "descs_at c r m' = (descs_at c r m)[k := x]"
    using assms(3) by (intro nth_equalityI) (auto simp: descs_at_def nth_list_update)
  moreover have "load u32_codec m' a = load u32_codec m a" if "a + 4 \<le> rm_descs r" for a
    using that by (intro load_store_apart [OF m']) auto
  ultimately show ?thesis using m' store_length [OF m'] by blast
qed

lemma put_slots_view:
  assumes "ring_layout c r"
  shows "length m = length (rm_mem r) \<Longrightarrow>
    \<exists>m'. put_slots c r start i xs m = Some m' \<and> length m' = length m \<and>
      descs_at c r m' =
        foldl (\<lambda>ds (i, x). ds[unat ((start + of_nat i) AND rm_mask r) := x]) (descs_at c r m) (List.enumerate i xs) \<and>
      (\<forall>a. a + 4 \<le> rm_descs r \<longrightarrow> load u32_codec m' a = load u32_codec m a)"
proof (induction xs arbitrary: i m)
  case (Cons x xs)
  have "unat ((start + of_nat i) AND rm_mask r) < unat (rm_size r)" using assms by (intro mask_less) (auto simp: ring_layout_def)
  from slot_store [OF assms Cons.prems this, of x] obtain m1 where
    m1: "store c m (slot_addr c r start i) x = Some m1" "length m1 = length m"
    "descs_at c r m1 = (descs_at c r m)[unat ((start + of_nat i) AND rm_mask r) := x]"
    "\<forall>a. a + 4 \<le> rm_descs r \<longrightarrow> load u32_codec m1 a = load u32_codec m a" by (auto simp: slot_addr_def)
  from Cons.IH [of m1 "Suc i"] m1 Cons.prems show ?case by auto
qed simp

lemma get_slots_view:
  assumes "ring_layout c r"
  shows "get_slots c r start i n =
    Some (map (\<lambda>j. descs_at c r (rm_mem r) ! unat ((start + of_nat j) AND rm_mask r)) [i..<i + n])"
proof (induction n arbitrary: i)
  case (Suc n)
  let ?k = "unat ((start + of_nat i) AND rm_mask r)"
  have k: "?k < unat (rm_size r)" using assms by (intro mask_less) (auto simp: ring_layout_def)
  have "rm_descs r + ?k * c_size c + c_size c \<le> length (rm_mem r)"
    using slot_in_descs [OF k, of "rm_descs r" "c_size c"] assms by (simp add: ring_layout_def)
  then have "load c (rm_mem r) (slot_addr c r start i) = Some (descs_at c r (rm_mem r) ! ?k)"
    using k by (simp add: load_def slot_addr_def descs_at_def)
  then show ?case using Suc by (simp add: upt_conv_Cons del: upt_Suc)
qed simp

end

section \<open>The simulation\<close>

lemma ring_view_simps:
  assumes "ring_layout c r"
  shows "load u32_codec (rm_mem r) (rm_producer r) = Some (producer (ring_view c r))"
    "load u32_codec (rm_mem r) (rm_consumer r) = Some (consumer (ring_view c r))"
    "load u32_codec (rm_mem r) (rm_flags r) = Some (ring_flags (ring_view c r))"
    "descs_at c r (rm_mem r) = descs (ring_view c r)" "ring_size (ring_view c r) = rm_size r" "ring_mask (ring_view c r) = rm_mask r"
  using cell_loads [OF assms refl] by (auto simp: ring_view_def)

lemma ring_layout_mem: "ring_layout c (r\<lparr>rm_mem := m\<rparr>) \<longleftrightarrow> ring_layout c r" if "length m = length (rm_mem r)"
  using that by (simp add: ring_layout_def)

lemma descs_at_mem [simp]: "descs_at c (r\<lparr>rm_mem := m\<rparr>) = descs_at c r"
  by (simp add: descs_at_def fun_eq_iff)

text \<open>Storing a counter is updating that counter of the ring.\<close>

lemma store_producer:
  assumes "ring_layout c r" "store u32_codec (rm_mem r) (rm_producer r) v = Some m"
  shows "ring_view c (r\<lparr>rm_mem := m\<rparr>) = (ring_view c r)\<lparr>producer := v\<rparr>" "ring_layout c (r\<lparr>rm_mem := m\<rparr>)"
proof -
  note other = u32_mem.load_store_apart [OF assms(2)]
  have "load u32_codec m (rm_consumer r) = load u32_codec (rm_mem r) (rm_consumer r)"
    "load u32_codec m (rm_flags r) = load u32_codec (rm_mem r) (rm_flags r)" "descs_at c r m = descs_at c r (rm_mem r)"
    using assms(1) by (auto simp: ring_layout_def apart_def intro!: other cell_store_descs [OF assms(2)])
  then show "ring_view c (r\<lparr>rm_mem := m\<rparr>) = (ring_view c r)\<lparr>producer := v\<rparr>"
    by (simp add: ring_view_def u32_mem.load_store_same [OF assms(2)])
qed (use assms u32_mem.store_length [OF assms(2)] in \<open>simp add: ring_layout_mem\<close>)

lemma store_consumer:
  assumes "ring_layout c r" "store u32_codec (rm_mem r) (rm_consumer r) v = Some m"
  shows "ring_view c (r\<lparr>rm_mem := m\<rparr>) = (ring_view c r)\<lparr>consumer := v\<rparr>" "ring_layout c (r\<lparr>rm_mem := m\<rparr>)"
proof -
  note other = u32_mem.load_store_apart [OF assms(2)]
  have "load u32_codec m (rm_producer r) = load u32_codec (rm_mem r) (rm_producer r)"
    "load u32_codec m (rm_flags r) = load u32_codec (rm_mem r) (rm_flags r)" "descs_at c r m = descs_at c r (rm_mem r)"
    using assms(1) by (auto simp: ring_layout_def apart_def intro!: other cell_store_descs [OF assms(2)])
  then show "ring_view c (r\<lparr>rm_mem := m\<rparr>) = (ring_view c r)\<lparr>consumer := v\<rparr>"
    by (simp add: ring_view_def u32_mem.load_store_same [OF assms(2)])
qed (use assms u32_mem.store_length [OF assms(2)] in \<open>simp add: ring_layout_mem\<close>)

context memory_codec
begin

lemma put_slots_ring:
  assumes "ring_layout c r"
  shows "\<exists>m. put_slots c r start 0 xs (rm_mem r) = Some m \<and> ring_layout c (r\<lparr>rm_mem := m\<rparr>) \<and>
    ring_view c (r\<lparr>rm_mem := m\<rparr>) = (ring_view c r)\<lparr>descs := write_slots (ring_view c r) start xs\<rparr>"
proof -
  from put_slots_view [OF assms refl, of start 0 xs] obtain m where
    m: "put_slots c r start 0 xs (rm_mem r) = Some m" "length m = length (rm_mem r)"
    "descs_at c r m = foldl (\<lambda>ds (i, x). ds[unat ((start + of_nat i) AND rm_mask r) := x]) (descs_at c r (rm_mem r)) (List.enumerate 0 xs)"
    "\<forall>a. a + 4 \<le> rm_descs r \<longrightarrow> load u32_codec m a = load u32_codec (rm_mem r) a" by blast
  have "ring_view c (r\<lparr>rm_mem := m\<rparr>) = (ring_view c r)\<lparr>descs := write_slots (ring_view c r) start xs\<rparr>"
    using m(3,4) assms by (simp add: ring_view_def write_slots_def slot_def ring_layout_def)
  then show ?thesis using m(1,2) assms by (auto simp: ring_layout_mem)
qed

lemma get_slots_ring:
  assumes "ring_layout c r"
  shows "get_slots c r start 0 n = Some (read_slots (ring_view c r) start n)"
  using get_slots_view [OF assms, of start 0 n] by (simp add: read_slots_def slot_def ring_view_simps [OF assms])

text \<open>Writing descriptors and then the producer counter.\<close>

lemma push_ring:
  assumes "ring_layout c r"
  shows "\<exists>m m'. put_slots c r start 0 xs (rm_mem r) = Some m \<and> store u32_codec m (rm_producer r) v = Some m' \<and>
    ring_layout c (r\<lparr>rm_mem := m\<rparr>) \<and> ring_layout c (r\<lparr>rm_mem := m'\<rparr>) \<and>
    ring_view c (r\<lparr>rm_mem := m\<rparr>) = (ring_view c r)\<lparr>descs := write_slots (ring_view c r) start xs\<rparr> \<and>
    ring_view c (r\<lparr>rm_mem := m'\<rparr>) = (ring_view c r)\<lparr>descs := write_slots (ring_view c r) start xs, producer := v\<rparr>"
proof -
  from put_slots_ring [OF assms] obtain m where
    m: "put_slots c r start 0 xs (rm_mem r) = Some m" "ring_layout c (r\<lparr>rm_mem := m\<rparr>)"
    "ring_view c (r\<lparr>rm_mem := m\<rparr>) = (ring_view c r)\<lparr>descs := write_slots (ring_view c r) start xs\<rparr>" by blast
  obtain m' where m': "store u32_codec m (rm_producer r) v = Some m'" using cell_stores(1) [OF m(2) refl] by auto
  from store_producer [OF m(2), of v m'] m m' show ?thesis by simp
qed

end

lemma mem_enqueue_sim:
  assumes "ring_layout u64_codec r"
  shows "\<exists>n r'. mem_enqueue_batch r xs = Some (n, r') \<and> ring_layout u64_codec r' \<and>
    enqueue_batch (ring_view u64_codec r) xs = (n, ring_view u64_codec r')"
proof -
  let ?v = "ring_view u64_codec r"
  define n where "n = min (length xs) (unat (rm_size r - (producer ?v - consumer ?v)))"
  from u64_mem.push_ring [OF assms, of "producer ?v" "take n xs" "producer ?v + of_nat n"] show ?thesis
    by (auto simp: mem_enqueue_batch_def enqueue_batch_def ring_view_simps [OF assms] Let_def simp flip: n_def)
qed

lemma mem_produce_sim:
  assumes "ring_layout desc_codec r"
  shows "\<exists>n r'. mem_produce_tx r xs = Some (n, r') \<and> ring_layout desc_codec r' \<and>
    produce_tx (ring_view desc_codec r) xs = (n, ring_view desc_codec r')"
proof -
  let ?v = "ring_view desc_codec r"
  define n where "n = min (length xs) (unat (rm_size r - (producer ?v - consumer ?v)))"
  from desc_mem.push_ring [OF assms, of "producer ?v" "take n xs" "producer ?v + of_nat n"] show ?thesis
    by (auto simp: mem_produce_tx_def produce_tx_def ring_view_simps [OF assms] Let_def simp flip: n_def) (simp_all add: n_def)
qed

lemma mem_dequeue_sim:
  assumes "ring_layout u64_codec r"
  shows "\<exists>out r'. mem_dequeue_all r = Some (out, r') \<and> ring_layout u64_codec r' \<and>
    dequeue_all (ring_view u64_codec r) = (out, ring_view u64_codec r')"
  using cell_stores(2) [OF assms refl, of "consumer (ring_view u64_codec r) + of_nat (unat (producer (ring_view u64_codec r) - consumer (ring_view u64_codec r)))"]
    store_consumer [OF assms] assms
  by (fastforce simp: mem_dequeue_all_def dequeue_all_def ring_view_simps [OF assms] u64_mem.get_slots_ring [OF assms] Let_def)

lemma mem_consume_sim:
  assumes "ring_layout desc_codec r"
  shows "\<exists>out r'. mem_consume_rx r = Some (out, r') \<and> ring_layout desc_codec r' \<and>
    consume_rx (ring_view desc_codec r) = (out, ring_view desc_codec r')"
  using cell_stores(2) [OF assms refl, of "consumer (ring_view desc_codec r) + of_nat (unat (producer (ring_view desc_codec r) - consumer (ring_view desc_codec r)))"]
    store_consumer [OF assms] assms
  by (fastforce simp: mem_consume_rx_def consume_rx_def ring_view_simps [OF assms] desc_mem.get_slots_ring [OF assms] Let_def)

text \<open>A history of operations on the bytes, and the correspondence carried along it.\<close>

fun mem_run ::
  "('r \<Rightarrow> 'a list \<Rightarrow> (nat \<times> 'r) option) \<Rightarrow> ('r \<Rightarrow> ('a list \<times> 'r) option) \<Rightarrow> 'r \<Rightarrow> 'a fifo_op list \<Rightarrow>
   ('a list \<times> 'a list \<times> 'r) option" where
  "mem_run push pop_all r [] = Some ([], [], r)"
| "mem_run push pop_all r (Push xs # ops) =
     do { (n, r) \<leftarrow> push r xs;
          (acc, del, r) \<leftarrow> mem_run push pop_all r ops;
          Some (take n xs @ acc, del, r) }"
| "mem_run push pop_all r (PopAll # ops) =
     do { (out, r) \<leftarrow> pop_all r;
          (acc, del, r) \<leftarrow> mem_run push pop_all r ops;
          Some (acc, out @ del, r) }"

locale ring_simulation =
  fixes ok :: "'m \<Rightarrow> bool"
    and view :: "'m \<Rightarrow> 'r"
    and mem_push :: "'m \<Rightarrow> 'a list \<Rightarrow> (nat \<times> 'm) option"
    and mem_pop :: "'m \<Rightarrow> ('a list \<times> 'm) option"
    and push :: "'r \<Rightarrow> 'a list \<Rightarrow> nat \<times> 'r"
    and pop_all :: "'r \<Rightarrow> 'a list \<times> 'r"
  assumes push_sim: "ok r \<Longrightarrow> \<exists>n r'. mem_push r xs = Some (n, r') \<and> ok r' \<and> push (view r) xs = (n, view r')"
    and pop_sim: "ok r \<Longrightarrow> \<exists>out r'. mem_pop r = Some (out, r') \<and> ok r' \<and> pop_all (view r) = (out, view r')"
begin

lemma run_sim:
  "ok r \<Longrightarrow> \<exists>acc del r'. mem_run mem_push mem_pop r ops = Some (acc, del, r') \<and> ok r' \<and>
     fifo_run push pop_all (view r) ops = (acc, del, view r')"
proof (induction ops arbitrary: r)
  case (Cons op ops)
  show ?case
  proof (cases op)
    case (Push xs)
    obtain n r1 where p: "mem_push r xs = Some (n, r1)" "ok r1" "push (view r) xs = (n, view r1)"
      using push_sim [OF Cons.prems] by blast
    from Cons.IH [OF p(2)] p Push show ?thesis by fastforce
  next
    case PopAll
    obtain out r1 where p: "mem_pop r = Some (out, r1)" "ok r1" "pop_all (view r) = (out, view r1)"
      using pop_sim [OF Cons.prems] by blast
    from Cons.IH [OF p(2)] p PopAll show ?thesis by fastforce
  qed
qed simp

end

interpretation addr_sim: ring_simulation "ring_layout u64_codec" "ring_view u64_codec" mem_enqueue_batch mem_dequeue_all
  enqueue_batch dequeue_all
  using mem_enqueue_sim mem_dequeue_sim by unfold_locales blast+

interpretation desc_sim: ring_simulation "ring_layout desc_codec" "ring_view desc_codec" mem_produce_tx mem_consume_rx
  produce_tx consume_rx
  using mem_produce_sim mem_consume_sim by unfold_locales blast+

section \<open>Properties\<close>

lemma zeroed_mapping:
  assumes "map_ring c mmap off (2 ^ k) = Some r" "offsets_ok off" "k < 32" "0 < c_size c"
    and "mmap (ring_mapsize c off (2 ^ k)) = Some (replicate (ring_mapsize c off (2 ^ k)) 0)"
  shows "ring_layout c r" "ring_wf (ring_view c r)" "ring_contents (ring_view c r) = []"
proof -
  have pos: "0 < (2 ^ k :: u32)" using unat_power_u32 [OF assms(3)] by (metis unat_gt_0 unat_0 word_gt_0 zero_less_numeral zero_less_power less_numeral_extra(3))
  show l: "ring_layout c r" using assms pos by (intro map_ring_layout [OF assms(1,2)]) simp_all
  have z: "le_val (replicate n 0) = 0" for n by (induction n) simp_all
  have "load u32_codec (replicate n 0) a = Some v \<Longrightarrow> v = 0" for n a v
    by (auto simp: load_def u32_codec_def z split: if_splits)
  moreover have "rm_mem r = replicate (ring_mapsize c off (2 ^ k)) 0" "rm_size r = 2 ^ k" "rm_mask r = 2 ^ k - 1"
    using assms(1,5) by (auto simp: map_ring_def split: option.splits)
  ultimately have v: "producer (ring_view c r) = 0" "consumer (ring_view c r) = 0" "ring_size (ring_view c r) = 2 ^ k"
    "ring_mask (ring_view c r) = 2 ^ k - 1"
    using ring_view_simps(1,2) [OF l] by (metis, metis, simp_all add: ring_view_def)
  then show "ring_wf (ring_view c r)" using assms(3) by (auto simp: ring_wf_def) (simp add: ring_view_def descs_at_def)
  show "ring_contents (ring_view c r) = []" using v by (simp add: ring_contents_def read_slots_def)
qed

text \<open>C14: The rings mapped from the kernel are bounded queues, in their bytes. When the kernel maps a zeroed block of the
  size the program asks for, at offsets that keep counters, flags and descriptors apart, then for every history of
  batches and drains no access of either ring leaves its block, what was accepted is what was delivered
  followed by what is still in the ring, in order, and the ring never holds more than its size.\<close>

theorem ring_memory_is_fifo:
  assumes "offsets_ok off" "k < 32" "mmap = (\<lambda>n. Some (replicate n 0))"
    and "mmap_addr_ring mmap off (2 ^ k) = Some a" "mmap_desc_ring mmap off (2 ^ k) = Some d"
  shows "(\<exists>acc del r. mem_run mem_enqueue_batch mem_dequeue_all a ops = Some (acc, del, r) \<and>
      acc = del @ ring_contents (ring_view u64_codec r) \<and> length (ring_contents (ring_view u64_codec r)) \<le> 2 ^ k) \<and>
    (\<exists>acc del r. mem_run mem_produce_tx mem_consume_rx d ops' = Some (acc, del, r) \<and>
      acc = del @ ring_contents (ring_view desc_codec r) \<and> length (ring_contents (ring_view desc_codec r)) \<le> 2 ^ k)"
proof -
  have sz: "0 < c_size u64_codec" "0 < c_size desc_codec" by (simp_all add: u64_codec_def desc_codec_def)
  note a = zeroed_mapping [OF assms(4) [unfolded mmap_addr_ring_def] assms(1,2) sz(1)]
    and d = zeroed_mapping [OF assms(5) [unfolded mmap_desc_ring_def] assms(1,2) sz(2)]
  have cap: "ring_capacity (ring_view u64_codec a) = 2 ^ k" "ring_capacity (ring_view desc_codec d) = 2 ^ k"
    using assms(3-5) unat_power_u32 [OF assms(2)]
    by (auto simp: ring_capacity_def ring_view_def mmap_addr_ring_def mmap_desc_ring_def map_ring_def)
  obtain acc del r where r: "mem_run mem_enqueue_batch mem_dequeue_all a ops = Some (acc, del, r)"
    "fifo_run enqueue_batch dequeue_all (ring_view u64_codec a) ops = (acc, del, ring_view u64_codec r)"
    using addr_sim.run_sim [OF a(1), of ops] assms(3) by blast
  obtain acc' del' r' where r': "mem_run mem_produce_tx mem_consume_rx d ops' = Some (acc', del', r')"
    "fifo_run produce_tx consume_rx (ring_view desc_codec d) ops' = (acc', del', ring_view desc_codec r')"
    using desc_sim.run_sim [OF d(1), of ops'] assms(3) by blast
  from addr_fifo.fifo_order [OF _ r(2)] desc_fifo.fifo_order [OF _ r'(2)] a(2,3) d(2,3) assms(3)
  have "acc = del @ ring_contents (ring_view u64_codec r) \<and> ring_wf (ring_view u64_codec r) \<and>
      ring_capacity (ring_view u64_codec r) = 2 ^ k"
    "acc' = del' @ ring_contents (ring_view desc_codec r') \<and> ring_wf (ring_view desc_codec r') \<and>
      ring_capacity (ring_view desc_codec r') = 2 ^ k"
    by (simp_all add: cap)
  with r(1) r'(1) ring_free(2) show ?thesis by metis
qed

definition test_offsets :: xdp_ring_offsets where
  "test_offsets = \<lparr>o_producer = 0, o_consumer = 64, o_desc = 192, o_flags = 128\<rparr>"

theorem ring_memory_is_fifo_witness:
  "\<exists>a d acc del r. mmap_addr_ring (\<lambda>n. Some (replicate n 0)) test_offsets 4 = Some a \<and>
     mmap_desc_ring (\<lambda>n. Some (replicate n 0)) test_offsets 4 = Some d \<and>
     mem_run mem_enqueue_batch mem_dequeue_all a [Push [2048, 4096], PopAll, Push [6144, 8192, 0, 2048, 4096]] = Some (acc, del, r) \<and>
     acc = del @ ring_contents (ring_view u64_codec r) \<and> length (ring_contents (ring_view u64_codec r)) \<le> 4"
proof -
  have o: "offsets_ok test_offsets" by (simp add: offsets_ok_def test_offsets_def apart_def)
  obtain a d where ad: "mmap_addr_ring (\<lambda>n. Some (replicate n 0)) test_offsets 4 = Some a"
    "mmap_desc_ring (\<lambda>n. Some (replicate n 0)) test_offsets 4 = Some d"
    by (simp add: mmap_addr_ring_def mmap_desc_ring_def map_ring_def)
  from ring_memory_is_fifo [OF o, of 2 "\<lambda>n. Some (replicate n 0)" a d "[Push [2048, 4096], PopAll, Push [6144, 8192, 0, 2048, 4096]]"] ad
  show ?thesis by fastforce
qed

end
