(* ===== verification/Round_Trip.thy ===== *)
theory Round_Trip
  imports Xdp_Counts Xdp_Filter
begin

text \<open>
  The life of a query on the AF\_XDP path, across the components: the worker stamps it into a UMEM frame and registers its id, the card
  sends the bytes of that frame, the server answers, the eBPF program hands the answer to the socket, and the worker parses it,
  matches it and counts it.
\<close>

section \<open>The query in the frame\<close>

lemma set_src_port_stamped:
  assumes "new_with_vlan sm dm src dst sport0 dport vlan = Some h"
  shows "set_src_port h (stamped sm dm src dst sport dport vlan n @ rest) p = Some (stamped sm dm src dst p dport vlan n @ rest)"
proof -
  have "l2 h + 20 = length (l2_bytes sm dm vlan @ ip_bytes tot ck src dst)" for tot ck
    using header_offsets [OF assms] by (simp add: length_l2_bytes)
  note o = this [of "20 + of_nat (8 + n)" "header_checksum (sum_words 0 10 (ip_bytes 0 0 src dst)) (20 + of_nat (8 + n))"]
  show ?thesis
    unfolding set_src_port_def stamped_def Let_def IPV4_HDR_def o append_assoc [symmetric]
    by (simp add: set_at_def list_update_append udp_bytes_def to_be16_def)
qed

lemma stamp_query_eq:
  assumes "new_with_vlan sm dm src dst sport0 dport vlan = Some hdr" "from_pairs entries = Some pool"
    and "entries ! (tmpl mod length entries) = (name, qtype)" "outer hdr + length (build_query qid name qtype) \<le> length buf"
  shows "stamp_query hdr pool tmpl qid sport buf =
    Some (outer hdr + length (build_query qid name qtype),
      stamped sm dm src dst sport dport vlan (length (build_query qid name qtype)) @ build_query qid name qtype @
      drop (outer hdr + length (build_query qid name qtype)) buf)"
proof -
  let ?q = "build_query qid name qtype"
  have "length ?q \<le> length (drop (outer hdr) buf)" using assms(4) by simp
  note w = write_with_index_from_pairs [OF assms(2,3) this]
  let ?b = "take (outer hdr) buf @ ?q @ drop (length ?q) (drop (outer hdr) buf)"
  have "outer hdr \<le> length ?b" "drop (outer hdr) ?b = ?q @ drop (outer hdr + length ?q) buf"
    using assms(4) by (simp_all add: add.commute)
  then show ?thesis
    using write_header_eq [OF assms(1), of ?b "length ?q"] w set_src_port_stamped [OF assms(1)] by (simp add: stamp_query_def)
qed

text \<open>The frame of the query a worker sends as number \<open>k\<close> from a given state.\<close>

record endpoints =
  ep_src_mac :: mac
  ep_dst_mac :: mac
  ep_src :: ipv4
  ep_dst :: ipv4
  ep_port :: u16
  ep_vlan :: "u16 option"

definition sends_to :: "endpoints \<Rightarrow> (string \<times> u16) list \<Rightarrow> worker_cfg \<Rightarrow> bool" where
  "sends_to p entries c \<longleftrightarrow>
     (\<exists>sport. new_with_vlan (ep_src_mac p) (ep_dst_mac p) (ep_src p) (ep_dst p) sport (ep_port p) (ep_vlan p) = Some (wc_hdr c)) \<and>
     from_pairs entries = Some (wc_pool c) \<and> list_all (\<lambda>(name, qtype). length name \<le> 494) entries"

definition nth_sport :: "'h xdp_worker \<Rightarrow> nat \<Rightarrow> u16" where
  "nth_sport s k = SPORT_BASE + of_nat ((xw_sport_ctr s + k) mod SPORT_SPREAD)"

definition nth_query :: "(string \<times> u16) list \<Rightarrow> worker_cfg \<Rightarrow> 'h xdp_worker \<Rightarrow> nat \<Rightarrow> bytes" where
  "nth_query entries c s k =
     (case entries ! ((xw_tmpl_idx s + k) mod length entries) of
        (name, qtype) \<Rightarrow> build_query (worker_query_id c (xw_id_ctr s + k)) name qtype)"

definition nth_frame :: "endpoints \<Rightarrow> (string \<times> u16) list \<Rightarrow> worker_cfg \<Rightarrow> 'h xdp_worker \<Rightarrow> nat \<Rightarrow> bytes" where
  "nth_frame p entries c s k =
     stamped (ep_src_mac p) (ep_dst_mac p) (ep_src p) (ep_dst p) (nth_sport s k) (ep_port p) (ep_vlan p)
       (length (nth_query entries c s k)) @ nth_query entries c s k"

lemma sends_toD:
  assumes "sends_to p entries c"
  obtains sport where "new_with_vlan (ep_src_mac p) (ep_dst_mac p) (ep_src p) (ep_dst p) sport (ep_port p) (ep_vlan p) = Some (wc_hdr c)"
    "from_pairs entries = Some (wc_pool c)" "pool_fits (wc_pool c)" "\<forall>(name, qtype) \<in> set entries. length name \<le> 494"
proof -
  from assms have "from_pairs entries = Some (wc_pool c)" "\<forall>(name, qtype) \<in> set entries. length name \<le> 494"
    by (auto simp: sends_to_def list_all_iff)
  with pool_fitsI [OF this] assms that show thesis unfolding sends_to_def by blast
qed

lemma nth_query_length:
  assumes "sends_to p entries c"
  shows "12 \<le> length (nth_query entries c s k)" "length (nth_query entries c s k) \<le> 512"
proof -
  obtain name qtype where e: "entries ! ((xw_tmpl_idx s + k) mod length entries) = (name, qtype)" by fastforce
  have "entries \<noteq> []" using assms by (auto simp: sends_to_def from_pairs_def)
  then have "entries ! ((xw_tmpl_idx s + k) mod length entries) \<in> set entries" by simp
  then have "length name \<le> 494" using assms e by (auto simp: sends_to_def list_all_iff)
  then show "12 \<le> length (nth_query entries c s k)" "length (nth_query entries c s k) \<le> 512"
    using build_query_length_bounds [of "worker_query_id c (xw_id_ctr s + k)" name qtype] by (simp_all add: nth_query_def e)
qed

lemma nth_frame_length:
  "length (nth_frame p entries c s k) = (if ep_vlan p = None then 42 else 46) + length (nth_query entries c s k)"
  by (simp add: nth_frame_def length_stamped)

text \<open>The first frame a fill stamps, and the numbers of the frames after it.\<close>

lemma stamp_first:
  assumes "sends_to p entries c" "length buf = 2048"
  shows "\<exists>rest. stamp_query (wc_hdr c) (wc_pool c) (xw_tmpl_idx s) (worker_query_id c (xw_id_ctr s))
      (SPORT_BASE + of_nat (xw_sport_ctr s mod SPORT_SPREAD)) buf =
    Some (length (nth_frame p entries c s 0), nth_frame p entries c s 0 @ rest) \<and>
    length (nth_frame p entries c s 0 @ rest) = 2048 \<and> length (nth_frame p entries c s 0) \<le> 2048"
proof -
  from assms(1) obtain sport where
    h: "new_with_vlan (ep_src_mac p) (ep_dst_mac p) (ep_src p) (ep_dst p) sport (ep_port p) (ep_vlan p) = Some (wc_hdr c)"
    and fp: "from_pairs entries = Some (wc_pool c)" by (rule sends_toD)
  obtain name qtype where e: "entries ! (xw_tmpl_idx s mod length entries) = (name, qtype)" by fastforce
  have q: "nth_query entries c s 0 = build_query (worker_query_id c (xw_id_ctr s)) name qtype" by (simp add: nth_query_def e)
  have o: "outer (wc_hdr c) = (if ep_vlan p = None then 42 else 46)" using header_offsets [OF h] by simp
  then have l: "outer (wc_hdr c) + length (nth_query entries c s 0) \<le> length buf"
    using nth_query_length(2) [OF assms(1), of s 0] assms(2) by simp
  from stamp_query_eq [OF h fp e l [unfolded q]] show ?thesis
    using l o assms(2) by (auto simp: nth_frame_def nth_sport_def q length_stamped)
qed

lemma nth_Suc:
  assumes "xw_id_ctr s' = xw_id_ctr s + 1" "xw_tmpl_idx s' = xw_tmpl_idx s + 1" "xw_sport_ctr s' = xw_sport_ctr s + 1"
  shows "nth_frame p entries c s' k = nth_frame p entries c s (Suc k)"
  by (simp add: nth_frame_def nth_query_def nth_sport_def assms)

section \<open>What a batch puts on the wire\<close>

definition pool_ok :: "'h xdp_worker \<Rightarrow> bool" where
  "pool_ok s \<longleftrightarrow> distinct (free_pool s) \<and> (\<forall>a \<in> set (free_pool s). frame_ok (xw_area s) a)"

definition desc_frame :: "bytes \<Rightarrow> xdp_desc \<Rightarrow> bytes" where
  "desc_frame area d = frame_at area (d_addr d) (unat (d_len d))"

lemma frame_at_take: "n \<le> m \<Longrightarrow> frame_at area a n = take n (frame_at area a m)"
  by (simp add: frame_at_def min_def)

lemma frame_at_put_same:
  "unat a + length buf \<le> length area \<Longrightarrow> frame_at (put_frame a buf area) a (length buf) = buf"
  by (simp add: frame_at_def put_frame_def)

text \<open>One step of a fill: the last free frame receives query number 0, the other frames keep their bytes, and the counters move on.\<close>

definition moved_on :: "'h xdp_worker \<Rightarrow> 'h xdp_worker \<Rightarrow> bool" where
  "moved_on s s1 \<longleftrightarrow> xw_id_ctr s1 = xw_id_ctr s + 1 \<and> xw_tmpl_idx s1 = xw_tmpl_idx s + 1 \<and> xw_sport_ctr s1 = xw_sport_ctr s + 1 \<and>
     xw_slots s1 = xw_slots s \<and> free_pool s1 = butlast (free_pool s) \<and> frame_ok (xw_area s1) = frame_ok (xw_area s)"

lemma tx_fill_step:
  assumes to: "sends_to p entries c" and ok: "pool_ok s" and ne: "free_pool s \<noteq> []"
  obtains s1 d where "\<And>n ds ids. tx_fill c (Suc n) s ds ids = tx_fill c n s1 (ds @ [d]) (ids @ [worker_query_id c (xw_id_ctr s)])"
    "moved_on s s1" "pool_ok s1" "d_addr d = last (free_pool s)" "unat (d_len d) \<le> 2048"
    "take (unat (d_len d)) (frame_at (xw_area s1) (d_addr d) 2048) = nth_frame p entries c s 0"
proof -
  let ?a = "last (free_pool s)"
  have a: "frame_ok (xw_area s) ?a" using ok ne by (simp add: pool_ok_def)
  then have "length (frame_at (xw_area s) ?a (unat FRAME_SIZE)) = 2048"
    by (auto simp: frame_at_def frame_ok_def FRAME_SIZE_def)
  from stamp_first [OF to this, of s] obtain rest where
    st: "stamp_query (wc_hdr c) (wc_pool c) (xw_tmpl_idx s) (worker_query_id c (xw_id_ctr s))
      (SPORT_BASE + of_nat (xw_sport_ctr s mod SPORT_SPREAD)) (frame_at (xw_area s) ?a (unat FRAME_SIZE)) =
      Some (length (nth_frame p entries c s 0), nth_frame p entries c s 0 @ rest)"
    and lb: "length (nth_frame p entries c s 0 @ rest) = 2048" "length (nth_frame p entries c s 0) \<le> 2048" by blast
  define f0 where "f0 = nth_frame p entries c s 0"
  define d where "d = \<lparr>d_addr = ?a, d_len = of_nat (length f0), d_options = 0\<rparr>"
  define s1 where "s1 = s\<lparr>xw_sock := (xw_sock s)\<lparr>xsk_tx_pool := butlast (free_pool s)\<rparr>,
      xw_area := put_frame ?a (f0 @ rest) (xw_area s), xw_id_ctr := xw_id_ctr s + 1,
      xw_tmpl_idx := xw_tmpl_idx s + 1, xw_sport_ctr := xw_sport_ctr s + 1\<rparr>"
  have "length (xw_area s1) = length (xw_area s)" using a lb by (simp add: s1_def f0_def frame_ok_def put_frame_length)
  then have fo: "frame_ok (xw_area s1) = frame_ok (xw_area s)" by (simp add: frame_ok_def fun_eq_iff)
  have len: "unat (d_len d) = length f0" using lb(2) by (simp add: d_def f0_def unat_of_nat)
  have "frame_at (xw_area s1) ?a 2048 = f0 @ rest"
    using frame_at_put_same [of ?a "f0 @ rest" "xw_area s"] a lb(1) by (simp add: s1_def f0_def frame_ok_def)
  moreover have "pool_ok s1" using ok fo by (auto simp: pool_ok_def s1_def distinct_butlast dest: in_set_butlastD)
  moreover have "tx_fill c (Suc n) s ds ids = tx_fill c n s1 (ds @ [d]) (ids @ [worker_query_id c (xw_id_ctr s)])" for n ds ids
    using ne st by (simp add: s1_def d_def f0_def Let_def)
  ultimately show thesis
    using that [of s1 d] fo len lb(2) by (simp add: moved_on_def s1_def d_def f0_def)
qed

lemma ids_Suc:
  "worker_query_id c m # map (\<lambda>k. worker_query_id c (m + 1 + k)) [0..<n] = map (\<lambda>k. worker_query_id c (m + k)) [0..<Suc n]"
  by (subst (2) upt_conv_Cons, simp) (simp add: map_Suc_upt [symmetric] del: upt_Suc)

lemma tx_fill_queries:
  assumes to: "sends_to p entries c"
  shows "pool_ok s \<Longrightarrow> n \<le> length (free_pool s) \<Longrightarrow>
    \<exists>s' new. tx_fill c n s ds ids = Some (s', ds @ new, ids @ map (\<lambda>k. worker_query_id c (xw_id_ctr s + k)) [0..<n]) \<and>
      length new = n \<and> xw_slots s' = xw_slots s \<and>
      (\<forall>k < n. desc_frame (xw_area s') (new ! k) = nth_frame p entries c s k)"
proof (induction n arbitrary: s ds ids)
  case (Suc n)
  from to obtain sport where
    h: "new_with_vlan (ep_src_mac p) (ep_dst_mac p) (ep_src p) (ep_dst p) sport (ep_port p) (ep_vlan p) = Some (wc_hdr c)"
    and pf: "pool_fits (wc_pool c)" by (rule sends_toD)
  let ?a = "last (free_pool s)"
  have ne: "free_pool s \<noteq> []" using Suc.prems(2) by auto
  then have a: "frame_ok (xw_area s) ?a" and "distinct (free_pool s)" using Suc.prems(1) by (simp_all add: pool_ok_def)
  then have nb: "?a \<notin> set (butlast (free_pool s))" using ne by (metis append_butlast_last_id distinct_append disjoint_iff list.set_intros(1))
  from to Suc.prems(1) ne obtain s1 d where
    st: "tx_fill c (Suc n) s ds ids = tx_fill c n s1 (ds @ [d]) (ids @ [worker_query_id c (xw_id_ctr s)])"
    and mv: "moved_on s s1" and p1: "pool_ok s1" and d: "d_addr d = ?a" "unat (d_len d) \<le> 2048"
      "take (unat (d_len d)) (frame_at (xw_area s1) (d_addr d) 2048) = nth_frame p entries c s 0" by (rule tx_fill_step) blast
  have "n \<le> length (free_pool s1)" using Suc.prems(2) mv by (simp add: moved_on_def)
  from Suc.IH [OF p1 this, of "ds @ [d]" "ids @ [worker_query_id c (xw_id_ctr s)]"] obtain s' new where
    f: "tx_fill c n s1 (ds @ [d]) (ids @ [worker_query_id c (xw_id_ctr s)]) =
      Some (s', (ds @ [d]) @ new, (ids @ [worker_query_id c (xw_id_ctr s)]) @ map (\<lambda>k. worker_query_id c (xw_id_ctr s1 + k)) [0..<n])"
    and r: "length new = n" "xw_slots s' = xw_slots s1" "\<forall>k < n. desc_frame (xw_area s') (new ! k) = nth_frame p entries c s1 k" by blast
  have all: "tx_fill c (Suc n) s ds ids = Some (s', ds @ d # new, ids @ map (\<lambda>k. worker_query_id c (xw_id_ctr s + k)) [0..<Suc n])"
    using st f mv by (simp add: moved_on_def ids_Suc [symmetric] del: upt_Suc)
  have "\<forall>b \<in> set (free_pool s1). frame_ok (xw_area s1) b" using p1 by (simp add: pool_ok_def)
  from tx_fill_writes [OF h pf this] f have "\<forall>b. frame_ok (xw_area s1) b \<longrightarrow> b \<notin> set (free_pool s1) \<longrightarrow>
      frame_at (xw_area s') b 2048 = frame_at (xw_area s1) b 2048" by (metis option.inject prod.inject)
  then have "frame_at (xw_area s') ?a 2048 = frame_at (xw_area s1) ?a 2048" using a nb mv by (simp add: moved_on_def)
  then have d0: "desc_frame (xw_area s') d = nth_frame p entries c s 0"
    using frame_at_take [OF d(2), of "xw_area s'" ?a] d(1,3) by (simp add: desc_frame_def)
  have "desc_frame (xw_area s') ((d # new) ! k) = nth_frame p entries c s k" if "k < Suc n" for k
    using that d0 r(3) nth_Suc [of s1 s] mv by (cases k) (simp_all add: moved_on_def)
  then show ?case using all r(1,2) mv by (intro exI [of _ s'] exI [of _ "d # new"]) (simp add: moved_on_def del: upt_Suc)
qed simp

text \<open>The ids of a batch that is not longer than the worker's share of the id space are distinct, so each is registered with its
  own time.\<close>

lemma insert_ids_pending:
  "slots_wf T \<Longrightarrow> distinct ids \<Longrightarrow>
     slots_wf (insert_ids clock i ids T) \<and>
     (\<forall>k < length ids. slot_pending (insert_ids clock i ids T) (ids ! k) = Some (max (clock (i + k)) 1)) \<and>
     (\<forall>j. j \<notin> set ids \<longrightarrow> slot_pending (insert_ids clock i ids T) j = slot_pending T j)"
proof (induction ids arbitrary: i T)
  case (Cons qid ids)
  note up = slots_update_pending [OF Cons.prems(1), of qid "max (clock i) 1"]
  have "slots_wf (xdp_insert qid (clock i) T)" using up(1) by (simp add: xdp_insert_def)
  from Cons.IH [OF this, of "Suc i"] Cons.prems(2) up(2) show ?case
    by (auto simp: xdp_insert_def nth_Cons split: nat.split)
qed simp

lemma batch_ids_distinct:
  assumes "wc_id c < wc_workers c" "wc_workers c \<le> 65536" "n \<le> id_span (wc_workers c)"
  shows "distinct (map (\<lambda>k. worker_query_id c (m + k)) [0..<n])"
proof -
  let ?w = "id_span (wc_workers c)"
  have "i = j" if "i < n" "j < n" "worker_query_id c (m + i) = worker_query_id c (m + j)" for i j
  proof -
    have "(m + i) mod ?w = (m + j) mod ?w"
      using that(3) unat_worker_query_id [OF assms(1,2)] by (metis add_left_cancel)
    then have "?w dvd (i - j) \<and> ?w dvd (j - i)" by (metis add_diff_cancel_left mod_eq_dvd_iff_nat nat_le_linear diff_is_0_eq dvd_0_right)
    then show "i = j" using that(1,2) assms(3) by (metis diff_is_0_eq dvd_imp_le le_antisym less_imp_diff_less neq0_conv not_le order_less_le_trans)
  qed
  then show ?thesis by (auto simp: distinct_map inj_on_def)
qed

lemma transmit_sends:
  assumes "sends_to p entries c" "pool_ok s" "rings_wf (xw_sock s)"
  obtains s' ds where "xdp_transmit c e n s = Some s'" "ring_contents (tx_ring s') = ring_contents (tx_ring s) @ ds"
    "length ds = min (min n (length (free_pool s))) (ring_capacity (tx_ring s) - length (ring_contents (tx_ring s)))"
    "\<forall>k < length ds. desc_frame (xw_area s') (ds ! k) = nth_frame p entries c s k"
    "\<not> wc_firehose c \<longrightarrow> xw_slots s' =
       insert_ids (xe_ins_ns e) 0 (map (\<lambda>k. worker_query_id c (xw_id_ctr s + k)) [0..<length ds]) (xw_slots s)"
proof -
  let ?m = "min n (length (free_pool s))"
  have "?m \<le> length (free_pool s)" by simp
  from tx_fill_queries [OF assms(1,2) this, of "[]" "[]"] obtain s1 new where
    f: "tx_fill c ?m s [] [] = Some (s1, new, map (\<lambda>k. worker_query_id c (xw_id_ctr s + k)) [0..<?m])" "length new = ?m"
      "xw_slots s1 = xw_slots s" "\<forall>k < ?m. desc_frame (xw_area s1) (new ! k) = nth_frame p entries c s k" by auto
  have tx: "tx_ring s1 = tx_ring s" using tx_fill_frames [OF f(1)] by simp
  have wf: "ring_wf (tx_ring s)" using assms(3) by (simp add: rings_wf_def)
  obtain enq tx' where p: "produce_tx (tx_ring s) new = (enq, tx')" by fastforce
  note law = desc_fifo.push_law [OF wf p]
  show thesis
  proof (cases "n = 0 \<or> new = []")
    case True
    then have "xdp_transmit c e n s = Some (if n = 0 then s else s1)" "?m = 0" using f by (auto simp: xdp_transmit_def)
    then show thesis using that [of "if n = 0 then s else s1" "[]"] f(3) tx by auto
  next
    case False
    define s2 where "s2 = s1\<lparr>xw_sock := (xw_sock s1)\<lparr>xsk_tx := tx', xsk_tx_pool := free_pool s1 @ map d_addr (drop enq new)\<rparr>\<rparr>"
    define s' where "s' = (if 0 < enq then register_sent c e enq (map (\<lambda>k. worker_query_id c (xw_id_ctr s + k)) [0..<?m]) s2 else s2)"
    have t: "xdp_transmit c e n s = Some s'" using False f(1) p tx by (simp add: xdp_transmit_def s2_def s'_def Let_def)
    have "enq \<le> ?m" using law f(2) by (metis min.cobounded1)
    then have i: "take enq (map (\<lambda>k. worker_query_id c (xw_id_ctr s + k)) [0..<?m]) = map (\<lambda>k. worker_query_id c (xw_id_ctr s + k)) [0..<enq]"
      by (simp only: take_map take_upt min_def) (simp add: min_def)
    have sl: "\<not> wc_firehose c \<longrightarrow> xw_slots s' = insert_ids (xe_ins_ns e) 0 (map (\<lambda>k. worker_query_id c (xw_id_ctr s + k)) [0..<enq]) (xw_slots s)"
      using f(3) by (auto simp: s'_def register_sent_def i Let_def s2_def)
    have "xw_area s' = xw_area s1" "tx_ring s' = tx'" by (simp_all add: s'_def s2_def)
    then show thesis using that [OF t, of "take enq new"] law f(2,4) \<open>enq \<le> ?m\<close> sl by (auto simp: min_def split: if_splits)
  qed
qed

lemma tx_pool_distinct: "distinct (frame_addrs 4096 16384)"
proof -
  have "distinct (frame_addrs 0 16384)" by (rule frame_addrs_distinct) simp
  then show ?thesis unfolding all_frames_split distinct_append by blast
qed

lemma length_frame_addrs: "length (frame_addrs a b) = b - a"
  by (simp add: frame_addrs_def)

definition send_counters :: "'h xdp_worker \<Rightarrow> nat \<times> nat \<times> nat" where
  "send_counters s = (xw_id_ctr s, xw_tmpl_idx s, xw_sport_ctr s)"

lemma counters_kept: "send_counters (snd (xdp_headroom c e (snd (stall_check e (xdp_reclaim s))))) = send_counters s"
proof -
  have "send_counters (xdp_reclaim s) = send_counters s" "send_counters (snd (stall_check e s)) = send_counters s"
    "send_counters (snd (xdp_headroom c e s)) = send_counters s" for s :: "'h xdp_worker"
    by (simp_all add: send_counters_def xdp_reclaim_def stall_check_def xdp_headroom_def Let_def split: prod.split)
  then show ?thesis by metis
qed

text \<open>In a reachable state, the worker's pool is sound when it comes to transmit.\<close>

lemma ready_to_transmit:
  assumes inv: "sys_inv S" and h: "xdp_headroom c e (snd (stall_check e (xdp_reclaim (sys S)))) = (n, s1)"
  shows "pool_ok s1" "rings_wf (xw_sock s1)" "tx_ring s1 = tx_ring (sys S)"
    "xw_id_ctr s1 = xw_id_ctr (sys S)" "xw_tmpl_idx s1 = xw_tmpl_idx (sys S)" "xw_sport_ctr s1 = xw_sport_ctr (sys S)"
proof -
  let ?s = "sys S"
  have wf: "rings_wf (xw_sock ?s)" and len: "length (xw_area ?s) = 16384 * 2048"
    and txs: "tx_frames ?s + mset (k_tx S) = mset (frame_addrs 4096 16384)"
    using inv unfolding sys_inv_def frames_inv_def by blast+
  have s1: "xw_sock s1 = xw_sock (xdp_reclaim ?s)" "xw_area s1 = xw_area ?s"
    using quiet_steps(3,4) [of c e "snd (stall_check e (xdp_reclaim ?s))"] reclaim_frames(5) [OF wf] by (simp_all add: h)
  then show "rings_wf (xw_sock s1)" "tx_ring s1 = tx_ring ?s" using reclaim_frames(1,6) [OF wf] by simp_all
  have "tx_frames s1 = tx_frames ?s" unfolding reclaim_frames(2) [OF wf, symmetric] by (simp add: tx_frames_def s1(1))
  then have "tx_frames s1 + mset (k_tx S) = mset (frame_addrs 4096 16384)" using txs by simp
  then have m: "mset (free_pool s1 @ (map d_addr (ring_contents (tx_ring s1)) @ ring_contents (comp_ring s1) @ k_tx S)) =
      mset (frame_addrs 4096 16384)" by (simp add: tx_frames_def add.assoc)
  have "distinct (free_pool s1)" using mset_eq_imp_distinct_iff [OF m] tx_pool_distinct by simp
  moreover have "set (free_pool s1) \<subseteq> set (frame_addrs 4096 16384)" using mset_eq_setD [OF m] by auto
  ultimately show "pool_ok s1"
    using frame_addrs_ok [OF _ order_refl len] unfolding pool_ok_def s1(2) by blast
  show "xw_id_ctr s1 = xw_id_ctr ?s" "xw_tmpl_idx s1 = xw_tmpl_idx ?s" "xw_sport_ctr s1 = xw_sport_ctr ?s"
    using counters_kept [of c e ?s] unfolding h snd_conv by (simp_all add: send_counters_def)
qed

lemma timeouts_quiet: "tx_ring (xdp_timeouts c e s) = tx_ring s" "xw_area (xdp_timeouts c e s) = xw_area s"
  by simp_all

section \<open>The answer\<close>

text \<open>The frame of a server that answers query \<open>q\<close> (RFC 1035, section 4.1.1: the id is copied, QR is set, a response code is given),
  sent back the way the query came, with records after the question.\<close>

definition reply_to :: "endpoints \<Rightarrow> u16 \<Rightarrow> u8 \<Rightarrow> u8 \<Rightarrow> bytes \<Rightarrow> bytes \<Rightarrow> bytes" where
  "reply_to p sport flags rcode q records =
     stamped (ep_dst_mac p) (ep_src_mac p) (ep_dst p) (ep_src p) (ep_port p) sport (ep_vlan p) (length q + length records) @
     answer_header flags rcode q @ records"

lemma answer_header_append: "12 \<le> length q \<Longrightarrow> answer_header f r q @ records = answer_header f r (q @ records)"
  by (simp add: answer_header_def list_update_append nth_append)

lemma reply_parses:
  assumes "12 \<le> length q"
  shows "parse_dns_from_frame (reply_to p sport flags rcode q records) = Some (Some (from_be16 (q ! 0) (q ! 1), rcode AND 0x0F))"
proof -
  have "12 \<le> length (answer_header flags rcode q @ records)" using assms by (simp add: answer_header_def)
  moreover have "(q @ records) ! 0 = q ! 0" "(q @ records) ! 1 = q ! 1" using assms by (auto simp: nth_append)
  ultimately show ?thesis
    using parse_stamped parse_response_answer [of "q @ records" flags rcode] assms
    by (simp add: reply_to_def answer_header_append)
qed

lemma reply_filtered:
  assumes "m queue = Some fd"
  shows "dns_xdp_client m queue (reply_to p sport flags rcode q records) =
    (if ep_vlan p = None \<and> ep_port p = 53 then XdpRedirect fd else XdpPass)"
  unfolding reply_to_def using assms stamped_source_port
  by (cases "ep_vlan p") (simp_all add: dns_xdp_client_def udp_offset_stamped length_stamped)

lemma nth_query_id:
  "from_be16 (nth_query entries c s k ! 0) (nth_query entries c s k ! 1) = worker_query_id c (xw_id_ctr s + k)"
  by (simp add: nth_query_def build_query_eq to_be16_def split: prod.split)

text \<open>A reply whose id is pending is counted once.\<close>

lemma rx_one_matches:
  assumes "\<not> wc_firehose c" "slots_wf (xw_slots u)" "slot_pending (xw_slots u) qid = Some t"
    and "parse_dns_from_frame (desc_frame (xw_area u) d) = Some (Some (qid, rcode))"
  obtains u' where "xdp_rx_one H c now d (u, j) = Some (u', j + 1)"
    "xw_stats u' = record_response H rcode (sat_sub now t div 1000) (xw_stats u)"
    "slot_pending (xw_slots u') = (slot_pending (xw_slots u))(qid := None)"
    "\<And>now'. xdp_rx_one H c now' d (u', j + 1) = Some (u', j + 1)"
proof -
  let ?T = "(xw_slots u)[unat qid := 0]"
  let ?u = "u\<lparr>xw_slots := ?T, xw_stats := record_response H rcode (sat_sub now t div 1000) (xw_stats u)\<rparr>"
  have t: "xw_slots u ! unat qid = t" "t \<noteq> 0" using assms(3) by (auto simp: slot_pending_def Let_def split: if_splits)
  have z: "?T ! unat qid = 0" using assms(2) by simp
  note parse = assms(4) [unfolded desc_frame_def]
  have "xdp_rx_one H c now d (u, j) = Some (?u, j + 1)" using assms(1) parse t by (simp add: xdp_rx_one_def xdp_take_def Let_def)
  moreover have "xdp_rx_one H c now' d (?u, j + 1) = Some (?u, j + 1)" for now'
    using assms(1) parse z by (simp add: xdp_rx_one_def xdp_take_def Let_def)
  ultimately show thesis using that [of ?u] slots_update_pending(2) [OF assms(2), of qid 0] by simp
qed

section \<open>A new worker\<close>

definition test_endpoints :: endpoints where
  "test_endpoints = \<lparr>ep_src_mac = Mac 0x00 0x11 0x22 0x33 0x44 0x55, ep_dst_mac = Mac 0xAA 0xBB 0xCC 0xDD 0xEE 0xFF,
     ep_src = Ipv4 10 8 0 2, ep_dst = Ipv4 10 8 0 1, ep_port = 53, ep_vlan = None\<rparr>"

definition closed_worker :: worker_cfg where
  "closed_worker = test_worker\<lparr>wc_firehose := False\<rparr>"

lemma test_sends_to: "sends_to test_endpoints [(''a.com'', 1)] test_worker" "sends_to test_endpoints [(''a.com'', 1)] closed_worker"
proof -
  have "from_pairs [(''a.com'', 1)] = Some (wc_pool test_worker)" by (simp add: test_worker_def from_pairs_def)
  then show "sends_to test_endpoints [(''a.com'', 1)] test_worker" "sends_to test_endpoints [(''a.com'', 1)] closed_worker"
    using test_worker_ok(1) by (auto simp: sends_to_def test_endpoints_def closed_worker_def)
qed

definition test_env :: xdp_env where
  "test_env = \<lparr>xe_stall_now = 0, xe_stall_done = 0, xe_qps = 0, xe_refill = 0, xe_ins_ns = (\<lambda>_. 1000), xe_egress_ns = 1,
     xe_rx_ns = (\<lambda>_. 2), xe_now = 0, xe_sweep_ns = 3\<rparr>"

definition fresh :: "worker_cfg \<Rightarrow> xsk_socket \<Rightarrow> (u64 list) xdp_worker" where
  "fresh c sock = xdp_worker_new c 0 sock (replicate (16384 * 2048) 0) slots_new 0 (stats_new list_hist)"

lemma fresh_facts:
  assumes "create_xsk_socket all_ok {} = (Inr sock, live)"
  shows "ring_contents (tx_ring (fresh c sock)) = []" "ring_capacity (tx_ring (fresh c sock)) = 4096"
    "pool_ok (fresh c sock)" "rings_wf (xw_sock (fresh c sock))" "slots_wf (xw_slots (fresh c sock))" "free_pool (fresh c sock) \<noteq> []"
    "sys (xdp_system_new c 0 sock (replicate (16384 * 2048) 0) slots_new 0 (stats_new list_hist)) = fresh c sock"
proof -
  note k = socket_frames [OF assms]
  have l: "length (replicate (16384 * 2048) 0 :: bytes) = 16384 * 2048" by (rule length_replicate)
  show f: "sys (xdp_system_new c 0 sock (replicate (16384 * 2048) 0) slots_new 0 (stats_new list_hist)) = fresh c sock"
    by (simp only: xdp_system_new_def fresh_def xdp_system.simps)
  have w: "xw_sock (fresh c sock) = sock" "xw_area (fresh c sock) = replicate (16384 * 2048) 0" "xw_slots (fresh c sock) = slots_new"
    by (simp_all only: fresh_def xdp_worker_new_def xdp_worker.simps)
  show "ring_contents (tx_ring (fresh c sock)) = []" "ring_capacity (tx_ring (fresh c sock)) = 4096"
    unfolding w k(1) mapped_ring_empty by (simp_all add: ring_capacity_def mapped_ring_def)
  show "pool_ok (fresh c sock)"
    unfolding pool_ok_def w k(4) using tx_pool_distinct frame_addrs_ok [OF _ order_refl l] by blast
  show "rings_wf (xw_sock (fresh c sock))"
    using system_new_inv [OF assms l, of c 0 slots_new 0 "stats_new list_hist"] unfolding sys_inv_def frames_inv_def f by blast
  show "slots_wf (xw_slots (fresh c sock))" unfolding w by (rule slots_new_wf)
  show "free_pool (fresh c sock) \<noteq> []" unfolding w k(4) using length_frame_addrs [of 4096 16384] by force
qed

section \<open>Properties\<close>

text \<open>C5: The whole way of a query. In closed loop, a batch the worker submits consists of the queries it is to send: the frame of
  every descriptor the ring accepted holds, behind valid headers, the next query of the corpus under the next id. When a server
  answers it, the eBPF program hands the answer to the socket of its queue exactly when it is untagged and comes from port 53; the
  worker then counts it once, under its response code, with the time since that very query was registered, and frees its id, and
  a duplicate of the answer changes nothing.\<close>

theorem query_round_trip:
  assumes "sends_to p entries c" "pool_ok s" "rings_wf (xw_sock s)" "slots_wf (xw_slots s)" "\<not> wc_firehose c"
    and "wc_id c < wc_workers c" "wc_workers c \<le> 65536" "n \<le> id_span (wc_workers c)"
    and "xdp_transmit c e n s = Some s'" "ring_contents (tx_ring s') = ring_contents (tx_ring s) @ ds" "k < length ds"
    and "slots_wf (xw_slots u)" "slot_pending (xw_slots u) (worker_query_id c (xw_id_ctr s + k)) =
      slot_pending (xw_slots s') (worker_query_id c (xw_id_ctr s + k))"
    and "desc_frame (xw_area u) d = reply_to p (nth_sport s k) flags rcode (nth_query entries c s k) records"
    and "m queue = Some fd"
  shows "desc_frame (xw_area s') (ds ! k) = nth_frame p entries c s k \<and>
    dns_xdp_client m queue (desc_frame (xw_area u) d) = (if ep_vlan p = None \<and> ep_port p = 53 then XdpRedirect fd else XdpPass) \<and>
    (\<exists>u'. xdp_rx_one H c now d (u, j) = Some (u', j + 1) \<and>
      xw_stats u' = record_response H (rcode AND 0x0F) (sat_sub now (max (xe_ins_ns e k) 1) div 1000) (xw_stats u) \<and>
      slot_pending (xw_slots u') = (slot_pending (xw_slots u))(worker_query_id c (xw_id_ctr s + k) := None) \<and>
      xdp_rx_one H c now' d (u', j + 1) = Some (u', j + 1))"
proof -
  let ?q = "\<lambda>k. worker_query_id c (xw_id_ctr s + k)"
  from assms(1-3) obtain s2 ds2 where t: "xdp_transmit c e n s = Some s2" "ring_contents (tx_ring s2) = ring_contents (tx_ring s) @ ds2"
    "length ds2 = min (min n (length (free_pool s))) (ring_capacity (tx_ring s) - length (ring_contents (tx_ring s)))"
    "\<forall>k < length ds2. desc_frame (xw_area s2) (ds2 ! k) = nth_frame p entries c s k"
    "\<not> wc_firehose c \<longrightarrow> xw_slots s2 = insert_ids (xe_ins_ns e) 0 (map ?q [0..<length ds2]) (xw_slots s)"
    by (rule transmit_sends)
  have e: "s2 = s'" "ds2 = ds" using t(1,2) assms(9,10) by simp_all
  have "length ds \<le> id_span (wc_workers c)" using t(3) assms(8) e by simp
  from insert_ids_pending [OF assms(4) batch_ids_distinct [OF assms(6,7) this], of "xe_ins_ns e" 0 "xw_id_ctr s"]
  have pend: "slot_pending (xw_slots u) (?q k) = Some (max (xe_ins_ns e k) 1)"
    using t(5) assms(5,11,13) e by simp
  have "parse_dns_from_frame (desc_frame (xw_area u) d) = Some (Some (?q k, rcode AND 0x0F))"
    unfolding assms(14) using reply_parses nth_query_length(1) [OF assms(1)] nth_query_id by metis
  from rx_one_matches [OF assms(5,12) pend this, of H now j] obtain u' where
    "xdp_rx_one H c now d (u, j) = Some (u', j + 1)" "xdp_rx_one H c now' d (u', j + 1) = Some (u', j + 1)"
    "xw_stats u' = record_response H (rcode AND 0x0F) (sat_sub now (max (xe_ins_ns e k) 1) div 1000) (xw_stats u)"
    "slot_pending (xw_slots u') = (slot_pending (xw_slots u))(?q k := None)" by blast
  moreover have "desc_frame (xw_area s') (ds ! k) = nth_frame p entries c s k" using t(4) e assms(11) by blast
  ultimately show ?thesis unfolding assms(14) reply_filtered [where m = m and queue = queue, OF assms(15)] by blast
qed

theorem query_round_trip_witness:
  "\<exists>sock s' d d' u u'. fst (create_xsk_socket all_ok {}) = Inr sock \<and>
     xdp_transmit closed_worker test_env 1 (fresh closed_worker sock) = Some s' \<and>
     ring_contents (tx_ring s') = [d] \<and>
     desc_frame (xw_area s') d = nth_frame test_endpoints [(''a.com'', 1)] closed_worker (fresh closed_worker sock) 0 \<and>
     dns_xdp_client [0 \<mapsto> 9] 0 (desc_frame (xw_area u) d') = XdpRedirect 9 \<and>
     xdp_rx_one list_hist closed_worker 5001000 d' (u, 0) = Some (u', 1) \<and>
     xw_stats u' = record_response list_hist 3 5000 (xw_stats s')"
proof -
  obtain sock live where c: "create_xsk_socket all_ok {} = (Inr sock, live)" by (rule all_ok_socket)
  let ?c = closed_worker and ?es = "[(''a.com'', 1 :: u16)]"
  let ?s = "fresh ?c sock"
  note f = fresh_facts [OF c, of ?c]
  from test_sends_to(2) f(3,4) obtain s' ds where t: "xdp_transmit ?c test_env 1 ?s = Some s'"
    "ring_contents (tx_ring s') = ring_contents (tx_ring ?s) @ ds"
    "length ds = min (min 1 (length (free_pool ?s))) (ring_capacity (tx_ring ?s) - length (ring_contents (tx_ring ?s)))"
    and sl: "\<not> wc_firehose ?c \<longrightarrow> xw_slots s' = insert_ids (xe_ins_ns test_env) 0 (map (\<lambda>k. worker_query_id ?c (xw_id_ctr ?s + k)) [0..<length ds]) (xw_slots ?s)"
    by (rule transmit_sends)
  have w: "\<not> wc_firehose ?c" "wc_id ?c < wc_workers ?c" "wc_workers ?c \<le> 65536" "1 \<le> id_span (wc_workers ?c)"
    by (simp_all add: closed_worker_def test_worker_def id_span_def)
  have "length ds = 1" using t(3) f(1,2,6) by (cases "free_pool ?s") simp_all
  then obtain d where ds: "ds = [d]" by (auto simp: length_Suc_conv)
  define r where "r = reply_to test_endpoints (nth_sport ?s 0) 0 3 (nth_query ?es ?c ?s 0) []"
  define d' where "d' = \<lparr>d_addr = 0, d_len = of_nat (length r), d_options = 0\<rparr>"
  have sw: "slots_wf (xw_slots s')"
    using insert_ids_pending [OF f(5) batch_ids_distinct [OF w(2,3), of "length ds"]] sl w(1,4) ds by simp
  define u where "u = s'\<lparr>xw_area := r\<rparr>"
  have "length r = 42 + length (nth_query ?es ?c ?s 0)"
    by (simp add: r_def reply_to_def length_stamped test_endpoints_def answer_header_def)
  then have "length r < 2 ^ 32" using nth_query_length(2) [OF test_sends_to(2), of ?s 0] by simp
  then have "unat (d_len d') = length r" by (simp add: d'_def unat_of_nat)
  then have a: "desc_frame (xw_area u) d' = reply_to test_endpoints (nth_sport ?s 0) 0 3 (nth_query ?es ?c ?s 0) []"
    by (simp add: desc_frame_def frame_at_def d'_def r_def u_def)
  have x: "(3 :: u8) AND 0x0F = 3" "sat_sub 5001000 (max (xe_ins_ns test_env 0) 1) div 1000 = 5000" "ep_vlan test_endpoints = None"
    "ep_port test_endpoints = 53"
    by (simp_all add: sat_sub_def max_def word_le_nat_alt test_env_def test_endpoints_def)
  have "0 < length ds" "slots_wf (xw_slots u)" "[0 \<mapsto> 9] 0 = Some (9 :: nat)" using ds sw by (simp_all add: u_def)
  from query_round_trip [where m = "[0 \<mapsto> 9]" and queue = 0 and H = list_hist and now = 5001000 and now' = 0 and j = 0, OF test_sends_to(2) f(3-5) w t(1,2) this(1,2) _ a this(3)]
  show ?thesis
    unfolding x using c ds t(1,2) f(1) by - (rule exI [of _ sock], rule exI [of _ s'], rule exI [of _ d], rule exI [of _ d'], rule exI [of _ u], auto simp: u_def)
qed

text \<open>C6: What a run puts on the wire. In every state a worker and the kernel reach from a new socket, an iteration of the worker
  returns, and the descriptors it adds to the transmit ring are those of its next queries, in order: each points at a frame
  with exactly the headers to the server and the next query of the corpus under the next id of the worker and the next source port.\<close>

theorem xdp_iteration_sends_queries:
  assumes "create_xsk_socket env live = (Inr sock, live')" "length area = 16384 * 2048" "sends_to p entries c"
    and "(system_step H c)\<^sup>*\<^sup>* (xdp_system_new c now sock area slots global st) S"
  shows "\<exists>s' ds. xdp_iter H c e (sys S) = Some s' \<and>
    ring_contents (tx_ring s') = ring_contents (tx_ring (sys S)) @ ds \<and>
    map (desc_frame (xw_area s')) ds = map (nth_frame p entries c (sys S)) [0..<length ds]"
proof -
  from assms(3) obtain sport where
    h: "new_with_vlan (ep_src_mac p) (ep_dst_mac p) (ep_src p) (ep_dst p) sport (ep_port p) (ep_vlan p) = Some (wc_hdr c)"
    and pf: "pool_fits (wc_pool c)" by (rule sends_toD)
  have inv: "sys_inv S" by (rule system_reachable_inv [OF h pf assms(4) system_new_inv [OF assms(1,2)]])
  obtain n s1 where hd: "xdp_headroom c e (snd (stall_check e (xdp_reclaim (sys S)))) = (n, s1)" by fastforce
  note r = ready_to_transmit [OF inv hd]
  from assms(3) r(1,2) obtain s2 ds where
    t: "xdp_transmit c e n s1 = Some s2" "ring_contents (tx_ring s2) = ring_contents (tx_ring s1) @ ds"
      "\<forall>k < length ds. desc_frame (xw_area s2) (ds ! k) = nth_frame p entries c s1 k" by (rule transmit_sends)
  obtain s3 where rx: "xdp_receive H c e s2 = Some s3" using receive_returns by blast
  have "xdp_iter H c e (sys S) = Some (xdp_timeouts c e s3)" using hd t(1) rx by (simp add: xdp_iter_def)
  moreover have "ring_contents (tx_ring (xdp_timeouts c e s3)) = ring_contents (tx_ring (sys S)) @ ds"
    "xw_area (xdp_timeouts c e s3) = xw_area s2" using receive_area [OF rx] t(2) r(3) by simp_all
  moreover have "nth_frame p entries c s1 = nth_frame p entries c (sys S)"
    using r(4-6) by (simp add: fun_eq_iff nth_frame_def nth_query_def nth_sport_def)
  ultimately show ?thesis using t(3) by (auto intro!: exI [of _ ds] nth_equalityI)
qed

theorem xdp_iteration_sends_queries_witness:
  "\<exists>sock s' ds. fst (create_xsk_socket all_ok {}) = Inr sock \<and>
     xdp_iter list_hist test_worker test_env (fresh test_worker sock) = Some s' \<and> ring_contents (tx_ring s') = ds \<and>
     map (desc_frame (xw_area s')) ds = map (nth_frame test_endpoints [(''a.com'', 1)] test_worker (fresh test_worker sock)) [0..<length ds]"
proof -
  obtain sock live where c: "create_xsk_socket all_ok {} = (Inr sock, live)" by (rule all_ok_socket)
  have l: "length (replicate (16384 * 2048) 0 :: bytes) = 16384 * 2048" by (rule length_replicate)
  from xdp_iteration_sends_queries [OF c l test_sends_to(1) rtranclp.rtrancl_refl [where r = "system_step list_hist test_worker"],
      where now = 0 and slots = slots_new and global = 0 and st = "stats_new list_hist" and e = test_env] c fresh_facts(1) [OF c, of test_worker]
  show ?thesis unfolding fresh_facts(7) [OF c] by (metis append_Nil fst_conv)
qed

end
