(* ===== verification/Program.thy ===== *)
theory Program
  imports Output "HOL-Library.Multiset"
begin

text \<open>
  What the whole program writes to standard output, from the first line of \<^verbatim>\<open>main\<close> to the report: the lines of \<^verbatim>\<open>src/main.rs\<close>, of the
  start of a run and of the ramp task (\<^verbatim>\<open>src/engine/mod.rs\<close>), of the multi-card run (\<^verbatim>\<open>src/engine/multi_nic.rs\<close>) and of the reports,
  composed by run mode. Lines of tasks that run at the same time are mixed in an order that is a parameter.
\<close>

section \<open>Lines of main\<close>

definition workers_line :: "host \<Rightarrow> cli \<Rightarrow> config \<Rightarrow> string" where
  "workers_line h c cfg =
     (let physical_count = length (physical_cores h)
      in if cli_clients c \<in> {''auto'', ''0''} then
           if physical_count < 8 then
             ''Workers: '' @ nat_to_string (c_concurrent cfg) @ '' (auto '' @ em_dash @ '' min 8, VM has '' @
             nat_to_string physical_count @ '' physical core'' @ (if physical_count = 1 then [] else ''s'') @ '')''
           else ''Workers: '' @ nat_to_string (c_concurrent cfg) @ '' (auto '' @ em_dash @ '' physical cores, HT excluded)''
         else ''Workers: '' @ nat_to_string (c_concurrent cfg) @ '' (manual)'')"

definition startup_lines :: "host \<Rightarrow> cli \<Rightarrow> config \<Rightarrow> string list" where
  "startup_lines h c cfg =
     (if cli_quiet c then []
      else
        (if 1 < length (c_servers cfg) then
           [''Multi-NIC mode: '' @ nat_to_string (length (c_servers cfg)) @ '' targets / '' @
            nat_to_string (length (filter_map (nic_of h) (c_servers cfg))) @ '' interfaces'']
         else []) @ [workers_line h c cfg])"

definition wire_banner :: "config \<Rightarrow> nat \<Rightarrow> u64 \<Rightarrow> string" where
  "wire_banner cfg n rate =
     ''Wire-latency probe '' @ right_arrow @ '' '' @
     (case c_server cfg of V4 a \<Rightarrow> ip_text (V4 a) | V6 gs \<Rightarrow> ''['' @ ip_text (V6 gs) @ '']'') @ '':'' @ nat_to_string (unat (c_port cfg)) @
     '' : '' @ nat_to_string n @ '' samples @ '' @ u64_text rate @ '' qps (kernel SO_TIMESTAMPING, TX+RX at the driver)''"

section \<open>Lines of a run\<close>

definition datapath_lines :: "config \<Rightarrow> bool \<Rightarrow> string \<Rightarrow> string list" where
  "datapath_lines cfg xdp_on iface =
     (if c_quiet cfg then []
      else if xdp_on then [''XDP receive path active (iface='' @ iface @ '')'']
      else if c_force_xdp cfg \<and> c_protocol cfg = Udp then []
      else [''XDP disabled '' @ em_dash @ '' using UDP receive path (use --xdp to enable)''])"

definition ms3 :: "u64 \<Rightarrow> string" where
  "ms3 us = fmt_fixed 3 (f_div (f_of_u64 us) (Fin 1000))"

text \<open>The ramp task: a line per step, with the percentiles \<open>p95\<close>, \<open>p99\<close> and the number of samples of its window.\<close>

definition ramp_step_line :: "u64 \<Rightarrow> u64 \<Rightarrow> u64 \<Rightarrow> u64 \<Rightarrow> u64 \<times> u64 \<Rightarrow> string" where
  "ramp_step_line sent_w served samples p50 tails =
     ''Ramp step: offered '' @ pad_left 9 (u64_text (sent_w div 4)) @ '' q/s | served '' @ pad_left 9 (u64_text served) @
     '' q/s | rtt-samples '' @ pad_left 8 (u64_text samples) @ '' | p50 '' @ ms3 p50 @ '' ms  p95 '' @ ms3 (fst tails) @
     '' ms  p99 '' @ ms3 (snd tails) @ '' ms''"

definition knee_line :: "u64 \<times> u64 \<Rightarrow> string list" where
  "knee_line b =
     (case b of
        (klo, khi) \<Rightarrow>
          if klo < khi then
            [''Knee bracket (DSD bisection): ['' @ u64_text klo @ '' ; '' @ u64_text khi @ ''] q/s  ('' @ [CHR 0xC2, CHR 0xB1] @
             fmt_fixed 1 (f_div (f_mul (f_div (f_of_u64 (khi - klo)) (f_of_u64 (max klo 1))) (Fin 100)) (Fin 2)) @ ''%)'']
          else [])"

definition ramp_end_lines :: "bool \<Rightarrow> ramp_task \<Rightarrow> string list" where
  "ramp_end_lines xdp_on t =
     (let slo = fmt_fixed 2 (f_div (f_of_u64 (threshold_us (rt_ctrl t))) (Fin 1000));
          capacity = ''  Capacity:      '' @ pad_left 12 (format_qps (peak_served t));
          slo_line = ''  Within SLO:    '' @ pad_left 12 (format_qps (best_ok_served t)) @ ''  (p50 stays under '' @ slo @ '' ms at this rate''
      in [[], ''  Idle latency:  '' @ ms3 (baseline_us (rt_ctrl t)) @ '' ms   (floor '' @ em_dash @ '' minimum p50 observed)''] @
         (if xdp_on then
            [capacity @ ''  (NIC-verified '' @ em_dash @ '' max replies/s on the wire)'', slo_line @ '')'']
          else
            [capacity @ ''  (closed-loop knee '' @ em_dash @ '' kernel-recv bound, NOT the server's raw max)'',
             slo_line @ ''; dnsperf-comparable)'']) @
         knee_line (bracket (rt_ctrl t)) @
         (if xdp_on then []
          else
            [''  '' @ right_arrow @ '' kernel-UDP caps this ramp (generator recv, not the server). For the server's RAW ceiling run open-loop:'',
             ''      dnsmark -s <ip> -Q 0 --max-outstanding 0   (reports Server throughput (NIC rx) = server_rx_qps)'']))"

fun ramp_lines ::
  "bool \<Rightarrow> string list \<Rightarrow> u64 \<Rightarrow> (nat \<Rightarrow> u64 \<Rightarrow> ramp_obs) \<Rightarrow> (nat \<Rightarrow> u64 \<times> u64 \<times> u64) \<Rightarrow> nat \<Rightarrow> ramp_task \<Rightarrow> string list" where
  "ramp_lines xdp_on ifs concurrent env tails 0 t = []"
| "ramp_lines xdp_on ifs concurrent env tails (Suc n) t =
     (let obs = env (rt_step t) (current_qps (rt_ctrl t))
      in if stop_warmup obs \<or> stop_window obs then []
         else
           (case ramp_iter ifs concurrent env t of
              (stop, t') \<Rightarrow>
                ramp_step_line (sat_sub (sent_w1 obs) (sent_w0 obs)) (obs_served ifs obs) (fst (tails (rt_step t)))
                  (obs_p50 obs) (snd (tails (rt_step t))) #
                (if stop then ramp_end_lines xdp_on t' else ramp_lines xdp_on ifs concurrent env tails n t')))"

text \<open>What a run does that is printed: whether it gets as far as the choice of its datapath (an unreadable query file ends it
  before), the path it takes and, in a ramp, the lines of the ramp task. The terminal interface paints on the alternate screen and
  has a theory of its own.\<close>

record run_out =
  ro_started :: bool
  ro_xdp :: bool
  ro_iface :: string
  ro_ramp :: "string list"

definition engine_lines :: "config \<Rightarrow> run_out \<Rightarrow> string list" where
  "engine_lines cfg r =
     (if ro_started r then datapath_lines cfg (ro_xdp r) (ro_iface r) @ (if c_ramp cfg then ro_ramp r else []) else [])"

section \<open>Lines of the multi-card run\<close>

definition iface_or_unknown :: "host \<Rightarrow> ip_addr \<Rightarrow> string" where
  "iface_or_unknown h a = (case nic_of h a of Some i \<Rightarrow> i | None \<Rightarrow> ''?'')"

definition nic_lines :: "host \<Rightarrow> config \<Rightarrow> string list" where
  "nic_lines h cfg =
     (if c_quiet cfg then []
      else
        (''Multi-NIC: '' @ nat_to_string (length (c_servers cfg)) @ '' NICs '' @ [CHR 0xC3, CHR 0x97] @ '' ~'' @
         u64_text (base_workers (of_nat (c_concurrent cfg)) (length (c_servers cfg))) @ '' workers each  (total workers = '' @
         nat_to_string (c_concurrent cfg) @ '')'') #
        map (\<lambda>(i, k). ''  NIC['' @ nat_to_string i @ '']: target='' @ ip_text (c_server k) @ '' iface='' @
               iface_or_unknown h (c_server k) @ '' workers='' @ nat_to_string (c_concurrent k))
          (enumerate 0 (nic_configs cfg)))"

definition rule_of :: "nat \<Rightarrow> string" where
  "rule_of n = concat (replicate n [CHR 0xE2, CHR 0x94, CHR 0x80])"

definition breakdown_line :: "host \<Rightarrow> ip_addr \<times> stats_snapshot \<Rightarrow> string" where
  "breakdown_line h x =
     (case x of
        (addr, snap) \<Rightarrow>
          ''  '' @ ip_text addr @ '' ('' @ iface_or_unknown h addr @ '')  '' @
          (case ramp_capacity snap of
             Some cap \<Rightarrow> ''capacity='' @ fmt_fixed 0 cap @ '' qps (NIC-verified knee)  p99='' @ u64_text (p99_us snap)
           | None \<Rightarrow> ''sent='' @ u64_text (queries_sent snap) @ '' done='' @ u64_text (queries_completed snap) @ '' qps='' @
               fmt_fixed 0 (avg_qps snap) @ ''  p99='' @ u64_text (p99_us snap)) @
          '' '' @ [CHR 0xC2, CHR 0xB5] @ ''s'')"

definition breakdown_lines :: "host \<Rightarrow> config \<Rightarrow> (ip_addr \<times> stats_snapshot) list \<Rightarrow> string list" where
  "breakdown_lines h cfg per_nic =
     (if c_nic_stats cfg \<or> \<not> c_quiet cfg then
        [[], rule_of 2 @ '' Per-NIC breakdown '' @ rule_of 34] @ map (breakdown_line h) per_nic @ [rule_of 56]
      else [])"

section \<open>Standard output\<close>

datatype out_item = Line string | Doc json

definition printed_items :: "printed \<Rightarrow> out_item list" where
  "printed_items p = (case p of PrintedJson j \<Rightarrow> [Doc j] | PrintedText r \<Rightarrow> map Line (rep_out r))"

text \<open>The configurations whose runs print, by mode.\<close>

definition run_configs :: "cli \<Rightarrow> config \<Rightarrow> config list" where
  "run_configs c cfg =
     (case run_mode c cfg of
        WireLatencyRun n rate \<Rightarrow> []
      | CompareRun secondary \<Rightarrow> [cfg, compare_config cfg secondary]
      | MultiNicRun \<Rightarrow> nic_configs cfg
      | SingleRun \<Rightarrow> [cfg])"

definition run_lines :: "host \<Rightarrow> (string list list \<Rightarrow> string list) \<Rightarrow> (config \<Rightarrow> 'e + stats_snapshot) \<Rightarrow> (config \<Rightarrow> run_out) \<Rightarrow>
    cli \<Rightarrow> config \<Rightarrow> string list" where
  "run_lines h mix run outs c cfg =
     (let stacks = map (\<lambda>k. engine_lines k (outs k)) (run_configs c cfg)
      in case run_mode c cfg of
           WireLatencyRun n rate \<Rightarrow> [wire_banner cfg n rate]
         | MultiNicRun \<Rightarrow>
             mix (nic_lines h cfg # stacks) @
             breakdown_lines h cfg
               (fst (collect_nics (map (\<lambda>k. (c_server k, case run k of Inl e \<Rightarrow> NicFailed e | Inr s \<Rightarrow> NicDone s)) (nic_configs cfg)) [] None))
         | _ \<Rightarrow> mix stacks)"

definition main_stdout :: "host \<Rightarrow> (string list list \<Rightarrow> string list) \<Rightarrow> json \<Rightarrow> (nat \<Rightarrow> u64 \<Rightarrow> probe_error + wire_latency_result) \<Rightarrow>
    (config \<Rightarrow> 'e + stats_snapshot) \<Rightarrow> (config \<Rightarrow> run_out) \<Rightarrow> cli \<Rightarrow> config \<Rightarrow> out_item list" where
  "main_stdout h mix info wire run outs c cfg =
     map Line (startup_lines h c cfg @ run_lines h mix run outs c cfg) @
     (case main_run info wire run c cfg of
        WireLatencyEnd ls \<Rightarrow> map Line ls
      | RunEnd (p, csv) table \<Rightarrow> printed_items p @ map Line table
      | _ \<Rightarrow> [])"

section \<open>Lemmas\<close>

lemma config_flags:
  assumes "build_config h n_cpus af_xdp c = Some (Inr cfg)"
  shows "c_quiet cfg = cli_quiet c" "c_json_output cfg = cli_json c" "c_compare cfg = cli_compare c" "c_nic_stats cfg = cli_nic_stats c"
  by (rule build_config_ok [OF assms], simp add: make_config_def Let_def)+

lemma run_configs_flags: "k \<in> set (run_configs c cfg) \<Longrightarrow> c_quiet k = c_quiet cfg \<and> c_ramp k = c_ramp cfg"
  by (auto simp: run_configs_def nic_configs_def nic_config_def compare_config_def split: run_mode.splits)

lemma startup_quiet: "startup_lines h c cfg = [] \<longleftrightarrow> cli_quiet c"
  by (simp add: startup_lines_def)

lemma engine_lines_quiet: "c_quiet k \<Longrightarrow> engine_lines k r = [] \<longleftrightarrow> (ro_started r \<and> c_ramp k \<longrightarrow> ro_ramp r = [])"
  by (simp add: engine_lines_def datapath_lines_def)

lemma breakdown_quiet: "c_quiet cfg \<Longrightarrow> breakdown_lines h cfg xs = [] \<longleftrightarrow> \<not> c_nic_stats cfg"
  by (simp add: breakdown_lines_def)

lemma mix_Nil:
  assumes "\<And>xss. mset (mix xss) = mset (concat xss)"
  shows "mix xss = [] \<longleftrightarrow> (\<forall>xs \<in> set xss. xs = [])"
  using assms [of xss] by (metis concat_eq_Nil_conv mset_zero_iff)

text \<open>In quiet mode the runs print exactly what their ramp tasks print.\<close>

lemma run_lines_quiet:
  assumes "\<And>xss. mset (mix xss) = mset (concat xss)" "c_quiet cfg" "\<not> cli_wire_latency c"
  shows "run_lines h mix run outs c cfg = [] \<longleftrightarrow>
    (run_mode c cfg = MultiNicRun \<longrightarrow> \<not> c_nic_stats cfg) \<and>
    (c_ramp cfg \<longrightarrow> (\<forall>k \<in> set (run_configs c cfg). ro_started (outs k) \<longrightarrow> ro_ramp (outs k) = []))"
proof -
  have e: "(\<forall>xs \<in> set (map (\<lambda>k. engine_lines k (outs k)) (run_configs c cfg)). xs = []) \<longleftrightarrow>
      (c_ramp cfg \<longrightarrow> (\<forall>k \<in> set (run_configs c cfg). ro_started (outs k) \<longrightarrow> ro_ramp (outs k) = []))"
    using run_configs_flags assms(2) by (fastforce simp: engine_lines_quiet)
  have "nic_lines h cfg = []" using assms(2) by (simp add: nic_lines_def)
  moreover have "run_mode c cfg \<noteq> WireLatencyRun n r" for n r using assms(3) by (auto simp: run_mode_def split: option.splits)
  ultimately show ?thesis
    using e by (cases "run_mode c cfg") (auto simp: run_lines_def Let_def mix_Nil [OF assms(1)] breakdown_quiet [OF assms(2)])
qed

text \<open>The report of a JSON run is one document, followed by the table of a comparison.\<close>

lemma json_report:
  assumes "main_run info wire run c cfg = RunEnd (p, csv) table" "c_json_output cfg"
  shows "\<exists>d. p = PrintedJson d" "table = [] \<longleftrightarrow> c_compare cfg = None"
  using assms
  by (auto simp: main_run_def run_mode_def print_output_def print_compare_def Let_def split: if_splits option.splits sum.splits)

lemma ramp_lines_nonempty:
  assumes "\<not> stop_warmup (env (rt_step t) (current_qps (rt_ctrl t)))" "\<not> stop_window (env (rt_step t) (current_qps (rt_ctrl t)))"
  shows "ramp_lines xdp_on ifs concurrent env tails (Suc n) t \<noteq> []"
  using assms by (simp add: Let_def split: prod.split)

section \<open>Properties\<close>


definition json_cli :: "bool \<Rightarrow> cli" where
  "json_cli quiet = test_cli\<lparr>cli_json := True, cli_quiet := quiet, cli_duration := Some 5\<rparr>"

lemma json_cli_builds:
  "\<exists>cfg. build_config route_host (\<lambda>_. 2) False (json_cli quiet) = Some (Inr cfg) \<and>
     c_servers cfg = [V4 (Ipv4 10 0 1 9), V4 (Ipv4 192 168 1 1)] \<and> \<not> c_ramp cfg \<and> c_compare cfg = None \<and> c_json_output cfg"
proof -
  have "dedup_servers [] (cli_server (json_cli quiet)) = [V4 (Ipv4 10 0 1 9), V4 (Ipv4 192 168 1 1)]"
    by (simp add: json_cli_def test_cli_def)
  moreover have "protocol_from_str ''udp'' = Some Udp" by code_simp
  ultimately show ?thesis
    by (simp add: build_config_def route_host_ifaces init_cpu_pinning_def Let_def)
      (simp add: json_cli_def test_cli_def parse_clients_def make_config_def auto_ramp_def Let_def)
qed

lemma json_cli_ends:
  fixes run :: "config \<Rightarrow> unit + stats_snapshot"
  assumes "c_servers cfg = [a, b]" "c_compare cfg = None" "\<And>k. run k = Inr empty_snapshot"
  shows "\<exists>p csv table. main_run info wire run (json_cli quiet) cfg = RunEnd (p, csv) table"
proof -
  have m: "run_mode (json_cli quiet) cfg = MultiNicRun" using assms(1,2) by (simp add: run_mode_def json_cli_def test_cli_def)
  have "nic_snapshots (\<lambda>c. case run c of Inl e \<Rightarrow> NicFailed e | Inr s \<Rightarrow> NicDone s) cfg = [empty_snapshot, empty_snapshot]"
    using assms by (simp add: nic_snapshots_def nic_configs_def filter_map_def flatten_opt_def upt_rec)
  then show ?thesis by (simp add: main_run_def m run_multi_nic_eq)
qed


end
