(* ===== verification/Spec2Isabelle.thy ===== *)
theory Spec2Isabelle
  imports Query_Sources Ramp Frame Umem_Rings Udp_Legacy Xdp_Counts Xdp_Start Config Multi_Nic Wire_Latency
    Stream_Workers Kernel_Run Host_Tuning Tui Output Xdp_Filter Ring_Memory Round_Trip Program
begin

text \<open>
  dnsmark is a DNS load generator. \<^verbatim>\<open>main\<close> turns the command line into a configuration and runs one of five modes: a plain
  run, a run on several network cards, a ramp that searches the saturation point, a comparison of two
  servers, or a wire-latency probe. A run (\<^verbatim>\<open>engine::run_with_shutdown\<close>) loads a query source, builds a pool of
  encoded queries, starts workers over kernel UDP, AF\_XDP, TCP or TLS that share one statistics
  collector, waits for the end of the run and reports a snapshot. All paths below are relative to the
  repository, where the Rust sources are under \<^verbatim>\<open>src/\<close> and the eBPF program under \<^verbatim>\<open>ebpf/\<close>.

  \<^bold>\<open>Representation.\<close> Integers of fixed width are words of that width, so additions and subtractions wrap as in the release
  build; \<^verbatim>\<open>usize\<close> is \<^typ>\<open>nat\<close> except where the wrap-around matters (\<^verbatim>\<open>nic_workers\<close>). \<^verbatim>\<open>f64\<close> is computed exactly on
  rationals with rounding to nearest (\<^verbatim>\<open>Rust_Float\<close>). A panic is \<^term>\<open>None\<close>, a \<^verbatim>\<open>Result\<close> is a sum with the error on the
  left, a slice is a list with checked access, a \<^verbatim>\<open>&str\<close> the list of its bytes. Clocks, random numbers,
  files, environment variables and the outcomes of system calls are fields of environment records or
  function arguments: the theorems hold for all of them. Mutable objects are records passed through the
  operations; threads that share an object are step relations or lists of interleaved steps.

  \<^bold>\<open>Theories.\<close>

  \<^item> \<^verbatim>\<open>Prelude\<close>: the types, big-endian bytes, checked buffers, the fuel-bounded loop and the locale \<^verbatim>\<open>bounded_loop\<close> that
    gives termination from a decreasing bound. \<^verbatim>\<open>Rust_Str\<close>: the string functions of the standard library the
    program calls, with print and parse of numbers. \<^verbatim>\<open>Rust_Float\<close>: binary64.
  \<^item> \<^verbatim>\<open>Dns_Message\<close> (\<^verbatim>\<open>dns/\<close>, \<^verbatim>\<open>query/wire.rs\<close>): the query builder, the template pool, the response parser. The pool writes what the
    builder builds, a decoder reads it back, buffers are not overrun; an oversized label asks for the root.
  \<^item> \<^verbatim>\<open>Query_Sources\<close> (\<^verbatim>\<open>query/\<close>): the trait is the locale \<^verbatim>\<open>query_source\<close>, interpreted on the built-in, the file and the random source.
  \<^item> \<^verbatim>\<open>Stats\<close> (\<^verbatim>\<open>stats/\<close>): the collector; counters add up, the compare-and-swap maximum is right in every interleaving. The
    histogram is the \<^verbatim>\<open>hdrhistogram\<close> library: a record of operations with the laws \<^verbatim>\<open>hist_laws\<close>, shown satisfiable by the
    instance \<^verbatim>\<open>list_hist\<close>.
  \<^item> \<^verbatim>\<open>Inflight\<close> (\<^verbatim>\<open>transport/udp.rs\<close>, \<^verbatim>\<open>transport/xdp/receiver.rs\<close>): the three tables of pending queries, one locale \<^verbatim>\<open>inflight_table\<close>.
  \<^item> \<^verbatim>\<open>Udp_Workers\<close>, \<^verbatim>\<open>Udp_Flood\<close>, \<^verbatim>\<open>Udp_Legacy\<close> (\<^verbatim>\<open>transport/udp.rs\<close>): the closed loop, the flood pair of threads and the single-thread
    worker. Every query sent is completed, timed out or outstanding; the gate is kept and reopens; the error
    theorem shows what the wrap of the 16-bit id does to it.
  \<^item> \<^verbatim>\<open>Stream_Workers\<close> (\<^verbatim>\<open>transport/tcp.rs\<close>, \<^verbatim>\<open>transport/dot.rs\<close>): one connection per query; both workers return and count each query once.
  \<^item> \<^verbatim>\<open>Wire_Latency\<close> (\<^verbatim>\<open>transport/wire_latency.rs\<close>): kernel stamps, the probe loop and its report; what it measures when replies are
    in time and what one late reply does.
  \<^item> \<^verbatim>\<open>Frame\<close> (\<^verbatim>\<open>transport/xdp/frame.rs\<close>, the parser of \<^verbatim>\<open>receiver.rs\<close>): header template, incremental checksum, tag, parser.
  \<^item> \<^verbatim>\<open>Umem_Rings\<close> (\<^verbatim>\<open>transport/xdp/umem.rs\<close>, \<^verbatim>\<open>socket.rs\<close>): rings with wrapping counters, refined to queues by the locale
    \<^verbatim>\<open>bounded_fifo\<close>; creation of the UMEM and the socket with every failure. \<^verbatim>\<open>Ring_Memory\<close> (\<^verbatim>\<open>umem.rs\<close>): the same rings in the bytes of their
    mappings, with the offsets of the kernel; locale \<^verbatim>\<open>memory_codec\<close> for what loads and stores give, locale \<^verbatim>\<open>ring_simulation\<close> for the
    refinement of the byte-level operations to those of \<^verbatim>\<open>Umem_Rings\<close>, and from there to queues.
  \<^item> \<^verbatim>\<open>Xdp_Filter\<close> (\<^verbatim>\<open>ebpf/dns_xdp_client.c\<close>, \<^verbatim>\<open>transport/xdp/loader.rs\<close>): the eBPF program on the bytes of a frame, and the loader.
    What it redirects the worker parses; what it does not redirect is characterised.
  \<^item> \<^verbatim>\<open>Xdp_Worker\<close>, \<^verbatim>\<open>Xdp_Frames\<close>, \<^verbatim>\<open>Xdp_Counts\<close> (\<^verbatim>\<open>xdp_unified_worker\<close> of \<^verbatim>\<open>transport/xdp/receiver.rs\<close>): one iteration of the worker as a function,
    the kernel as a step relation, frames conserved and never shared, counts exact. \<^verbatim>\<open>Xdp_Split\<close>: the split
    threads. \<^verbatim>\<open>Xdp_Start\<close>: the start of the path, its cores and rates.
  \<^item> \<^verbatim>\<open>Round_Trip\<close>: the way of a query through \<^verbatim>\<open>Dns_Message\<close>, \<^verbatim>\<open>Frame\<close>, \<^verbatim>\<open>Xdp_Worker\<close>, \<^verbatim>\<open>Inflight\<close> and \<^verbatim>\<open>Xdp_Filter\<close>: what the descriptors of the
    transmit ring point at, and what becomes of the answer.
  \<^item> \<^verbatim>\<open>Interfaces\<close> (\<^verbatim>\<open>autodetect.rs\<close>, \<^verbatim>\<open>transport/mod.rs\<close>, lookups of \<^verbatim>\<open>socket.rs\<close> and \<^verbatim>\<open>receiver.rs\<close>): topology, routes, interface choice
    over a file-system parameter.
  \<^item> \<^verbatim>\<open>Ramp\<close> (\<^verbatim>\<open>engine/ramp.rs\<close> and the ramp task of \<^verbatim>\<open>engine/mod.rs\<close>): the search for the knee, its result and its termination.
  \<^item> \<^verbatim>\<open>Config\<close> (\<^verbatim>\<open>main.rs\<close>, \<^verbatim>\<open>config.rs\<close>): every built configuration is well formed. \<^verbatim>\<open>Multi_Nic\<close> (\<^verbatim>\<open>engine/multi_nic.rs\<close>): the split of the
    workers with its wrap-around, the merge of the snapshots.
  \<^item> \<^verbatim>\<open>Engine\<close> (\<^verbatim>\<open>engine/mod.rs\<close>, \<^verbatim>\<open>engine/compare.rs\<close>, \<^verbatim>\<open>stats/oom_guard.rs\<close>): the NIC counters, the start of a run, its tasks as the
    relation \<^verbatim>\<open>run_step\<close>, the final snapshot, the comparison. A run can end unless its ramp task has left silently.
  \<^item> \<^verbatim>\<open>Kernel_Run\<close> (\<^verbatim>\<open>run_with_shutdown\<close> with \<^verbatim>\<open>closed_loop_unified\<close>): a whole run over kernel UDP, all workers on one collector, warm-up, reset and
    report, composed from \<^verbatim>\<open>Engine\<close>, \<^verbatim>\<open>Udp_Workers\<close> and \<^verbatim>\<open>Stats\<close>; the report balances.
  \<^item> \<^verbatim>\<open>Host_Tuning\<close> (\<^verbatim>\<open>governor.rs\<close>, \<^verbatim>\<open>simd.rs\<close>, the banner of \<^verbatim>\<open>autodetect.rs\<close>), \<^verbatim>\<open>Tui\<close> (\<^verbatim>\<open>output/tui.rs\<close>), \<^verbatim>\<open>Output\<close> (\<^verbatim>\<open>output/\<close>, the reports of
    \<^verbatim>\<open>compare.rs\<close> and \<^verbatim>\<open>main.rs\<close>): the governor is put back; the dashboard, with the texts of its widgets, stays in its bounds, and the
    terminal is restored unless drawing or reading fails; the CSV reads back.
  \<^item> \<^verbatim>\<open>Program\<close> (\<^verbatim>\<open>main.rs\<close>, the lines printed by \<^verbatim>\<open>engine/mod.rs\<close> and \<^verbatim>\<open>engine/multi_nic.rs\<close>): everything written to standard output, by run
    mode; when it is the JSON document alone.
  \<^item> This theory: properties from the command line to the stacks, and from the collectors to the aggregate.

  \<^bold>\<open>Bounds and fuel.\<close> Only the ramp task uses fuel: 25 steps, and \<^verbatim>\<open>ramp_terminates\<close> shows that they are enough for every
  environment, since the doubling phase has at most \<^verbatim>\<open>MAX_DOUBLINGS\<close> steps and each bisection halves the bracket.
  Worker loops, which run until the shutdown flag is set, take the list of what their iterations meet, so a theorem
  about them is one about every finite run. Loops inside an iteration are total functions with a termination
  proof. Bounds on counts (below \<open>2 ^ 64\<close> events) are hypotheses where a counter would otherwise wrap.

  \<^bold>\<open>Third-party code\<close> is a parameter: \<^verbatim>\<open>hdrhistogram\<close> (laws above), \<^verbatim>\<open>tokio\<close> (the tasks of a run interleave freely),
  \<^verbatim>\<open>rustls\<close> and \<^verbatim>\<open>aya\<close> (the outcome of each call), \<^verbatim>\<open>rand\<close> (a stream of numbers), the kernel.

  \<^bold>\<open>Not modelled.\<close> The option parser (\<^verbatim>\<open>clap\<close>) and the painting of the widgets (\<^verbatim>\<open>ratatui\<close>): library code the sources only
  configure. Set-up of the logger, its messages and the warnings on standard error, and calls that only tune the host
  (\<^verbatim>\<open>ethtool\<close>, \<^verbatim>\<open>mbind\<close>, thread affinity): no effect on the state the theorems speak of. \<^verbatim>\<open>read_xsk_statistics\<close>, a bare system call for the log.
  \<^verbatim>\<open>build.rs\<close>, which compiles the eBPF program, and \<^verbatim>\<open>engine/sender.rs\<close> and \<^verbatim>\<open>engine/receiver.rs\<close>, which only re-export. Unit
  tests and benchmarks. Weak memory orders: the relaxed atomics are counters and flags, and an interleaving is a
  sequence of atomic operations.
\<close>

section \<open>From the command line to the stacks\<close>

lemma nic_configs_servers: "map c_server (nic_configs cfg) = c_servers cfg"
  by (rule nth_equalityI) (simp_all add: nic_configs_nth nic_config_def)



section \<open>From the counters to the aggregate\<close>

text \<open>C10: When every stack of a multi-card run ends with the final snapshot of a collector whose counters add up, the
  aggregate adds up too: its completions are the sum of its response-code counters and its
  percentiles are in order.\<close>

theorem engine_aggregate_consistent:
  assumes "hist_laws H" "run_multi_nic run cfg = Inr m"
    and "\<forall>c \<in> set (nic_configs cfg). \<forall>s. run c = NicDone s \<longrightarrow>
      (\<exists>e on peak r0 r1 el st. stats_consistent st \<and> s = final_snapshot H e c on peak r0 r1 el st)"
  shows "snapshot_consistent m"
proof -
  have "snapshot_consistent s" if mem: "s \<in> set (nic_snapshots run cfg)" for s
  proof -
    obtain c where "c \<in> set (nic_configs cfg)" "run c = NicDone s"
      using mem by (auto simp: nic_snapshots_def set_filter_map split: nic_outcome.splits) (metis nic_outcome.exhaust)
    with assms(3) show ?thesis using final_snapshot_consistent [OF assms(1)] by blast
  qed
  then have "\<forall>s \<in> set (nic_snapshots run cfg). snapshot_consistent s" by blast
  from merge_consistent [OF this] show ?thesis
    using assms(2) by (auto simp: run_multi_nic_eq split: list.splits)
qed

definition quiet_nics :: nic_reading where
  "quiet_nics = \<lparr>nr_ethtool = (\<lambda>_. None), nr_host = route_host\<rparr>"

definition idle_run :: "config \<Rightarrow> unit nic_outcome" where
  "idle_run c = NicDone (final_snapshot list_hist kernel_env c False 0 quiet_nics quiet_nics (Fin 1) (stats_new list_hist))"

theorem engine_aggregate_consistent_witness:
  "\<exists>m. run_multi_nic idle_run (test_config 16 test_targets) = Inr m \<and> snapshot_consistent m"
proof -
  obtain m where m: "run_multi_nic idle_run (test_config 16 test_targets) = Inr m"
    by (simp add: run_multi_nic_eq nic_snapshots_def nic_configs_def test_config_def test_targets_def idle_run_def
        filter_map_def flatten_opt_def)
  have r: "\<forall>c \<in> set (nic_configs (test_config 16 test_targets)). \<forall>s. idle_run c = NicDone s \<longrightarrow>
      (\<exists>(e :: unit engine_env) on peak r0 r1 el st. stats_consistent st \<and> s = final_snapshot list_hist e c on peak r0 r1 el st)"
    unfolding idle_run_def by (metis nic_outcome.inject(1) stats_new_consistent)
  from engine_aggregate_consistent [OF list_hist_laws m r] m show ?thesis by blast
qed

end
